(* ===== verification/Ble_Prelude.thy ===== *)
theory Ble_Prelude
  imports Main "HOL-Library.Word" "HOL-Library.Monad_Syntax"
begin

unbundle bit_operations_syntax

text \<open>
  Shared vocabulary of the development: the machine integers of the crate, its error type,
  the Rust slice operations with their panics, and little-endian byte packing.

  Conventions used by every component theory:
  \<^item> a fixed array \<open>[u8; n]\<close> and a slice \<open>&[u8]\<close> are byte lists; that a field has its
    declared length is part of the component's well-formedness predicate;
  \<^item> \<open>Result<T, Error>\<close> is \<open>error + 'a\<close>, with \<open>Inl\<close> the error;
  \<^item> code that can panic (an index or slice out of range, a \<open>copy_from_slice\<close> of the wrong
    length, an \<open>unwrap\<close> of \<open>None\<close>) returns \<open>'a option\<close>, with \<open>None\<close> the panic, and is
    written in the option monad;
  \<^item> a mutated buffer is returned.
\<close>

section \<open>Machine integers\<close>

type_synonym u8 = "8 word"
type_synonym u16 = "16 word"
type_synonym u32 = "32 word"
type_synonym u64 = "64 word"
type_synonym bytes = "u8 list"

named_theorems codec_simps \<open>unfolding equations of encoders and decoders\<close>
named_theorems frame_simps \<open>fields an operation leaves alone\<close>

section \<open>The error type\<close>

datatype error =
    BufferTooSmall
  | InvalidPdu
  | InvalidLength
  | InvalidChannel
  | InvalidAddress
  | InvalidParam
  | AlreadyRunning
  | NotRunning
  | CrcMismatch
  | InvalidAd

fun error_display :: "error \<Rightarrow> string" where
  "error_display BufferTooSmall = ''output buffer too small''"
| "error_display InvalidPdu = ''invalid PDU''"
| "error_display InvalidLength = ''invalid length''"
| "error_display InvalidChannel = ''invalid channel''"
| "error_display InvalidAddress = ''invalid address''"
| "error_display InvalidParam = ''invalid parameter''"
| "error_display AlreadyRunning = ''operation already running''"
| "error_display NotRunning = ''operation not running''"
| "error_display CrcMismatch = ''CRC check failed''"
| "error_display InvalidAd = ''invalid advertising data''"

text \<open>The \<open>?\<close> operator.\<close>

fun try_then :: "'e + 'a \<Rightarrow> ('a \<Rightarrow> 'e + 'b) \<Rightarrow> 'e + 'b" where
  "try_then (Inl e) f = Inl e"
| "try_then (Inr x) f = f x"

lemma try_then_Inr: "(try_then r f = Inr y) = (\<exists>x. r = Inr x \<and> f x = Inr y)"
  by (cases r) auto

section \<open>Slices\<close>

text \<open>\<open>get xs i\<close> is \<open>xs[i]\<close>, \<open>slice xs a b\<close> is \<open>xs[a..b]\<close>, \<open>put xs i v\<close> is
  \<open>xs[i] = v\<close> and \<open>copy_slice xs a b ys\<close> is \<open>xs[a..b].copy_from_slice(ys)\<close>.\<close>

definition get :: "'a list \<Rightarrow> nat \<Rightarrow> 'a option" where
  "get xs i = (if i < length xs then Some (xs ! i) else None)"

definition slice :: "'a list \<Rightarrow> nat \<Rightarrow> nat \<Rightarrow> 'a list option" where
  "slice xs a b = (if a \<le> b \<and> b \<le> length xs then Some (take (b - a) (drop a xs)) else None)"

definition put :: "'a list \<Rightarrow> nat \<Rightarrow> 'a \<Rightarrow> 'a list option" where
  "put xs i v = (if i < length xs then Some (xs[i := v]) else None)"

definition copy_slice :: "'a list \<Rightarrow> nat \<Rightarrow> nat \<Rightarrow> 'a list \<Rightarrow> 'a list option" where
  "copy_slice xs a b ys =
     (if a \<le> b \<and> b \<le> length xs \<and> length ys = b - a
      then Some (take a xs @ ys @ drop b xs) else None)"

text \<open>\<open>set_prefix xs ys\<close> overwrites the first bytes of \<open>xs\<close>; it is
  \<open>xs[..n].copy_from_slice(ys)\<close> for a source known to fit.\<close>

definition set_prefix :: "'a list \<Rightarrow> 'a list \<Rightarrow> 'a list" where
  "set_prefix xs ys = ys @ drop (length ys) xs"

lemma get_Some [simp]: "i < length xs \<Longrightarrow> get xs i = Some (xs ! i)"
  by (simp add: get_def)

lemma get_None [simp]: "length xs \<le> i \<Longrightarrow> get xs i = None"
  by (simp add: get_def)

lemma slice_Some [simp]: "a \<le> b \<Longrightarrow> b \<le> length xs \<Longrightarrow> slice xs a b = Some (take (b - a) (drop a xs))"
  by (simp add: slice_def)

lemma put_Some [simp]: "i < length xs \<Longrightarrow> put xs i v = Some (xs[i := v])"
  by (simp add: put_def)

lemma copy_slice_Some [simp]:
  "a \<le> b \<Longrightarrow> b \<le> length xs \<Longrightarrow> length ys = b - a \<Longrightarrow> copy_slice xs a b ys = Some (take a xs @ ys @ drop b xs)"
  by (simp add: copy_slice_def)

lemma copy_slice_length: "copy_slice xs a b ys = Some zs \<Longrightarrow> length zs = length xs"
  by (auto simp: copy_slice_def split: if_splits)

lemma length_set_prefix [simp]: "length ys \<le> length xs \<Longrightarrow> length (set_prefix xs ys) = length xs"
  by (simp add: set_prefix_def)

lemma take_set_prefix [simp]: "take (length ys) (set_prefix xs ys) = ys"
  by (simp add: set_prefix_def)

lemma take_set_prefix' [simp]: "n = length ys \<Longrightarrow> take n (set_prefix xs ys) = ys"
  by simp

lemma drop_set_prefix [simp]: "drop (length ys) (set_prefix xs ys) = drop (length ys) xs"
  by (simp add: set_prefix_def)

lemma copy_slice_prefix: "length ys \<le> length xs \<Longrightarrow> copy_slice xs 0 (length ys) ys = Some (set_prefix xs ys)"
  by (simp add: set_prefix_def)

section \<open>Bits of fixed-width words\<close>

lemma bit_u8D: "bit (w :: u8) n \<Longrightarrow> n < 8"
  by (frule bit_imp_le_length) simp

lemma bit_u16D: "bit (w :: u16) n \<Longrightarrow> n < 16"
  by (frule bit_imp_le_length) simp

lemma bit_u32D: "bit (w :: u32) n \<Longrightarrow> n < 32"
  by (frule bit_imp_le_length) simp

lemmas bit_boundD = bit_u8D bit_u16D bit_u32D

lemma bit_beyond: "8 \<le> n \<Longrightarrow> \<not> bit (a :: u8) n" "16 \<le> n \<Longrightarrow> \<not> bit (b :: u16) n" "32 \<le> n \<Longrightarrow> \<not> bit (c :: u32) n"
  by (auto dest: bit_boundD)

section \<open>Little-endian packing\<close>

definition le16 :: "u16 \<Rightarrow> bytes" where
  "le16 w = [ucast w, ucast (drop_bit 8 w)]"

definition of_le16 :: "u8 \<Rightarrow> u8 \<Rightarrow> u16" where
  "of_le16 a b = ucast a OR push_bit 8 (ucast b)"

definition le32 :: "u32 \<Rightarrow> bytes" where
  "le32 w = [ucast w, ucast (drop_bit 8 w), ucast (drop_bit 16 w), ucast (drop_bit 24 w)]"

definition of_le32 :: "u8 \<Rightarrow> u8 \<Rightarrow> u8 \<Rightarrow> u8 \<Rightarrow> u32" where
  "of_le32 a b c d = ucast a OR push_bit 8 (ucast b) OR push_bit 16 (ucast c) OR push_bit 24 (ucast d)"

lemma length_le16 [simp]: "length (le16 w) = 2"
  by (simp add: le16_def)

lemma length_le32 [simp]: "length (le32 w) = 4"
  by (simp add: le32_def)

lemma of_le16_le16 [simp]: "of_le16 (ucast w) (ucast (drop_bit 8 w)) = w"
  by (rule bit_word_eqI) (auto simp: of_le16_def bit_simps)

lemma of_le32_le32 [simp]:
  "of_le32 (ucast w) (ucast (drop_bit 8 w)) (ucast (drop_bit 16 w)) (ucast (drop_bit 24 w)) = w"
proof (rule bit_word_eqI)
  fix n
  assume "n < LENGTH(32)"
  then have "n < 8 \<or> n \<in> {8..<16} \<or> n \<in> {16..<24} \<or> n \<in> {24..<32}"
    by auto
  then show "bit (of_le32 (ucast w) (ucast (drop_bit 8 w)) (ucast (drop_bit 16 w)) (ucast (drop_bit 24 w))) n =
      bit w n"
    by (auto simp: of_le32_def bit_simps)
qed

lemma le16_of_le16: "le16 (of_le16 a b) = [a, b]"
  by (auto simp: le16_def of_le16_def bit_simps intro!: bit_word_eqI dest: bit_boundD)

lemma le32_of_le32: "le32 (of_le32 a b c d) = [a, b, c, d]"
  by (auto simp: le32_def of_le32_def bit_simps bit_beyond intro!: bit_word_eqI)

section \<open>Words and bits\<close>

lemma word_and_1_neq_0: "(w AND 1 \<noteq> 0) = bit w 0" for w :: "'a::len word"
  by (simp add: and_one_eq bit_0 odd_iff_mod_2_eq_one flip: even_iff_mod_2_eq_zero)

lemma bit_times_2: "bit (w * 2) n = (n < LENGTH('a) \<and> 0 < n \<and> bit w (n - 1))" for w :: "'a::len word"
  by (auto simp: mult.commute [of w] bit_double_iff)

lemma and_3F: "w AND 0x3F = take_bit 6 w" for w :: u8
  by (simp add: take_bit_eq_mask mask_eq_exp_minus_1)

lemma and_1F: "w AND 0x1F = take_bit 5 w" for w :: u8
  by (simp add: take_bit_eq_mask mask_eq_exp_minus_1)

lemma and_0F: "w AND 0x0F = take_bit 4 w" for w :: u8
  by (simp add: take_bit_eq_mask mask_eq_exp_minus_1)

lemma and_07: "w AND 0x07 = take_bit 3 w" for w :: u8
  by (simp add: take_bit_eq_mask mask_eq_exp_minus_1)

lemma and_03: "w AND 0x03 = take_bit 2 w" for w :: u8
  by (simp add: take_bit_eq_mask mask_eq_exp_minus_1)

lemma and_03_u16: "w AND 0x03 = take_bit 2 w" for w :: u16
  by (simp add: take_bit_eq_mask mask_eq_exp_minus_1)

lemma and_FF_u16: "w AND 0xFF = take_bit 8 w" for w :: u16
  by (simp add: take_bit_eq_mask mask_eq_exp_minus_1)

lemma and_FF_u8 [simp]: "0xFF AND w = w" "w AND 0xFF = w" for w :: u8
  using take_bit_word_eq_self [of 8 w] by (simp_all add: take_bit_eq_mask mask_eq_exp_minus_1 and.commute)

lemma and_FF_u32: "w AND 0xFF = take_bit 8 w" for w :: u32
  by (simp add: take_bit_eq_mask mask_eq_exp_minus_1)

lemma and_FFFFFF_u32: "w AND 0xFFFFFF = take_bit 24 w" for w :: u32
  by (simp add: take_bit_eq_mask mask_eq_exp_minus_1)

lemmas and_masks = and_3F and_1F and_0F and_07 and_03 and_03_u16 and_FF_u16

lemma and_flag:
  "(w AND 0x01 = 0) = (\<not> bit w 0)" "(w AND 0x04 = 0) = (\<not> bit w 2)" "(w AND 0x08 = 0) = (\<not> bit w 3)"
  "(w AND 0x10 = 0) = (\<not> bit w 4)" "(w AND 0x40 = 0) = (\<not> bit w 6)" "(w AND 0x80 = 0) = (\<not> bit w 7)"
  for w :: u8
  using and_exp_eq_0_iff_not_bit [of w 0] and_exp_eq_0_iff_not_bit [of w 2] and_exp_eq_0_iff_not_bit [of w 3]
    and_exp_eq_0_iff_not_bit [of w 4] and_exp_eq_0_iff_not_bit [of w 6] and_exp_eq_0_iff_not_bit [of w 7]
  by simp_all

lemma take_bit_eq_less: "take_bit n w = w \<Longrightarrow> n < LENGTH('a) \<Longrightarrow> w < 2 ^ n" for w :: "'a::len word"
  using and_mask_less_size [of n w] by (simp add: word_size take_bit_eq_mask)

lemma less_exp_bit: "w < 2 ^ n \<Longrightarrow> bit w i \<Longrightarrow> i < n" for w :: "'a::len word"
  by (metis bit_and_iff bit_mask_iff less_mask_eq)

lemma xor_left_cancel: "(b XOR x = b XOR y) = (x = y)" for b x y :: "'a::len word"
proof
  assume "b XOR x = b XOR y"
  then have "b XOR (b XOR x) = b XOR (b XOR y)" by simp
  then show "x = y" by (simp add: xor.assoc [symmetric])
qed simp

lemma unat_u8_less: "unat (w :: u8) < 256"
proof -
  have "unat w < 2 ^ LENGTH(8)" by (rule unsigned_less)
  then show ?thesis by simp
qed

lemma unat_u16_less: "unat (w :: u16) < 65536"
proof -
  have "unat w < 2 ^ LENGTH(16)" by (rule unsigned_less)
  then show ?thesis by simp
qed

lemma unat_u32_less: "unat (w :: u32) < 4294967296"
proof -
  have "unat w < 2 ^ LENGTH(32)" by (rule unsigned_less)
  then show ?thesis by simp
qed

lemma unat_ucast_8_16 [simp]: "unat (ucast (w :: u8) :: u16) = unat w"
  using unat_u8_less [of w] by (simp add: unsigned_ucast_eq take_bit_nat_eq_self_iff)

lemma unat_ucast_8_32 [simp]: "unat (ucast (w :: u8) :: u32) = unat w"
  using unat_u8_less [of w] by (simp add: unsigned_ucast_eq take_bit_nat_eq_self_iff)

lemma unat_ucast_16_32 [simp]: "unat (ucast (w :: u16) :: u32) = unat w"
  using unat_u16_less [of w] by (simp add: unsigned_ucast_eq take_bit_nat_eq_self_iff)

lemma ucast_bool_bit: "bit (of_bool b :: 'a::len word) n = (b \<and> n = 0)"
  by (auto simp: bit_of_bool_iff)

section \<open>Lists\<close>

lemma map_conv_nth: "length xs = n \<Longrightarrow> map (\<lambda>i. xs ! i) [0..<n] = xs"
  by (auto intro: nth_equalityI)

lemma list_expand: "length xs = n \<Longrightarrow> xs = map ((!) xs) [0..<n]"
  by (auto intro: nth_equalityI)

lemma length_6_cases:
  assumes "length xs = 6"
  obtains a b c d e f where "xs = [a, b, c, d, e, f]"
  using assms by (auto simp: numeral_eq_Suc length_Suc_conv)

section \<open>Reading words from slices\<close>

text \<open>\<open>u16::from_le_bytes([xs[i], xs[i + 1]])\<close>.\<close>

definition get_le16 :: "bytes \<Rightarrow> nat \<Rightarrow> u16 option" where
  "get_le16 xs i = do { a \<leftarrow> get xs i; b \<leftarrow> get xs (i + 1); Some (of_le16 a b) }"

lemma get_le16_Some [simp]: "Suc i < length xs \<Longrightarrow> get_le16 xs i = Some (of_le16 (xs ! i) (xs ! Suc i))"
  by (simp add: get_le16_def)

lemma get_le16_None [simp]: "length xs \<le> Suc i \<Longrightarrow> get_le16 xs i = None"
  by (auto simp: get_le16_def get_def)

section \<open>Saturating arithmetic\<close>

definition saturating_add :: "u16 \<Rightarrow> u16 \<Rightarrow> u16" where
  "saturating_add a b = (if unat a + unat b < 2 ^ 16 then a + b else 0xFFFF)"

lemma unat_saturating_add: "unat (saturating_add a b) = min (unat a + unat b) 65535"
  by (auto simp: saturating_add_def unat_word_ariths min_def)

end
