(* ===== verification/Crc24.thy ===== *)
theory Crc24
  imports Ble_Prelude
begin

text \<open>
  The BLE CRC-24 of \<open>src/ll/crc.rs\<close>: the reflected, byte-wise register of the source, its
  reference in the bit-serial normal form of the polynomial, and the error-detection
  guarantees of the code.
\<close>

definition CRC_POLY :: u32 where "CRC_POLY = 0x0000065B"
definition CRC_INIT :: u32 where "CRC_INIT = 0x00555555"
definition CRC_REFLECTED_POLY :: u32 where "CRC_REFLECTED_POLY = 0x00DA6000"

text \<open>The loop of \<open>reflect\<close>: \<open>v\<close> is shifted out, \<open>r\<close> shifted in, \<open>n\<close> rounds are left.\<close>

fun reflect_loop :: "nat \<Rightarrow> u32 \<Rightarrow> u32 \<Rightarrow> u32" where
  "reflect_loop 0 v r = r"
| "reflect_loop (Suc n) v r = reflect_loop n (drop_bit 1 v) (push_bit 1 r OR (v AND 1))"

definition reflect :: "u32 \<Rightarrow> nat \<Rightarrow> u32" where
  "reflect value bits = reflect_loop bits value 0"

definition crc_bit :: "u32 \<Rightarrow> u32" where
  "crc_bit crc = (if crc AND 1 \<noteq> 0 then drop_bit 1 crc XOR CRC_REFLECTED_POLY else drop_bit 1 crc)"

definition crc_byte :: "u32 \<Rightarrow> u8 \<Rightarrow> u32" where
  "crc_byte crc b = (crc_bit ^^ 8) (crc XOR ucast b) AND 0xFFFFFF"

definition crc24_with_init :: "bytes \<Rightarrow> u32 \<Rightarrow> u32" where
  "crc24_with_init data init = foldl crc_byte (reflect (init AND 0xFFFFFF) 24) data"

definition crc24 :: "bytes \<Rightarrow> u32" where
  "crc24 data = crc24_with_init data CRC_INIT"

definition crc_bytes :: "u32 \<Rightarrow> bytes" where
  "crc_bytes crc = [ucast crc, ucast (drop_bit 8 crc), ucast (drop_bit 16 crc)]"

definition append_crc :: "bytes \<Rightarrow> bytes \<Rightarrow> error + bytes" where
  "append_crc pdu out =
     (if length out < 3 then Inl BufferTooSmall else Inr (set_prefix out (crc_bytes (crc24 pdu))))"

definition check :: "bytes \<Rightarrow> bool" where
  "check pdu_with_crc = (if length pdu_with_crc < 3 then False else crc24 pdu_with_crc = 0)"

text \<open>
  The reference: the shift register of the generator polynomial in normal form, fed with
  the bits of each byte least significant first, as the bits go on air.
\<close>

definition ref_bit :: "u32 \<Rightarrow> bool \<Rightarrow> u32" where
  "ref_bit r d = take_bit 24 (push_bit 1 r) XOR (if bit r 23 \<noteq> d then CRC_POLY else 0)"

definition ref_byte :: "u32 \<Rightarrow> u8 \<Rightarrow> u32" where
  "ref_byte r b = foldl (\<lambda>r i. ref_bit r (bit b i)) r [0..<8]"

definition crc24_ref :: "bytes \<Rightarrow> u32 \<Rightarrow> u32" where
  "crc24_ref data init = foldl ref_byte (take_bit 24 init) data"

text \<open>Bit \<open>n\<close> of a packet in the order in which the bits go on air: byte by byte, least significant
  bit first.\<close>

definition air_bit :: "bytes \<Rightarrow> nat \<Rightarrow> bool" where
  "air_bit m n = bit (m ! (n div 8)) (n mod 8)"

section \<open>The register as a linear map\<close>

lemma crc_bit_alt: "crc_bit c = drop_bit 1 c XOR (if bit c 0 then CRC_REFLECTED_POLY else 0)"
  unfolding crc_bit_def word_and_1_neq_0 by simp

lemma crc_bit_xor: "crc_bit (a XOR b) = crc_bit a XOR crc_bit b"
  unfolding crc_bit_alt drop_bit_xor bit_xor_iff
  by (auto simp: ac_simps)

lemma crc_bit_0 [simp]: "crc_bit 0 = 0"
  by (simp add: crc_bit_def)

lemma crc_bits_xor: "(crc_bit ^^ n) (a XOR b) = (crc_bit ^^ n) a XOR (crc_bit ^^ n) b"
  by (induction n) (simp_all add: crc_bit_xor)

lemma crc_bits_0 [simp]: "(crc_bit ^^ n) 0 = 0"
  by (induction n) simp_all

abbreviation u24 :: "u32 \<Rightarrow> bool" where
  "u24 w \<equiv> take_bit 24 w = w"

lemma u24_iff: "u24 w \<longleftrightarrow> (\<forall>n. bit w n \<longrightarrow> n < 24)"
proof -
  have "u24 w \<longleftrightarrow> (\<forall>n<32. bit (take_bit 24 w) n = bit w n)"
    by (simp add: bit_eq_iff)
  also have "\<dots> \<longleftrightarrow> (\<forall>n. bit w n \<longrightarrow> n < 24)"
    by (auto simp: bit_simps dest: bit_u32D)
  finally show ?thesis .
qed

lemma and_FFFFFF: "w AND 0xFFFFFF = take_bit 24 w" for w :: u32
  by (simp add: take_bit_eq_mask mask_eq_exp_minus_1)

lemma u24_xor: "u24 a \<Longrightarrow> u24 b \<Longrightarrow> u24 (a XOR b)"
  by (simp add: take_bit_xor)

lemma u24_poly: "u24 CRC_REFLECTED_POLY"
  by (simp add: CRC_REFLECTED_POLY_def)

lemma u24_ucast: "u24 (ucast (b :: u8))"
  by (auto simp: u24_iff bit_simps dest: bit_boundD)

lemma u24_crc_bit: "u24 c \<Longrightarrow> u24 (crc_bit c)"
  unfolding crc_bit_alt
  by (rule u24_xor) (auto simp: u24_iff bit_simps u24_poly[unfolded u24_iff, rule_format])

lemma u24_crc_bits: "u24 c \<Longrightarrow> u24 ((crc_bit ^^ n) c)"
  by (induction n) (simp_all add: u24_crc_bit)

lemma u24_crc_byte [simp]: "u24 (crc_byte c b)"
  by (simp add: crc_byte_def and_FFFFFF)

lemma crc_byte_alt: "u24 c \<Longrightarrow> crc_byte c b = (crc_bit ^^ 8) (c XOR ucast b)"
  by (simp add: crc_byte_def and_FFFFFF u24_crc_bits u24_xor u24_ucast)

lemma xor_eq_0_conv: "(a XOR b = 0) = (a = b)" for a b :: "'a::len word"
  by (metis bit.xor_self xor.left_neutral xor.assoc xor.right_neutral)

lemma crc_bit_eq_0:
  assumes c: "u24 c" and z: "crc_bit c = 0"
  shows "c = 0"
proof (rule bit_word_eqI)
  have nb: "\<not> bit c 0"
  proof
    assume "bit c 0"
    with z have "drop_bit 1 c = CRC_REFLECTED_POLY"
      by (simp add: crc_bit_alt xor_eq_0_conv)
    then have "bit (drop_bit 1 c) 23"
      by (simp add: CRC_REFLECTED_POLY_def)
    then have "bit c 24"
      by (simp add: bit_simps)
    with c show False
      by (auto simp: u24_iff)
  qed
  with z have d: "drop_bit 1 c = 0"
    by (simp add: crc_bit_alt)
  fix n
  show "bit c n = bit 0 n"
  proof (cases n)
    case 0
    with nb show ?thesis by simp
  next
    case (Suc m)
    have "bit (drop_bit 1 c) m = bit c (Suc m)"
      by (simp add: bit_simps)
    with d Suc show ?thesis by simp
  qed
qed

lemma crc_bits_eq_0: "u24 c \<Longrightarrow> (crc_bit ^^ n) c = 0 \<Longrightarrow> c = 0"
  by (induction n) (simp_all add: crc_bit_eq_0 u24_crc_bits)

section \<open>Cancelling the register: the residue of an appended CRC\<close>

lemma crc_bits_low_zero:
  "\<forall>i<n. \<not> bit c i \<Longrightarrow> (crc_bit ^^ n) c = drop_bit n c"
proof (induction n arbitrary: c)
  case (Suc n)
  then have "\<not> bit c 0" by blast
  then have s: "crc_bit c = drop_bit 1 c"
    by (simp add: crc_bit_alt)
  from Suc.prems have "\<forall>i<n. \<not> bit (drop_bit 1 c) i"
    by (auto simp: bit_simps)
  from Suc.IH [OF this] s show ?case
    by (simp only: funpow_Suc_right comp_apply drop_bit_drop_bit) simp
qed simp

lemma crc_byte_cancel: "u24 c \<Longrightarrow> crc_byte c (ucast c) = drop_bit 8 c"
  by (simp add: crc_byte_alt)
     (subst crc_bits_low_zero; auto simp: bit_simps intro!: bit_word_eqI dest: bit_boundD)

lemma crc_bytes_residue:
  assumes "u24 c"
  shows "foldl crc_byte c (crc_bytes c) = 0"
proof -
  have u: "u24 (drop_bit n c)" for n
    using assms by (auto simp: u24_iff bit_simps)
  have "foldl crc_byte c (crc_bytes c) = drop_bit 8 (drop_bit 8 (drop_bit 8 c))"
    using crc_byte_cancel [OF assms] crc_byte_cancel [OF u, of 8] crc_byte_cancel [OF u, of 16]
    by (simp add: crc_bytes_def drop_bit_drop_bit)
  also have "\<dots> = 0"
    using assms by (auto simp: u24_iff bit_simps drop_bit_drop_bit intro!: bit_word_eqI)
  finally show ?thesis .
qed

section \<open>Reflection and the reference register\<close>

lemma bit_reflect_loop:
  "bit (reflect_loop n v r) i =
     (i < 32 \<and> (if i < n then bit v (n - 1 - i) else bit r (i - n)))"
proof (induction n arbitrary: v r)
  case 0
  then show ?case by (auto dest: bit_u32D)
next
  case (Suc n)
  show ?case
    unfolding reflect_loop.simps Suc.IH
    by (cases "i < n"; cases "i = n")
       (auto simp: bit_simps bit_times_2 bit_1_iff Suc_diff_Suc dest: bit_u32D)
qed

lemma bit_reflect24: "bit (reflect v 24) i = (i < 24 \<and> bit v (23 - i))"
  by (auto simp: reflect_def bit_reflect_loop)

lemma u24_reflect [simp]: "u24 (reflect v 24)"
  by (simp add: u24_iff bit_reflect24)

lemma reflect_xor: "reflect (a XOR b) 24 = reflect a 24 XOR reflect b 24"
  by (rule bit_word_eqI) (auto simp: bit_reflect24 bit_simps)

lemma reflect_0: "reflect 0 24 = 0"
  by (rule bit_word_eqI) (simp add: bit_reflect24)

lemma reflect_poly: "reflect CRC_POLY 24 = CRC_REFLECTED_POLY"
  unfolding CRC_POLY_def CRC_REFLECTED_POLY_def reflect_def by code_simp

lemma reflect_shift:
  "reflect (take_bit 24 (push_bit 1 r)) 24 = drop_bit 1 (reflect r 24)"
  by (rule bit_word_eqI) (auto simp: bit_reflect24 bit_simps bit_times_2 Suc_diff_Suc)

lemma reflect_ref_bit: "reflect (ref_bit r d) 24 = crc_bit (reflect r 24 XOR of_bool d)"
proof -
  have d1: "drop_bit 1 (of_bool d :: u32) = 0"
    by (cases d) simp_all
  have "bit (reflect r 24 XOR of_bool d) 0 = (bit r 23 \<noteq> d)"
    by (auto simp: bit_reflect24 bit_simps)
  then show ?thesis
    unfolding ref_bit_def crc_bit_alt reflect_xor reflect_shift drop_bit_xor d1
    by (simp add: reflect_poly reflect_0)
qed

lemma crc_bits_serial:
  assumes "u24 c" and "n \<le> 8"
  shows "(crc_bit ^^ n) (c XOR ucast b) =
     foldl (\<lambda>c i. crc_bit (c XOR of_bool (bit b i))) c [0..<n] XOR drop_bit n (ucast (b :: u8))"
  using assms(2)
proof (induction n)
  case (Suc n)
  let ?X = "foldl (\<lambda>c i. crc_bit (c XOR of_bool (bit b i))) c [0..<n]"
  let ?t = "drop_bit (Suc n) (ucast b) :: u32"
  have split: "drop_bit n (ucast b) = of_bool (bit b n) XOR push_bit 1 ?t"
  proof (rule bit_word_eqI)
    fix m
    show "bit (drop_bit n (ucast b :: u32)) m = bit (of_bool (bit b n) XOR push_bit 1 ?t) m"
      by (cases m) (auto simp: bit_simps bit_times_2 dest: bit_u8D)
  qed
  have "crc_bit (push_bit 1 ?t) = drop_bit 1 (push_bit 1 ?t)"
    by (simp add: crc_bit_alt bit_times_2)
  also have "\<dots> = ?t"
    by (rule bit_word_eqI) (auto simp: bit_simps bit_times_2 dest: bit_u8D)
  finally have even: "crc_bit (push_bit 1 ?t) = ?t" .
  from Suc have "(crc_bit ^^ Suc n) (c XOR ucast b) = crc_bit (?X XOR drop_bit n (ucast b))"
    by simp
  also have "\<dots> = crc_bit (?X XOR of_bool (bit b n)) XOR ?t"
    unfolding split xor.assoc [symmetric] crc_bit_xor [of _ "push_bit 1 ?t"] even ..
  finally show ?case by simp
qed simp

lemma reflect_ref_byte: "reflect (ref_byte r b) 24 = crc_byte (reflect r 24) b"
proof -
  have "reflect (foldl (\<lambda>r i. ref_bit r (bit b i)) r is) 24 =
      foldl (\<lambda>c i. crc_bit (c XOR of_bool (bit b i))) (reflect r 24) is" for "is"
    by (induction "is" arbitrary: r) (simp_all add: reflect_ref_bit)
  moreover have "drop_bit 8 (ucast b :: u32) = 0"
    by (rule bit_word_eqI) (auto simp: bit_simps dest: bit_u8D)
  ultimately show ?thesis
    unfolding ref_byte_def crc_byte_alt [OF u24_reflect] crc_bits_serial [OF u24_reflect order.refl]
    by simp
qed

section \<open>Error detection\<close>

lemma crc_bits_inj:
  assumes "u24 x" "u24 y" "(crc_bit ^^ n) x = (crc_bit ^^ n) y"
  shows "x = y"
proof -
  have "(crc_bit ^^ n) (x XOR y) = 0"
    using assms(3) by (simp add: crc_bits_xor)
  then have "x XOR y = 0"
    using crc_bits_eq_0 [OF u24_xor [OF assms(1,2)]] by blast
  then show ?thesis by (simp add: xor_eq_0_conv)
qed

lemma crc_byte_xor:
  assumes "u24 a" "u24 b"
  shows "crc_byte (a XOR b) (x XOR y) = crc_byte a x XOR crc_byte b y"
proof -
  have "(a XOR b) XOR ucast (x XOR y) = (a XOR ucast x) XOR (b XOR ucast y)"
    by (rule bit_word_eqI) (auto simp: bit_simps)
  then show ?thesis
    unfolding crc_byte_alt [OF u24_xor [OF assms]] crc_byte_alt [OF assms(1)] crc_byte_alt [OF assms(2)]
    by (simp only: crc_bits_xor [of 8 "a XOR ucast x" "b XOR ucast y"])
qed

lemma crc_fold_xor:
  "length xs = length ys \<Longrightarrow> u24 a \<Longrightarrow> u24 b \<Longrightarrow>
   foldl crc_byte (a XOR b) (map2 (XOR) xs ys) = foldl crc_byte a xs XOR foldl crc_byte b ys"
  by (induction xs ys arbitrary: a b rule: list_induct2) (simp_all add: crc_byte_xor)

lemma crc_byte_0_0 [simp]: "crc_byte 0 0 = 0"
  by (simp add: crc_byte_def)

text \<open>The bits of a packet in the order in which they go on air, and the register fed bit by bit.\<close>

definition air_bits :: "bytes \<Rightarrow> bool list" where
  "air_bits m = concat (map (\<lambda>b. map (bit b) [0..<8]) m)"

definition crc_in :: "u32 \<Rightarrow> bool \<Rightarrow> u32" where
  "crc_in c d = crc_bit (c XOR of_bool d)"

lemma length_air_bits [simp]: "length (air_bits m) = 8 * length m"
  by (induction m) (simp_all add: air_bits_def)

lemma nth_air_bits: "n < 8 * length m \<Longrightarrow> air_bits m ! n = air_bit m n"
proof (induction m arbitrary: n)
  case (Cons b m)
  show ?case
  proof (cases "n < 8")
    case True
    then show ?thesis by (simp add: air_bits_def air_bit_def nth_append)
  next
    case False
    then have "n div 8 = Suc ((n - 8) div 8)" "n mod 8 = (n - 8) mod 8" by (simp_all add: le_div_geq le_mod_geq)
    with False Cons show ?thesis by (simp add: air_bits_def air_bit_def nth_append)
  qed
qed simp

lemma crc_byte_air: "u24 c \<Longrightarrow> crc_byte c b = foldl crc_in c (map (bit b) [0..<8])"
proof -
  assume c: "u24 c"
  have "drop_bit 8 (ucast b :: u32) = 0" by (rule bit_word_eqI) (auto simp: bit_simps dest: bit_u8D)
  with crc_bits_serial [OF c order.refl, of b] show ?thesis
    by (simp add: crc_byte_alt [OF c] foldl_map crc_in_def)
qed

lemma crc_fold_air: "u24 c \<Longrightarrow> foldl crc_byte c m = foldl crc_in c (air_bits m)"
proof (induction m arbitrary: c)
  case (Cons b m)
  have "foldl crc_byte (crc_byte c b) m = foldl crc_in (crc_byte c b) (air_bits m)" by (rule Cons.IH) simp
  then show ?case using crc_byte_air [OF Cons.prems, of b] by (simp add: air_bits_def)
qed (simp add: air_bits_def)

text \<open>Up to 32 input bits act on the register as the word that they form.\<close>

fun window_word :: "bool list \<Rightarrow> u32" where
  "window_word [] = 0"
| "window_word (d # ds) = of_bool d XOR push_bit 1 (window_word ds)"

lemma bit_window_word: "bit (window_word ds) i \<longleftrightarrow> i < 32 \<and> i < length ds \<and> ds ! i"
proof (induction ds arbitrary: i)
  case (Cons d ds)
  have "bit (window_word (d # ds)) i \<longleftrightarrow> (if i = 0 then d else i < 32 \<and> bit (window_word ds) (i - 1))"
    by (cases d) (auto simp: bit_simps bit_times_2)
  with Cons.IH [of "i - 1"] show ?case by (cases i) auto
qed simp

lemma crc_in_window:
  "length ds \<le> 24 \<Longrightarrow> foldl crc_in c ds = (crc_bit ^^ length ds) (c XOR window_word ds)"
proof (induction ds arbitrary: c)
  case (Cons d ds)
  let ?w = "window_word ds"
  have "bit ?w n \<Longrightarrow> n < 31" for n using Cons.prems by (simp add: bit_window_word)
  then have "crc_bit (push_bit 1 ?w) = ?w"
    by (auto simp: crc_bit_alt bit_simps bit_times_2 intro!: bit_word_eqI)
  then have "crc_bit (c XOR (of_bool d XOR push_bit 1 ?w)) = crc_in c d XOR ?w"
    by (simp add: crc_in_def crc_bit_xor flip: xor.assoc)
  with Cons show ?case by (simp add: funpow_Suc_right del: funpow.simps)
qed simp

lemma crc_in_False: "foldl crc_in c (replicate n False) = (crc_bit ^^ n) c"
  by (induction n arbitrary: c) (simp_all add: crc_in_def funpow_Suc_right del: funpow.simps)

lemma crc_window_detected:
  assumes "foldl crc_in 0 (replicate k False @ ds @ replicate n False) = 0" and "length ds \<le> 24"
  shows "\<forall>d \<in> set ds. \<not> d"
proof -
  have u: "u24 (window_word ds)" using assms(2) by (auto simp: u24_iff bit_window_word)
  have "(crc_bit ^^ n) ((crc_bit ^^ length ds) (window_word ds)) = 0"
    using assms by (simp add: crc_in_False crc_in_window)
  then have "window_word ds = 0" using crc_bits_eq_0 u u24_crc_bits by blast
  then have "\<not> ds ! i" if "i < length ds" for i using bit_window_word [of ds i] that assms(2) by simp
  then show ?thesis by (auto simp: in_set_conv_nth)
qed

lemma u24_crc24_with_init [simp]: "u24 (crc24_with_init data init)"
proof -
  have "u24 c \<Longrightarrow> u24 (foldl crc_byte c data)" for c
    by (induction data arbitrary: c) simp_all
  then show ?thesis by (simp add: crc24_with_init_def)
qed

lemma u24_crc24 [simp]: "u24 (crc24 data)"
  by (simp add: crc24_def)

lemma check_crc_bytes: "check (pdu @ crc_bytes (crc24 pdu))"
proof -
  have "crc24 (pdu @ crc_bytes (crc24 pdu)) = foldl crc_byte (crc24 pdu) (crc_bytes (crc24 pdu))"
    by (simp add: crc24_def crc24_with_init_def)
  also have "\<dots> = 0"
    by (rule crc_bytes_residue) simp
  finally show ?thesis
    by (simp add: check_def crc_bytes_def)
qed

lemma crc24_xor:
  "length m = length e \<Longrightarrow> crc24 (map2 (XOR) m e) = crc24 m XOR foldl crc_byte 0 e"
  using crc_fold_xor [of m e "reflect (CRC_INIT AND 0xFFFFFF) 24" 0]
  by (simp add: crc24_def crc24_with_init_def)

lemma check_burst:
  assumes "check m" and "length m' = length m" and "m' \<noteq> m"
    and "\<forall>n < 8 * length m. air_bit m' n \<noteq> air_bit m n \<longrightarrow> k \<le> n \<and> n < k + 24"
  shows "\<not> check m'"
proof
  assume "check m'"
  define e where "e = map2 (XOR) m m'"
  have l: "length e = length m" using assms(2) by (simp add: e_def)
  have "map2 (XOR) m e = m'"
    using assms(2) by (auto simp: e_def list_eq_iff_nth_eq simp flip: xor.assoc)
  then have "foldl crc_byte 0 e = 0"
    using crc24_xor [of m e] l \<open>check m'\<close> assms(1) by (simp add: check_def split: if_splits)
  then have z: "foldl crc_in 0 (air_bits e) = 0" by (simp add: crc_fold_air)
  have bits: "air_bits e ! n \<longleftrightarrow> air_bit m' n \<noteq> air_bit m n" if "n < 8 * length m" for n
  proof -
    have "n div 8 < length m" using that by linarith
    then show ?thesis using that l assms(2) by (auto simp: nth_air_bits air_bit_def e_def bit_simps)
  qed
  let ?mid = "take 24 (drop k (air_bits e))" and ?rest = "drop 24 (drop k (air_bits e))"
  have out: "\<not> air_bits e ! n" if "n < 8 * length m" "\<not> (k \<le> n \<and> n < k + 24)" for n
    using that bits assms(4) by blast
  have "take k (air_bits e) = replicate (min k (8 * length m)) False"
    using out l by (auto simp: list_eq_iff_nth_eq)
  moreover have "?rest = replicate (length ?rest) False"
    using out l by (auto simp: list_eq_iff_nth_eq)
  ultimately obtain i j where "air_bits e = replicate i False @ ?mid @ replicate j False"
    by (metis append_take_drop_id)
  with z have mid: "\<forall>d \<in> set ?mid. \<not> d"
    using crc_window_detected [of i ?mid j] by auto
  have "\<not> air_bits e ! n" if n: "n < 8 * length m" for n
  proof (cases "k \<le> n \<and> n < k + 24")
    case True
    then have "?mid ! (n - k) = air_bits e ! n" "n - k < length ?mid" using n l by auto
    then show ?thesis using mid by (metis nth_mem)
  qed (use out n in blast)
  then have eq: "air_bit m' n = air_bit m n" if "n < 8 * length m" for n using bits that by blast
  have "m' ! i = m ! i" if "i < length m" for i
  proof (rule bit_word_eqI)
    fix j assume "j < LENGTH(8)"
    then have "8 * i + j < 8 * length m" "(8 * i + j) div 8 = i" "(8 * i + j) mod 8 = j" using that by auto
    then show "bit (m' ! i) j = bit (m ! i) j" using eq [of "8 * i + j"] by (simp add: air_bit_def)
  qed
  then have "m' = m" using assms(2) by (simp add: list_eq_iff_nth_eq)
  with assms(3) show False ..
qed

section \<open>Properties\<close>

text \<open>C17. The byte-wise reflected CRC of the source computes, for every message and every
  initial value, the bit reversal of the normal-form shift register of the polynomial
  \<open>x^24 + x^10 + x^9 + x^6 + x^4 + x^3 + x + 1\<close> fed with each byte least significant bit
  first.\<close>

theorem crc24_matches_reference:
  "crc24_with_init data init = reflect (crc24_ref data init) 24"
proof -
  have "reflect (foldl ref_byte r data) 24 = foldl crc_byte (reflect r 24) data" for r
    by (induction data arbitrary: r) (simp_all add: reflect_ref_byte)
  then show ?thesis
    by (simp add: crc24_with_init_def crc24_ref_def and_FFFFFF)
qed

text \<open>Whenever \<open>append_crc\<close> succeeds, the PDU followed by the three bytes it wrote passes
  \<open>check\<close>, and the rest of the output buffer is untouched.\<close>

lemma append_crc_then_check:
  assumes "append_crc pdu out = Inr out'"
  shows "check (pdu @ take 3 out') \<and> drop 3 out' = drop 3 out \<and> length out' = length out"
proof -
  have l: "length (crc_bytes (crc24 pdu)) = 3" by (simp add: crc_bytes_def)
  from assms have o: "3 \<le> length out" and out': "out' = set_prefix out (crc_bytes (crc24 pdu))"
    by (auto simp: append_crc_def split: if_splits)
  have "drop 3 out' = drop 3 out"
    unfolding out' l [symmetric] by (rule drop_set_prefix)
  then show ?thesis
    using check_crc_bytes [of pdu] out' o l by simp
qed

text \<open>C18. Every error burst of up to 24 bits is detected: when a packet that passes \<open>check\<close> and a
  corrupted copy of the same length differ only within some window of 24 consecutive bits in the
  order of transmission, aligned to an octet or not, and differ at all, the copy fails \<open>check\<close>.\<close>

theorem crc_detects_bursts:
  assumes "check m" and "length m' = length m" and "m' \<noteq> m"
    and "\<forall>n < 8 * length m. air_bit m' n \<noteq> air_bit m n \<longrightarrow> k \<le> n \<and> n < k + 24"
  shows "\<not> check m'"
  using assms by (rule check_burst)

text \<open>A burst from the last bit of the first octet to the seventh bit of the fourth.\<close>

theorem crc_detects_bursts_witness: "\<not> check [0xC2, 0x13, 0x27, 0x2A, 0xF2, 0x2F]"
proof (rule crc_detects_bursts)
  have "crc_bytes (crc24 [0x42, 0x13, 0x37]) = [0x6A, 0xF2, 0x2F]" by code_simp
  with check_crc_bytes [of "[0x42, 0x13, 0x37]"] show "check [0x42, 0x13, 0x37, 0x6A, 0xF2, 0x2F]" by simp
  have "list_all (\<lambda>n. air_bit [0xC2, 0x13, 0x27, 0x2A, 0xF2, 0x2F] n \<noteq> air_bit [0x42, 0x13, 0x37, 0x6A, 0xF2, 0x2F] n \<longrightarrow>
      7 \<le> n \<and> n < 31) [0..<48]" by code_simp
  then show "\<forall>n < 8 * length [0x42, 0x13, 0x37, 0x6A, 0xF2, 0x2F :: u8].
      air_bit [0xC2, 0x13, 0x27, 0x2A, 0xF2, 0x2F] n \<noteq> air_bit [0x42, 0x13, 0x37, 0x6A, 0xF2, 0x2F] n \<longrightarrow> 7 \<le> n \<and> n < 7 + 24"
    unfolding list_all_iff set_upt by simp
qed simp_all

end
