(* ===== verification/Whiten.thy ===== *)
theory Whiten
  imports Ble_Prelude
begin

text \<open>
  BLE data whitening, \<open>src/ll/whiten.rs\<close>: a seven-bit shift register seeded from the channel
  whose output is XORed onto the packet. The lemmas show that the code is an XOR with a
  keystream that depends on the channel alone.
\<close>

definition whitening_init :: "u8 \<Rightarrow> u8" where
  "whitening_init channel = 0x40 OR (channel AND 0x3F)"

text \<open>One round of the inner loop: bit \<open>i\<close> of \<open>byte\<close>, with the accumulated output and the
  register.\<close>

definition whiten_bit :: "u8 \<Rightarrow> nat \<Rightarrow> u8 \<times> u16 \<Rightarrow> u8 \<times> u16" where
  "whiten_bit byte i = (\<lambda>(out, lfsr).
     let data_bit = drop_bit i byte AND 1;
         key_bit = ucast (drop_bit 6 lfsr) AND 1;
         feedback = (drop_bit 6 lfsr XOR drop_bit 3 lfsr) AND 1
     in (out OR push_bit i (data_bit XOR key_bit), (push_bit 1 lfsr OR feedback) AND 0x7F))"

definition whiten_byte :: "u16 \<Rightarrow> u8 \<Rightarrow> u8 \<times> u16" where
  "whiten_byte lfsr byte = fold (whiten_bit byte) [0..<8] (0, lfsr)"

fun whiten_loop :: "u16 \<Rightarrow> bytes \<Rightarrow> bytes" where
  "whiten_loop lfsr [] = []"
| "whiten_loop lfsr (b # bs) = (let (out, lfsr') = whiten_byte lfsr b in out # whiten_loop lfsr' bs)"

definition whiten :: "bytes \<Rightarrow> u8 \<Rightarrow> bytes" where
  "whiten buf channel = whiten_loop (ucast (whitening_init channel)) buf"

text \<open>The specification: the register step, the key byte of a register state and the
  keystream.\<close>

definition lfsr_step :: "u16 \<Rightarrow> u16" where
  "lfsr_step l = take_bit 7 (push_bit 1 l OR of_bool (bit l 6 \<noteq> bit l 3))"

definition key_byte :: "u16 \<Rightarrow> u8" where
  "key_byte l = fst (whiten_byte l 0)"

fun keystream :: "u16 \<Rightarrow> nat \<Rightarrow> bytes" where
  "keystream l 0 = []"
| "keystream l (Suc n) = key_byte l # keystream ((lfsr_step ^^ 8) l) n"

section \<open>The code XORs a keystream\<close>

lemma and_7F: "w AND 0x7F = take_bit 7 w" for w :: u16
  by (simp add: take_bit_eq_mask mask_eq_exp_minus_1)

lemma bit_and_1: "bit (w AND 1) i = (i = 0 \<and> bit w 0)" for w :: "'a::len word"
  by (auto simp: bit_simps bit_1_iff)

lemma whiten_bit_lfsr: "snd (whiten_bit b i s) = lfsr_step (snd s)"
proof -
  have "((drop_bit 6 l XOR drop_bit 3 l) AND 1 :: u16) = of_bool (bit l 6 \<noteq> bit l 3)" for l
    by (rule bit_word_eqI) (auto simp: bit_and_1 bit_simps)
  then show ?thesis
    by (simp add: whiten_bit_def lfsr_step_def and_7F split: prod.split)
qed

lemma bit_whiten_bit:
  "n < 8 \<Longrightarrow> bit (fst (whiten_bit b i s)) n =
     (bit (fst s) n \<or> (n = i \<and> (bit b i \<noteq> bit (snd s) 6)))"
  by (auto simp: whiten_bit_def Let_def bit_simps bit_and_1 split: prod.split)

lemma whiten_bits_lfsr: "snd (fold (whiten_bit b) [0..<n] (x, l)) = (lfsr_step ^^ n) l"
  by (induction n) (simp_all add: whiten_bit_lfsr)

lemma bit_whiten_bits:
  "i < 8 \<Longrightarrow> bit (fst (fold (whiten_bit b) [0..<n] (0, l))) i =
     (i < n \<and> (bit b i \<noteq> bit ((lfsr_step ^^ i) l) 6))"
  by (induction n) (auto simp: bit_whiten_bit whiten_bits_lfsr less_Suc_eq)

lemma bit_key_byte: "bit (key_byte l) i = (i < 8 \<and> bit ((lfsr_step ^^ i) l) 6)"
proof (cases "i < 8")
  case True
  then show ?thesis
    by (simp add: key_byte_def whiten_byte_def bit_whiten_bits)
qed (auto dest: bit_u8D)

lemma whiten_byte_eq: "whiten_byte l b = (b XOR key_byte l, (lfsr_step ^^ 8) l)"
proof (rule prod_eqI)
  show "fst (whiten_byte l b) = fst (b XOR key_byte l, (lfsr_step ^^ 8) l)"
    by (auto simp: whiten_byte_def bit_whiten_bits bit_simps bit_key_byte intro!: bit_word_eqI)
qed (simp add: whiten_byte_def whiten_bits_lfsr del: upt_rec_numeral)

lemma length_keystream [simp]: "length (keystream l n) = n"
  by (induction n arbitrary: l) simp_all

lemma whiten_loop_keystream: "whiten_loop l bs = map2 (XOR) bs (keystream l (length bs))"
  by (induction bs arbitrary: l) (simp_all add: whiten_byte_eq)

lemma length_whiten [simp]: "length (whiten buf ch) = length buf"
  by (simp add: whiten_def whiten_loop_keystream)

lemma map2_xor_cancel: "length xs = length ks \<Longrightarrow> map2 (XOR) (map2 (XOR) xs ks) ks = (xs :: bytes)"
proof (induction xs ks rule: list_induct2)
  case (Cons x xs y ys)
  then show ?case by (simp add: xor.assoc)
qed simp

lemma whiten_whiten: "whiten (whiten buf ch) ch = buf"
  by (simp add: whiten_def whiten_loop_keystream map2_xor_cancel)

text \<open>Whitening distributes over error patterns, so an error on air is the same error on
  the de-whitened packet.\<close>

lemma map2_xor_swap:
  "length xs = length es \<Longrightarrow> length xs = length ks \<Longrightarrow>
   map2 (XOR) (map2 (XOR) xs es) ks = map2 (XOR) (map2 (XOR) xs ks) (es :: bytes)"
proof (induction xs arbitrary: es ks)
  case (Cons x xs)
  then show ?case by (cases es; cases ks) (simp_all add: ac_simps)
qed simp

lemma whiten_xor:
  "length e = length m \<Longrightarrow> whiten (map2 (XOR) m e) ch = map2 (XOR) (whiten m ch) e"
  by (simp add: whiten_def whiten_loop_keystream map2_xor_swap)

section \<open>Properties\<close>

text \<open>Whitening a buffer twice on the same channel gives the buffer back, for every buffer
  and every channel byte: the receiver's de-whitening inverts the transmitter's whitening.\<close>

lemma whiten_involution: "whiten (whiten buf channel) channel = buf"
  by (rule whiten_whiten)

text \<open>Two channels whose low six bits differ whiten every non-empty buffer to different
  bytes: the first key byte already determines the channel.\<close>

lemma whiten_separates_channels:
  assumes "ch1 AND 0x3F \<noteq> ch2 AND 0x3F" and "buf \<noteq> []"
  shows "whiten buf ch1 \<noteq> whiten buf ch2"
proof -
  let ?l = "\<lambda>ch. ucast (whitening_init ch) :: u16"
  have key: "bit ((lfsr_step ^^ i) l) 6 = bit l (6 - i)" if "i \<le> 6" for i l
  proof -
    have "i \<le> j \<Longrightarrow> j \<le> 6 \<Longrightarrow> bit ((lfsr_step ^^ i) l) j = bit l (j - i)" for j
    proof (induction i arbitrary: j)
      case (Suc i)
      then have "bit (lfsr_step ((lfsr_step ^^ i) l)) j = bit ((lfsr_step ^^ i) l) (j - 1)"
        by (auto simp: lfsr_step_def bit_simps bit_times_2)
      with Suc show ?case by simp
    qed simp
    with that show ?thesis by simp
  qed
  have init: "bit (?l ch) j = bit (ch AND 0x3F) j" if "j < 6" for ch j
  proof -
    from that have "j = 0 \<or> j = 1 \<or> j = 2 \<or> j = 3 \<or> j = 4 \<or> j = 5" by arith
    then show ?thesis
      by (elim disjE) (simp_all add: whitening_init_def bit_simps)
  qed
  have "key_byte (?l ch1) \<noteq> key_byte (?l ch2)"
  proof
    assume eq: "key_byte (?l ch1) = key_byte (?l ch2)"
    have "bit (ch1 AND 0x3F) j = bit (ch2 AND 0x3F) j" for j
    proof (cases "j < 6")
      case True
      have "bit (key_byte (?l ch1)) (6 - j) = bit (key_byte (?l ch2)) (6 - j)"
        by (simp only: eq)
      moreover have "6 - j < 8" "6 - j \<le> 6" "6 - (6 - j) = j" using True by simp_all
      ultimately show ?thesis
        using True by (simp add: bit_key_byte key init)
    next
      case False
      then show ?thesis by (simp add: and_3F bit_simps)
    qed
    with assms(1) show False by (auto intro: bit_word_eqI)
  qed
  then have k: "b XOR key_byte (?l ch1) \<noteq> b XOR key_byte (?l ch2)" for b
    by (simp add: xor_left_cancel)
  from assms(2) obtain b bs where "buf = b # bs" by (cases buf) auto
  with k show ?thesis by (simp add: whiten_def whiten_byte_eq)
qed

end
