(* ===== verification/Sim_Radio.thy ===== *)
theory Sim_Radio
  imports Crc24 Whiten
begin

text \<open>
  The virtual radio of \<open>src/sim.rs\<close>: CRC append and whitening on transmit, de-whitening and
  CRC validation on receive.
\<close>

definition MAX_PACKET_LEN :: nat where "MAX_PACKET_LEN = 255 + 2 + 3"

record packet =
  pk_channel :: u8
  pk_bytes :: bytes
  pk_len :: nat

record rx_packet =
  rxp_pdu :: bytes
  rxp_len :: nat

record virtual_radio =
  vr_channel :: u8

definition virtual_radio_new :: "u8 \<Rightarrow> virtual_radio" where
  "virtual_radio_new channel = \<lparr>vr_channel = channel\<rparr>"

definition transmit :: "virtual_radio \<Rightarrow> bytes \<Rightarrow> error + packet" where
  "transmit radio pdu =
     (if length pdu + 3 > MAX_PACKET_LEN then Inl BufferTooSmall
      else
        let buf = set_prefix (replicate MAX_PACKET_LEN 0) pdu in
        case append_crc pdu (drop (length pdu) buf) of
          Inl e \<Rightarrow> Inl e
        | Inr tail \<Rightarrow>
            let buf = take (length pdu) buf @ tail;
                total = length pdu + 3
            in Inr \<lparr>pk_channel = vr_channel radio,
                    pk_bytes = set_prefix buf (whiten (take total buf) (vr_channel radio)),
                    pk_len = total\<rparr>)"

definition receive :: "virtual_radio \<Rightarrow> packet \<Rightarrow> (error + rx_packet) option" where
  "receive radio packet =
     (if pk_len packet < 3 then Some (Inl InvalidLength)
      else do {
        src \<leftarrow> slice (pk_bytes packet) 0 (pk_len packet);
        buf \<leftarrow> copy_slice (replicate MAX_PACKET_LEN 0) 0 (pk_len packet) src;
        let buf = set_prefix buf (whiten (take (pk_len packet) buf) (vr_channel radio));
        if \<not> check (take (pk_len packet) buf) then Some (Inl CrcMismatch)
        else Some (Inr \<lparr>rxp_pdu = buf, rxp_len = pk_len packet - 3\<rparr>)
      })"

definition loopback :: "bytes \<Rightarrow> u8 \<Rightarrow> (error + rx_packet) option" where
  "loopback pdu channel =
     (let radio = virtual_radio_new channel in
      case transmit radio pdu of
        Inl e \<Rightarrow> Some (Inl e)
      | Inr packet \<Rightarrow> receive radio packet)"

section \<open>What transmit puts on air\<close>

lemma transmit_ok:
  assumes "length pdu + 3 \<le> MAX_PACKET_LEN"
  shows "transmit r pdu = Inr \<lparr>pk_channel = vr_channel r,
      pk_bytes = whiten (pdu @ crc_bytes (crc24 pdu)) (vr_channel r) @
        replicate (MAX_PACKET_LEN - (length pdu + 3)) 0,
      pk_len = length pdu + 3\<rparr>"
proof -
  have l: "length (crc_bytes c) = 3" for c by (simp add: crc_bytes_def)
  from assms have "3 \<le> MAX_PACKET_LEN - length pdu" by simp
  then show ?thesis
    using assms by (simp add: transmit_def append_crc_def set_prefix_def l Let_def)
qed

lemma receive_on_air:
  assumes "3 \<le> length air" and "length air \<le> MAX_PACKET_LEN"
    and "take (length air) (pk_bytes p) = air" and "pk_len p = length air"
    and "length (pk_bytes p) = MAX_PACKET_LEN"
  shows "receive r p =
    (let m = whiten air (vr_channel r) in
     if check m then Some (Inr \<lparr>rxp_pdu = set_prefix (replicate MAX_PACKET_LEN 0) m, rxp_len = length air - 3\<rparr>)
     else Some (Inl CrcMismatch))"
proof -
  have "slice (pk_bytes p) 0 (pk_len p) = Some air"
    using assms by simp
  moreover have "copy_slice (replicate MAX_PACKET_LEN (0::u8)) 0 (pk_len p) air =
      Some (set_prefix (replicate MAX_PACKET_LEN 0) air)"
    using assms by (simp add: set_prefix_def)
  ultimately show ?thesis
    using assms by (simp add: receive_def set_prefix_def Let_def)
qed

section \<open>Properties\<close>

text \<open>C26. A PDU of any length the packet buffer holds survives the loopback on every channel:
  transmit then receive returns exactly the PDU, and a longer PDU is refused with
  \<open>BufferTooSmall\<close>.\<close>

theorem loopback_roundtrip:
  "loopback pdu channel =
     (if length pdu + 3 \<le> MAX_PACKET_LEN
      then Some (Inr \<lparr>rxp_pdu = set_prefix (replicate MAX_PACKET_LEN 0) (pdu @ crc_bytes (crc24 pdu)),
                      rxp_len = length pdu\<rparr>)
      else Some (Inl BufferTooSmall))"
proof (cases "length pdu + 3 \<le> MAX_PACKET_LEN")
  case True
  let ?r = "virtual_radio_new channel"
  let ?air = "whiten (pdu @ crc_bytes (crc24 pdu)) channel"
  have len: "length ?air = length pdu + 3" by (simp add: crc_bytes_def)
  have ch: "vr_channel ?r = channel" by (simp add: virtual_radio_new_def)
  have "receive ?r p = Some (Inr \<lparr>rxp_pdu = set_prefix (replicate MAX_PACKET_LEN 0) (pdu @ crc_bytes (crc24 pdu)),
      rxp_len = length pdu\<rparr>)"
    if "transmit ?r pdu = Inr p" for p
    using that receive_on_air [of ?air p ?r] True len
    by (auto simp: transmit_ok ch whiten_whiten check_crc_bytes)
  with True show ?thesis
    by (simp add: loopback_def transmit_ok)
next
  case False
  then show ?thesis by (simp add: loopback_def transmit_def)
qed

text \<open>Whitening changes neither where two packets differ nor that they do.\<close>

lemma air_bit_whiten:
  assumes "length a = length b" and "n < 8 * length b"
  shows "air_bit (whiten a ch) n \<noteq> air_bit (whiten b ch) n \<longleftrightarrow> air_bit a n \<noteq> air_bit b n"
proof -
  define e where "e = map2 (XOR) b a"
  have "n div 8 < length b" using assms(2) by linarith
  moreover have "map2 (XOR) b e = a"
    using assms(1) by (auto simp: e_def list_eq_iff_nth_eq simp flip: xor.assoc)
  then have "whiten a ch = map2 (XOR) (whiten b ch) e"
    using whiten_xor [of e b ch] assms(1) by (simp add: e_def)
  ultimately show ?thesis
    using assms(1) by (auto simp: air_bit_def e_def bit_simps)
qed

text \<open>C27. Corruption on the air is noticed: when the bytes of a transmitted packet are changed on the
  air within some window of 24 consecutive bits, aligned to an octet or not, a receiver on the same
  channel reports \<open>CrcMismatch\<close>.\<close>

theorem corrupted_air_is_rejected:
  assumes "transmit (virtual_radio_new ch) pdu = Inr p"
    and "length air = pk_len p" and "air \<noteq> take (pk_len p) (pk_bytes p)"
    and "\<forall>n < 8 * pk_len p. air_bit air n \<noteq> air_bit (pk_bytes p) n \<longrightarrow> k \<le> n \<and> n < k + 24"
  shows "receive (virtual_radio_new ch) (p\<lparr>pk_bytes := set_prefix (pk_bytes p) air\<rparr>) = Some (Inl CrcMismatch)"
proof -
  have fits: "length pdu + 3 \<le> MAX_PACKET_LEN"
    using assms(1) by (auto simp: transmit_def split: if_splits)
  have ch: "vr_channel (virtual_radio_new ch) = ch" by (simp add: virtual_radio_new_def)
  let ?m = "pdu @ crc_bytes (crc24 pdu)"
  let ?pad = "replicate (MAX_PACKET_LEN - (length pdu + 3)) 0"
  have p: "p = \<lparr>pk_channel = ch, pk_bytes = whiten ?m ch @ ?pad, pk_len = length pdu + 3\<rparr>"
    using assms(1) transmit_ok [OF fits, of "virtual_radio_new ch"] by (simp add: ch)
  have m3: "length ?m = length pdu + 3" by (simp add: crc_bytes_def)
  have air: "length air = length ?m" "length air = length (whiten ?m ch)" "air \<noteq> whiten ?m ch"
    using assms(2,3) p m3 by simp_all
  have "\<not> check (whiten air ch)"
  proof (rule check_burst [OF check_crc_bytes])
    show "length (whiten air ch) = length ?m" using air(1) by simp
    show "whiten air ch \<noteq> ?m" using air(3) whiten_whiten [of air ch] by metis
    show "\<forall>n < 8 * length ?m. air_bit (whiten air ch) n \<noteq> air_bit ?m n \<longrightarrow> k \<le> n \<and> n < k + 24"
    proof (intro allI impI)
      fix n assume n: "n < 8 * length ?m" "air_bit (whiten air ch) n \<noteq> air_bit ?m n"
      have "n div 8 < length ?m" using n(1) by linarith
      then have "air_bit (pk_bytes p) n = air_bit (whiten ?m ch) n"
        using p by (simp add: air_bit_def nth_append)
      moreover have "air_bit air n \<noteq> air_bit (whiten ?m ch) n"
        using n air_bit_whiten [OF air(2), of n ch] by (simp add: whiten_whiten)
      ultimately show "k \<le> n \<and> n < k + 24" using assms(4) n(1) m3 p by simp
    qed
  qed
  with receive_on_air [of air "p\<lparr>pk_bytes := set_prefix (pk_bytes p) air\<rparr>" "virtual_radio_new ch"]
  show ?thesis
    using air(1) fits p m3 by (simp add: ch set_prefix_def)
qed

text \<open>The last bit of the first octet and the first of the third are hit.\<close>

theorem corrupted_air_is_rejected_witness:
  "\<exists>p. transmit (virtual_radio_new 39) [0x00, 0x0C, 0x01] = Inr p \<and>
     receive (virtual_radio_new 39) (p\<lparr>pk_bytes := set_prefix (pk_bytes p)
       (map2 (XOR) (take 6 (pk_bytes p)) [0x80, 0, 1, 0, 0, 0])\<rparr>) = Some (Inl CrcMismatch)"
proof -
  let ?e = "[0x80, 0, 1, 0, 0, 0] :: bytes"
  obtain p where p: "transmit (virtual_radio_new 39) [0x00, 0x0C, 0x01] = Inr p" "pk_len p = 6" "6 \<le> length (pk_bytes p)"
    by (simp add: transmit_ok MAX_PACKET_LEN_def)
  let ?a = "take 6 (pk_bytes p)"
  have len: "length ?a = 6" using p(3) by simp
  have bits: "air_bit (map2 (XOR) ?a ?e) n \<noteq> air_bit (pk_bytes p) n \<longleftrightarrow> air_bit ?e n" if "n < 48" for n
  proof -
    have "n div 8 < 6" using that by linarith
    then show ?thesis using len by (auto simp: air_bit_def bit_simps)
  qed
  have "list_all (\<lambda>n. air_bit ?e n \<longrightarrow> 7 \<le> n \<and> n < 31) [0..<48]" by code_simp
  then have "\<forall>n < 48. air_bit ?e n \<longrightarrow> 7 \<le> n \<and> n < 7 + 24" unfolding list_all_iff set_upt by simp
  then have "\<forall>n < 8 * pk_len p. air_bit (map2 (XOR) ?a ?e) n \<noteq> air_bit (pk_bytes p) n \<longrightarrow> 7 \<le> n \<and> n < 7 + 24"
    using bits p(2) by simp
  moreover have "air_bit ?e 7" by code_simp
  then have "air_bit (map2 (XOR) ?a ?e) 7 \<noteq> air_bit ?a 7" using bits [of 7] p(3) by (simp add: air_bit_def)
  then have "map2 (XOR) ?a ?e \<noteq> ?a" by metis
  ultimately show ?thesis
    using corrupted_air_is_rejected [OF p(1), of "map2 (XOR) ?a ?e" 7] p(1,2) len by auto
qed

end
