(* ===== verification/Channels.thy ===== *)
theory Channels
  imports Ble_Prelude
begin

text \<open>
  Physical channels, \<open>src/ll/channels.rs\<close>, and the hop selection \<open>next_channel\<close> of
  \<open>src/hw/conn.rs\<close>. Byte additions are the wrapping additions of the release profile; on the
  channels and hop increments the link layer produces they do not wrap.
\<close>

definition ADV_ACCESS_ADDRESS :: u32 where "ADV_ACCESS_ADDRESS = 0x8E89BED6"
definition ADV_CHANNELS :: bytes where "ADV_CHANNELS = [37, 38, 39]"
definition HOP_INCREMENTS :: bytes where
  "HOP_INCREMENTS = [5, 11, 19, 17, 9, 15, 6, 8, 13, 7, 10, 14, 12, 18, 3, 16, 4, 0, 1, 2]"

definition channel_frequency :: "u8 \<Rightarrow> error + u16" where
  "channel_frequency channel =
     (if channel \<le> 36 then Inr (2404 + 2 * ucast channel)
      else if channel = 37 then Inr 2402
      else if channel = 38 then Inr 2426
      else if channel = 39 then Inr 2480
      else Inl InvalidChannel)"

definition next_data_channel :: "u8 \<Rightarrow> u8 \<Rightarrow> u8" where
  "next_data_channel current hop = (current + hop) mod 37"

definition preamble_for_access_address :: "u32 \<Rightarrow> u8" where
  "preamble_for_access_address aa = (if aa AND 1 = 0 then 0x55 else 0xAA)"

definition access_address_to_base_prefix :: "u32 \<Rightarrow> u32 \<times> u8" where
  "access_address_to_base_prefix aa = (push_bit 8 (aa AND 0x00FFFFFF), ucast (drop_bit 24 aa))"

text \<open>\<open>next_channel\<close>: hop, then step to the first channel of the map, at most 37 times. The
  channel map is the five-byte array of the connection, so the byte index is at most 4.\<close>

definition channel_used :: "bytes \<Rightarrow> u8 \<Rightarrow> bool" where
  "channel_used cmap ch = ((cmap ! (unat ch div 8)) AND push_bit (unat (ch mod 8)) 1 \<noteq> 0)"

fun next_channel_loop :: "nat \<Rightarrow> bytes \<Rightarrow> u8 \<Rightarrow> u8" where
  "next_channel_loop 0 cmap ch = ch"
| "next_channel_loop (Suc guard) cmap ch =
     (if \<not> channel_used cmap ch then next_channel_loop guard cmap ((ch + 1) mod 37) else ch)"

definition next_channel :: "u8 \<Rightarrow> u8 \<Rightarrow> bytes \<Rightarrow> u8" where
  "next_channel current hop cmap = next_channel_loop 37 cmap ((current + hop) mod 37)"

section \<open>Arithmetic of channel indices\<close>

lemma unat_mod37: "unat (w mod 37 :: u8) = unat w mod 37"
  by (simp add: unat_mod)

lemma unat_mod37_less: "unat (w mod 37 :: u8) < 37"
  by (simp add: unat_mod37)

lemma unat_add_u8: "unat a + unat b < 256 \<Longrightarrow> unat (a + b) = unat a + unat b" for a b :: u8
  by (simp add: unat_word_ariths)

lemma unat_hop:
  assumes "unat a + unat b < 256"
  shows "unat ((a + b) mod 37 :: u8) = (unat a + unat b) mod 37"
  using assms by (simp add: unat_mod37 unat_add_u8)

lemma unat_succ37: "unat ch < 37 \<Longrightarrow> unat ((ch + 1) mod 37 :: u8) = Suc (unat ch) mod 37"
  using unat_hop [of ch 1] by simp

text \<open>\<open>chan k\<close> is the channel with index \<open>k mod 37\<close>.\<close>

definition chan :: "nat \<Rightarrow> u8" where
  "chan k = of_nat (k mod 37)"

lemma unat_chan [simp]: "unat (chan k) = k mod 37"
proof -
  have "k mod 37 < 37" by simp
  then have "k mod 37 mod 256 = k mod 37" by simp
  then show ?thesis by (simp add: chan_def unat_of_nat)
qed

lemma chan_unat: "unat ch < 37 \<Longrightarrow> chan (unat ch) = ch"
  by (simp add: word_unat_eq_iff)

lemma chan_succ: "(chan k + 1) mod 37 = chan (Suc k)"
  by (simp add: word_unat_eq_iff unat_succ37 mod_Suc_eq)

lemma chan_hop: "unat hop < 219 \<Longrightarrow> (chan k + hop) mod 37 = chan (k + unat hop)"
proof -
  assume h: "unat hop < 219"
  have "k mod 37 < 37" by simp
  with h have "unat (chan k) + unat hop < 256" by simp
  then show ?thesis
    by (simp add: word_unat_eq_iff unat_hop mod_add_left_eq)
qed

lemma next_channel_loop_found:
  "k < n \<Longrightarrow> channel_used cmap (chan (s + k)) \<Longrightarrow>
   \<exists>j\<le>k. next_channel_loop n cmap (chan s) = chan (s + j) \<and> channel_used cmap (chan (s + j)) \<and>
     (\<forall>i<j. \<not> channel_used cmap (chan (s + i)))"
proof (induction n arbitrary: s k)
  case (Suc n)
  show ?case
  proof (cases "channel_used cmap (chan s)")
    case True
    then show ?thesis by (intro exI [of _ 0]) simp
  next
    case False
    with Suc.prems obtain k' where k: "k = Suc k'" by (cases k) auto
    with Suc.prems have "k' < n" "channel_used cmap (chan (Suc s + k'))" by simp_all
    from Suc.IH [OF this] obtain j where j: "j \<le> k'"
      "next_channel_loop n cmap (chan (Suc s)) = chan (Suc s + j)" "channel_used cmap (chan (Suc s + j))"
      "\<forall>i<j. \<not> channel_used cmap (chan (Suc s + i))"
      by blast
    have "\<forall>i<Suc j. \<not> channel_used cmap (chan (s + i))"
      using False j(4) by (auto simp: less_Suc_eq_0_disj)
    with False j k show ?thesis
      by (intro exI [of _ "Suc j"]) (simp add: chan_succ)
  qed
qed simp

lemma next_channel_loop_none:
  "\<forall>i<n. \<not> channel_used cmap (chan (s + i)) \<Longrightarrow> next_channel_loop n cmap (chan s) = chan (s + n)"
proof (induction n arbitrary: s)
  case (Suc n)
  then have "\<not> channel_used cmap (chan s)" and "\<forall>i<n. \<not> channel_used cmap (chan (Suc s + i))"
    by force+
  with Suc.IH [of "Suc s"] show ?case by (simp add: chan_succ)
qed simp

text \<open>The frequency table on indices.\<close>

definition freq_of :: "nat \<Rightarrow> nat" where
  "freq_of k = (if k \<le> 36 then 2404 + 2 * k else if k = 37 then 2402 else if k = 38 then 2426 else 2480)"

lemma freq_of_bound: "freq_of k \<le> 2480"
  by (simp add: freq_of_def)

lemma channel_frequency_nat:
  "unat c < 40 \<Longrightarrow> \<exists>f. channel_frequency c = Inr f \<and> unat f = freq_of (unat c)"
  "\<not> unat c < 40 \<Longrightarrow> channel_frequency c = Inl InvalidChannel"
proof -
  have "unat c \<le> 36 \<Longrightarrow> unat (2404 + 2 * ucast c :: u16) = 2404 + 2 * unat c"
    by (simp add: unat_word_ariths)
  moreover have "c = 37 \<longleftrightarrow> unat c = 37" "c = 38 \<longleftrightarrow> unat c = 38" "c = 39 \<longleftrightarrow> unat c = 39"
    by (simp_all add: word_unat_eq_iff)
  ultimately show "unat c < 40 \<Longrightarrow> \<exists>f. channel_frequency c = Inr f \<and> unat f = freq_of (unat c)"
    "\<not> unat c < 40 \<Longrightarrow> channel_frequency c = Inl InvalidChannel"
    by (auto simp: channel_frequency_def freq_of_def word_le_nat_alt)
qed

lemma coprime_37: "0 < h \<Longrightarrow> h < 37 \<Longrightarrow> coprime (37::nat) h"
proof -
  have "\<forall>h\<in>{1..<37}. coprime (37::nat) h" by code_simp
  then show "0 < h \<Longrightarrow> h < 37 \<Longrightarrow> coprime (37::nat) h" by simp
qed

lemma hop_multiples_inj:
  assumes "h mod 37 \<noteq> 0" and "a < b" and "b \<le> a + 36"
  shows "(s + a * h) mod 37 \<noteq> (s + b * h) mod (37::nat)"
proof
  assume eq: "(s + a * h) mod 37 = (s + b * h) mod 37"
  have "s + a * h \<le> s + b * h" using assms(2) by simp
  with eq have "37 dvd (s + b * h) - (s + a * h)"
    by (metis mod_eq_dvd_iff_nat)
  then have "37 dvd (b - a) * h"
    by (simp add: diff_mult_distrib)
  then have "37 dvd (b - a) * (h mod 37)"
    by (simp only: dvd_eq_mod_eq_0 mod_mult_right_eq)
  moreover have "coprime 37 (h mod 37)"
    using assms(1) by (intro coprime_37) simp_all
  ultimately have "37 dvd b - a"
    by (simp add: coprime_dvd_mult_left_iff)
  then show False
    using assms(2,3) by (auto dest: dvd_imp_le)
qed

lemma hop_multiples_surj:
  assumes "h mod 37 \<noteq> 0" and "c < 37"
  shows "\<exists>n\<in>{1..37}. (s + n * h) mod 37 = (c::nat)"
proof -
  let ?f = "\<lambda>n. (s + n * h) mod 37"
  have "inj_on ?f {1..37}"
  proof (rule inj_onI)
    fix a b :: nat
    assume "a \<in> {1..37}" "b \<in> {1..37}" "?f a = ?f b"
    moreover from this have "b \<le> a + 36" "a \<le> b + 36" by simp_all
    ultimately show "a = b"
      using hop_multiples_inj [OF assms(1), of a b s] hop_multiples_inj [OF assms(1), of b a s]
      by (metis linorder_neqE_nat)
  qed
  then have "card (?f ` {1..37}) = card {..<37::nat}"
    by (simp add: card_image)
  moreover have "?f ` {1..37} \<subseteq> {..<37}" by auto
  ultimately have "?f ` {1..37} = {..<37}"
    by (intro card_subset_eq) simp_all
  with assms(2) have "c \<in> ?f ` {1..37}" by simp
  then show ?thesis by blast
qed

lemma base_prefix_spells:
  "access_address_to_base_prefix aa = (base, prefix) \<Longrightarrow> push_bit 24 (ucast prefix) OR drop_bit 8 base = aa"
proof -
  have "aa AND 0x00FFFFFF = take_bit 24 aa"
    by (simp add: take_bit_eq_mask mask_eq_exp_minus_1)
  moreover have "push_bit 24 (ucast (ucast (drop_bit 24 aa) :: u8)) OR drop_bit 8 (push_bit 8 (take_bit 24 aa)) = aa"
  proof (rule bit_word_eqI)
    fix n
    assume "n < LENGTH(32)"
    then show "bit (push_bit 24 (ucast (ucast (drop_bit 24 aa) :: u8)) OR drop_bit 8 (push_bit 8 (take_bit 24 aa))) n = bit aa n"
      by (cases "n < 24") (auto simp: bit_simps)
  qed
  moreover assume "access_address_to_base_prefix aa = (base, prefix)"
  ultimately show ?thesis by (auto simp: access_address_to_base_prefix_def)
qed

section \<open>Properties\<close>

text \<open>C28. \<open>next_channel\<close> always returns a data channel. When the channel map uses any of the
  37 data channels, the result is a used channel, and it is the first used one at or after
  the hop target in cyclic order.\<close>

theorem next_channel_first_used:
  assumes "unat c < 37" and "channel_used cmap c"
  shows "\<exists>j<37. next_channel current hop cmap = chan (unat (current + hop) + j) \<and>
    channel_used cmap (next_channel current hop cmap) \<and>
    (\<forall>i<j. \<not> channel_used cmap (chan (unat (current + hop) + i)))"
proof -
  let ?s = "unat ((current + hop) mod 37)"
  have s: "chan ?s = (current + hop) mod 37" "?s < 37"
    by (simp_all add: chan_unat unat_mod37_less)
  define k where "k = (unat c + 37 - ?s) mod 37"
  have "(?s + k) mod 37 = (?s + (unat c + 37 - ?s)) mod 37"
    by (simp add: k_def mod_add_right_eq)
  also have "\<dots> = unat c"
    using s(2) assms(1) by simp
  finally have "chan (?s + k) = c"
    by (simp add: word_unat_eq_iff)
  moreover have "k < 37" by (simp add: k_def)
  ultimately obtain j where "j \<le> k" "next_channel_loop 37 cmap (chan ?s) = chan (?s + j)"
    "channel_used cmap (chan (?s + j))" "\<forall>i<j. \<not> channel_used cmap (chan (?s + i))"
    using next_channel_loop_found [of k 37 cmap ?s] assms(2) by auto
  moreover have "chan (?s + i) = chan (unat (current + hop) + i)" for i
    by (simp add: word_unat_eq_iff unat_mod37 mod_add_left_eq)
  ultimately show ?thesis
    using \<open>k < 37\<close> s(1) by (intro exI [of _ j]) (auto simp: next_channel_def)
qed

theorem next_channel_first_used_witness:
  "channel_used [0xFC, 0xFF, 0xFF, 0xFF, 0x1F] (next_channel 0 1 [0xFC, 0xFF, 0xFF, 0xFF, 0x1F])"
proof -
  have "channel_used [0xFC, 0xFF, 0xFF, 0xFF, 0x1F] 2"
    by (simp add: channel_used_def)
  from next_channel_first_used [OF _ this] show ?thesis by auto
qed

text \<open>C29. With every channel in use the hop sequence of a connection is a permutation: for
  any start channel and any hop increment that is not a multiple of 37, the first 37 hops
  visit every data channel.\<close>

theorem full_map_hop_visits_all:
  assumes "\<forall>k. channel_used cmap (chan k)" and "unat hop < 219" and "unat hop mod 37 \<noteq> 0"
    and "unat c < 37"
  shows "c \<in> (\<lambda>n. ((\<lambda>ch. next_channel ch hop cmap) ^^ n) (chan s)) ` {1..37}"
proof -
  have used: "next_channel_loop (Suc n) cmap (chan k) = chan k" for n k
    using assms(1) by simp
  have step: "next_channel (chan k) hop cmap = chan (k + unat hop)" for k
    using used [of 36] assms(2) by (simp add: next_channel_def chan_hop)
  have iter: "((\<lambda>ch. next_channel ch hop cmap) ^^ n) (chan s) = chan (s + n * unat hop)" for n
    by (induction n) (simp_all add: step algebra_simps)
  obtain n where "n \<in> {1..37}" "(s + n * unat hop) mod 37 = unat c"
    using hop_multiples_surj [OF assms(3,4)] by blast
  then have "chan (s + n * unat hop) = c"
    by (simp add: word_unat_eq_iff)
  with \<open>n \<in> {1..37}\<close> iter [of n] show ?thesis by (intro image_eqI [of _ _ n]) simp_all
qed

theorem full_map_hop_visits_all_witness:
  "(0x24::u8) \<in> (\<lambda>n. ((\<lambda>ch. next_channel ch 13 [0xFF, 0xFF, 0xFF, 0xFF, 0x1F]) ^^ n) (chan 0)) ` {1..37}"
proof (rule full_map_hop_visits_all)
  have "list_all (\<lambda>k. channel_used [0xFF, 0xFF, 0xFF, 0xFF, 0x1F] (chan k)) [0..<37]"
    unfolding channel_used_def chan_def by code_simp
  then have "\<forall>k<37. channel_used [0xFF, 0xFF, 0xFF, 0xFF, 0x1F] (chan k)"
    by (simp only: list_all_iff set_upt atLeast0LessThan lessThan_iff ball_simps Ball_def)
  moreover have "chan k = chan (k mod 37)" for k
    by (simp add: chan_def)
  ultimately show "\<forall>k. channel_used [0xFF, 0xFF, 0xFF, 0xFF, 0x1F] (chan k)"
    by (metis mod_less_divisor zero_less_numeral)
qed simp_all

text \<open>C30. \<open>channel_frequency\<close> succeeds exactly on the channels 0 to 39, with an even
  frequency between 2402 and 2480 MHz, and two different channels share a frequency in one
  case only: data channel 11 is placed on the frequency of advertising channel 38.\<close>

theorem channel_frequency_injective_but_11_38:
  "(\<exists>f. channel_frequency c = Inr f) = (c < 40) \<and>
   (\<forall>f. channel_frequency c = Inr f \<longrightarrow> even (unat f) \<and> 2402 \<le> unat f \<and> unat f \<le> 2480) \<and>
   (c < 40 \<longrightarrow> d < 40 \<longrightarrow> c \<noteq> d \<longrightarrow>
     (channel_frequency c = channel_frequency d) = ({c, d} = {11, 38}))"
proof (intro conjI allI impI)
  show "(\<exists>f. channel_frequency c = Inr f) = (c < 40)"
    using channel_frequency_nat [of c] by (cases "unat c < 40") (auto simp: word_less_nat_alt)
  show "even (unat f)" "2402 \<le> unat f" "unat f \<le> 2480" if "channel_frequency c = Inr f" for f
    using that channel_frequency_nat [of c]
    by (cases "unat c < 40"; auto simp: freq_of_def split: if_splits)+
  assume "c < 40" "d < 40" "c \<noteq> d"
  then have cd: "unat c < 40" "unat d < 40" "unat c \<noteq> unat d"
    by (simp_all add: word_less_nat_alt word_unat_eq_iff)
  have "(channel_frequency c = channel_frequency d) = (freq_of (unat c) = freq_of (unat d))"
    using channel_frequency_nat(1) [OF cd(1)] channel_frequency_nat(1) [OF cd(2)]
    by (auto simp: word_unat_eq_iff)
  also have "\<dots> = ({unat c, unat d} = {11, 38})"
    using cd by (auto simp: freq_of_def doubleton_eq_iff split: if_splits)
  also have "\<dots> = ({c, d} = {11, 38})"
    by (simp add: doubleton_eq_iff word_unat_eq_iff)
  finally show "(channel_frequency c = channel_frequency d) = ({c, d} = {11, 38})" .
qed

theorem channel_frequency_injective_but_11_38_witness:
  "channel_frequency 11 = channel_frequency 38 \<and> channel_frequency 11 = Inr 2426"
  using channel_frequency_injective_but_11_38 [of 11 38] by (simp add: channel_frequency_def)

end
