(* ===== verification/Timers.thy ===== *)
theory Timers
  imports Ble_Prelude
begin

text \<open>
  The interval arithmetic of \<open>src/hw/timers.rs\<close> and the periodic-sync clock of
  \<open>src/hw/ble.rs\<close>: conversion of BLE time units to 32 us timer ticks with a fractional
  accumulator. All values are the 32-bit words of the source.
\<close>

definition TICKS_PER_UNIT :: u32 where "TICKS_PER_UNIT = 625"
definition TICKS_PER_UNIT_DENOM :: u32 where "TICKS_PER_UNIT_DENOM = 32"

record interval_accum =
  ia_whole :: u32
  ia_frac_part :: u32
  ia_frac :: u32

definition accum_new :: interval_accum where
  "accum_new = \<lparr>ia_whole = TICKS_PER_UNIT div TICKS_PER_UNIT_DENOM,
                ia_frac_part = TICKS_PER_UNIT mod TICKS_PER_UNIT_DENOM, ia_frac = 0\<rparr>"

definition accum_new_125ms :: interval_accum where
  "accum_new_125ms = \<lparr>ia_whole = 39, ia_frac_part = 2, ia_frac = 0\<rparr>"

definition accum_next :: "interval_accum \<Rightarrow> u16 \<Rightarrow> u32 \<times> interval_accum" where
  "accum_next a units =
     (let base = ucast units * ia_whole a;
          frac = ia_frac a + ucast units * ia_frac_part a;
          carry = frac div TICKS_PER_UNIT_DENOM
      in (base + carry, a\<lparr>ia_frac := frac mod TICKS_PER_UNIT_DENOM\<rparr>))"

text \<open>\<open>u32::div_ceil\<close>.\<close>

definition div_ceil :: "u32 \<Rightarrow> u32 \<Rightarrow> u32" where
  "div_ceil a b = (if a mod b > 0 then a div b + 1 else a div b)"

definition window_ticks :: "u16 \<Rightarrow> u32" where
  "window_ticks units = div_ceil (ucast units * TICKS_PER_UNIT) TICKS_PER_UNIT_DENOM"

definition timeout_ticks :: "u32 \<Rightarrow> u32" where
  "timeout_ticks micros = div_ceil micros 32"

record periodic_sync =
  ps_channel :: u8
  ps_units :: u16
  ps_frac :: u32
  ps_next_event :: u32

definition next_interval :: "periodic_sync \<Rightarrow> u32 \<times> periodic_sync" where
  "next_interval s =
     (let base = ucast (ps_units s) * 39;
          frac = ps_frac s + ucast (ps_units s) * 2;
          carry = frac div 32
      in (base + carry, s\<lparr>ps_frac := frac mod 32\<rparr>))"

text \<open>A schedule: the ticks of a sequence of intervals, in order.\<close>

fun accum_run :: "interval_accum \<Rightarrow> u16 list \<Rightarrow> u32 list \<times> interval_accum" where
  "accum_run a [] = ([], a)"
| "accum_run a (u # us) =
     (let (t, a') = accum_next a u; (ts, a'') = accum_run a' us in (t # ts, a''))"

fun sync_run :: "periodic_sync \<Rightarrow> nat \<Rightarrow> u32 list \<times> periodic_sync" where
  "sync_run s 0 = ([], s)"
| "sync_run s (Suc n) =
     (let (t, s') = next_interval s; (ts, s'') = sync_run s' n in (t # ts, s''))"

section \<open>No overflow, no drift\<close>

text \<open>The invariant of the accumulator: the constants are small and the fraction is reduced.\<close>

definition accum_ok :: "interval_accum \<Rightarrow> bool" where
  "accum_ok a \<longleftrightarrow> ia_whole a \<le> 39 \<and> ia_frac_part a < 32 \<and> ia_frac a < 32"

definition rate :: "interval_accum \<Rightarrow> nat" where
  "rate a = 32 * unat (ia_whole a) + unat (ia_frac_part a)"

lemma accum_ok_new: "accum_ok accum_new" "accum_ok accum_new_125ms"
  by (simp_all add: accum_ok_def accum_new_def accum_new_125ms_def TICKS_PER_UNIT_def TICKS_PER_UNIT_DENOM_def)

lemma rate_new: "rate accum_new = 625" "rate accum_new_125ms = 1250"
  by (simp_all add: rate_def accum_new_def accum_new_125ms_def TICKS_PER_UNIT_def TICKS_PER_UNIT_DENOM_def
      unat_div unat_mod)

lemma unat_add_u32: "unat a + unat b < 4294967296 \<Longrightarrow> unat (a + b) = unat a + unat b" for a b :: u32
  by (simp add: unat_word_ariths)

lemma unat_mult_u32: "unat a * unat b < 4294967296 \<Longrightarrow> unat (a * b) = unat a * unat b" for a b :: u32
  by (simp add: unat_word_ariths)

lemma unat_units_mult:
  assumes "unat k \<le> 39"
  shows "unat (ucast (u :: u16) * k :: u32) = unat u * unat k"
proof (rule trans [OF unat_mult_u32])
  have "unat u * unat k \<le> 65535 * 39"
    using assms unat_u16_less [of u] by (intro mult_le_mono) simp_all
  then show "unat (ucast u :: u32) * unat k < 4294967296" by simp
qed simp

text \<open>One interval, exactly: whole ticks and fraction account for every 1/32 tick.\<close>

lemma accum_next_exact:
  assumes ok: "accum_ok a" and nx: "accum_next a u = (t, a')"
  shows "accum_ok a'" "rate a' = rate a"
    "32 * unat t + unat (ia_frac a') = rate a * unat u + unat (ia_frac a)"
proof -
  have w: "unat (ia_whole a) \<le> 39" and p: "unat (ia_frac_part a) < 32" and f: "unat (ia_frac a) < 32"
    using ok by (simp_all add: accum_ok_def word_le_nat_alt word_less_nat_alt)
  let ?base = "ucast u * ia_whole a" and ?inc = "ucast u * ia_frac_part a"
  have b: "unat ?base = unat u * unat (ia_whole a)"
    by (rule unat_units_mult [OF w])
  have i: "unat ?inc = unat u * unat (ia_frac_part a)"
    using p by (intro unat_units_mult) simp
  have ub: "unat ?base \<le> 65535 * 39" "unat ?inc \<le> 65535 * 31"
    unfolding b i using w p unat_u16_less [of u] by (intro mult_le_mono; simp)+
  have fr: "unat (ia_frac a + ?inc) = unat (ia_frac a) + unat ?inc"
    using f ub(2) by (intro unat_add_u32) simp
  have t: "t = ?base + (ia_frac a + ?inc) div 32"
    and a': "a' = a\<lparr>ia_frac := (ia_frac a + ?inc) mod 32\<rparr>"
    using nx by (simp_all add: accum_next_def Let_def TICKS_PER_UNIT_DENOM_def)
  have "unat ((ia_frac a + ?inc) div 32) = (unat (ia_frac a) + unat ?inc) div 32"
    by (simp add: unat_div fr)
  moreover have "(unat (ia_frac a) + unat ?inc) div 32 \<le> 65535 * 31"
    using f ub(2) by simp
  ultimately have ut: "unat t = unat ?base + (unat (ia_frac a) + unat ?inc) div 32"
    unfolding t using ub(1) by (subst unat_add_u32) simp_all
  have uf: "unat (ia_frac a') = (unat (ia_frac a) + unat ?inc) mod 32"
    unfolding a' by (simp add: unat_mod fr)
  show "accum_ok a'"
    using ok uf unfolding a' accum_ok_def by (simp add: word_less_nat_alt)
  show "rate a' = rate a"
    unfolding a' by (simp add: rate_def)
  have "32 * unat t + unat (ia_frac a') = 32 * unat ?base + (unat (ia_frac a) + unat ?inc)"
    unfolding ut uf by simp
  also have "\<dots> = rate a * unat u + unat (ia_frac a)"
    unfolding b i rate_def by (simp add: algebra_simps)
  finally show "32 * unat t + unat (ia_frac a') = rate a * unat u + unat (ia_frac a)" .
qed

lemma accum_run_exact:
  "accum_ok a \<Longrightarrow> accum_run a us = (ts, a') \<Longrightarrow>
   accum_ok a' \<and> 32 * sum_list (map unat ts) + unat (ia_frac a') =
     rate a * sum_list (map unat us) + unat (ia_frac a)"
proof (induction us arbitrary: a ts)
  case (Cons u us)
  obtain t b where n: "accum_next a u = (t, b)" by fastforce
  obtain ts' where r: "accum_run b us = (ts', a')" and ts: "ts = t # ts'"
    using Cons.prems(2) n by (auto split: prod.splits)
  note step = accum_next_exact [OF Cons.prems(1) n]
  from Cons.IH [OF step(1) r] step ts show ?case
    by (simp add: algebra_simps)
qed simp

lemma accum_run_total:
  assumes "accum_ok a" "ia_frac a = 0" "accum_run a us = (ts, a')"
  shows "sum_list (map unat ts) = rate a * sum_list (map unat us) div 32"
proof -
  from accum_run_exact [OF assms(1,3)] assms(2)
  have "32 * sum_list (map unat ts) + unat (ia_frac a') = rate a * sum_list (map unat us)"
    and "accum_ok a'" by auto
  moreover from this(2) have "unat (ia_frac a') < 32"
    by (simp add: accum_ok_def word_less_nat_alt)
  ultimately show ?thesis by linarith
qed

lemma next_interval_accum:
  "next_interval s = (let (t, a) = accum_next \<lparr>ia_whole = 39, ia_frac_part = 2, ia_frac = ps_frac s\<rparr> (ps_units s)
     in (t, s\<lparr>ps_frac := ia_frac a\<rparr>))"
  by (simp add: next_interval_def accum_next_def Let_def TICKS_PER_UNIT_DENOM_def)

lemma sync_run_accum:
  "fst (sync_run s n) =
   fst (accum_run \<lparr>ia_whole = 39, ia_frac_part = 2, ia_frac = ps_frac s\<rparr> (replicate n (ps_units s)))"
proof (induction n arbitrary: s)
  case (Suc n)
  show ?case
    using Suc [of "snd (next_interval s)"]
    by (auto simp: next_interval_def accum_next_def Let_def TICKS_PER_UNIT_DENOM_def split: prod.splits)
qed simp

lemma div_ceil_32_nat: "(x + 31) div 32 = (if 0 < x mod 32 then x div 32 + 1 else x div 32)" for x :: nat
proof -
  define q r where "q = x div 32" and "r = x mod 32"
  have "x = 32 * q + r" "r < 32" by (simp_all add: q_def r_def)
  then have "(x + 31) div 32 = q + (r + 31) div 32" by simp
  moreover have "(r + 31) div 32 = (if 0 < r then 1 else 0)"
    using \<open>r < 32\<close> by (cases "r = 0") (simp_all add: div_if)
  ultimately show ?thesis by (simp add: q_def r_def)
qed

lemma unat_div_ceil_32: "unat (div_ceil a 32) = (unat a + 31) div 32"
proof -
  have "unat (a div 32) = unat a div 32" "unat (a mod 32) = unat a mod 32"
    by (simp_all add: unat_div unat_mod)
  moreover have "unat a div 32 < 134217728"
    using unat_u32_less [of a] by (simp add: div_less_iff_less_mult)
  then have "unat (a div 32 + 1) = unat a div 32 + 1"
    by (subst unat_add_u32) (simp_all add: unat_div)
  ultimately show ?thesis
    unfolding div_ceil_32_nat by (simp add: div_ceil_def word_less_nat_alt)
qed

section \<open>Properties\<close>

text \<open>C31. Advertising and scan schedules never drift: for any sequence of 0.625 ms
  intervals, the ticks handed out add up to the exact total duration in 32 us ticks, rounded
  down once, and no intermediate 32-bit operation overflows.\<close>

theorem interval_schedule_drift_free:
  assumes "accum_run accum_new us = (ts, a)"
  shows "sum_list (map unat ts) = 625 * sum_list (map unat us) div 32"
proof -
  have "ia_frac accum_new = 0" by (simp add: accum_new_def)
  from accum_run_total [OF accum_ok_new(1) this assms] show ?thesis by (simp only: rate_new)
qed

theorem interval_schedule_drift_free_witness:
  "sum_list (map unat (fst (accum_run accum_new [33, 33, 33]))) = 1933"
proof -
  obtain ts a where r: "accum_run accum_new [33, 33, 33] = (ts, a)" by fastforce
  from interval_schedule_drift_free [OF r] show ?thesis unfolding r by simp
qed

text \<open>Connection schedules (1.25 ms units) are drift free in the same sense, and the
  periodic-advertising clock of a synchronised scanner hands out exactly the ticks of such a
  schedule, so the two never diverge.\<close>

lemma connection_and_sync_schedules_agree:
  assumes "ps_frac s = 0"
  shows "fst (sync_run s n) = fst (accum_run accum_new_125ms (replicate n (ps_units s))) \<and>
    sum_list (map unat (fst (sync_run s n))) = 1250 * (n * unat (ps_units s)) div 32"
proof -
  obtain ts a where r: "accum_run accum_new_125ms (replicate n (ps_units s)) = (ts, a)" by fastforce
  have eq: "fst (sync_run s n) = fst (accum_run accum_new_125ms (replicate n (ps_units s)))"
    using sync_run_accum [of s n] assms by (simp add: accum_new_125ms_def)
  have "ia_frac accum_new_125ms = 0" by (simp add: accum_new_125ms_def)
  from accum_run_total [OF accum_ok_new(2) this r] show ?thesis
    using eq r by (simp add: rate_new sum_list_replicate)
qed

text \<open>Scan windows and microsecond timeouts are rounded up to the next tick: the result
  is the least tick count that covers the duration, and it fits the 24-bit timer for every
  scan window.\<close>

lemma tick_conversions_round_up:
  "32 * unat (window_ticks u) \<ge> 625 * unat u \<and> 32 * unat (window_ticks u) < 625 * unat u + 32 \<and>
   unat (window_ticks u) < 2 ^ 24 \<and>
   32 * unat (timeout_ticks m) \<ge> unat m \<and> 32 * unat (timeout_ticks m) < unat m + 32"
proof -
  have "unat u * 625 \<le> 65535 * 625"
    using unat_u16_less [of u] by (intro mult_le_mono) simp_all
  then have m: "unat (ucast u * 625 :: u32) = unat u * 625"
    by (subst unat_mult_u32) simp_all
  have "unat (window_ticks u) = (unat u * 625 + 31) div 32"
    unfolding window_ticks_def TICKS_PER_UNIT_def TICKS_PER_UNIT_DENOM_def unat_div_ceil_32 m ..
  moreover have "unat (timeout_ticks m) = (unat m + 31) div 32"
    by (simp add: timeout_ticks_def unat_div_ceil_32)
  moreover have "unat u < 65536" by (rule unat_u16_less)
  ultimately show ?thesis by simp linarith
qed

end
