(* ===== verification/Peripherals.thy ===== *)
theory Peripherals
  imports Channels Timers Crc24 Whiten
begin

text \<open>
  The drivers of the peripherals: RADIO (\<^verbatim>\<open>src/hw/radio.rs\<close>), TIMER0 (\<open>BtTimer\<close> in
  \<^verbatim>\<open>src/hw/timers.rs\<close>) and CCM (\<^verbatim>\<open>src/hw/ccm.rs\<close>). The configuration registers a driver
  writes are fields of a record. What a driver reads is a script: for each event register, for
  the timer capture and for the DMA the values that successive reads return. A busy-wait whose
  script ends without the event has not returned; that, a panic, and a DMA write beyond the
  receive buffer are \<open>None\<close>. Clearing an event register changes nothing a later read of the
  script returns. The packets that go on air are logged with the registers in force.
\<close>

section \<open>Registers, readings and the log\<close>

datatype tx_power = Neg40Dbm | Neg30Dbm | Neg20Dbm | Neg16Dbm | Neg12Dbm | Neg8Dbm | Neg4Dbm | ZeroDbm
  | Pos3Dbm | Pos4Dbm | Pos2Dbm | Pos5Dbm | Pos6Dbm | Pos7Dbm | Pos8Dbm

datatype phy = Ble1Mbit | Ble2Mbit | BleCodedS8 | BleCodedS2

datatype radio_mode = ble_1mbit | ble_2mbit | ble_lr125kbit | ble_lr500kbit

datatype preamble_len = plen_8bit | plen_16bit | plen_long_range

record radio_regs =
  rg_mode :: radio_mode
  rg_lflen :: u8
  rg_s0len :: bool
  rg_s1len :: u8
  rg_s1incl_auto :: bool
  rg_plen :: preamble_len
  rg_maxlen :: u8
  rg_balen :: u8
  rg_statlen :: u8
  rg_little_endian :: bool
  rg_whiteen :: bool
  rg_crclen :: nat
  rg_crcskipaddr :: bool
  rg_crcinit :: u32
  rg_crcpoly :: u32
  rg_base0 :: u32
  rg_prefix0 :: u8
  rg_txaddress :: u8
  rg_rxaddr0 :: bool
  rg_frequency :: u8
  rg_datawhiteiv :: u8
  rg_txpower :: tx_power

record timer_regs =
  tg_prescaler :: u8
  tg_24bit :: bool
  tg_started :: bool
  tg_cc0 :: u32

datatype radio_task = TXEN | RXEN | START | DISABLE

datatype flag = READY | END | DISABLED | CRCERROR | COMPARE0 | ENDKSGEN | ENDCRYPT

record world =
  w_radio :: radio_regs
  w_timer :: timer_regs
  w_tasks :: "radio_task list"
  w_air :: "(radio_regs \<times> bytes) list"
  w_flag :: "flag \<Rightarrow> u32 list"
  w_now :: "u32 list"
  w_dma :: "bytes list"
  w_rssi :: "u8 list"

definition read_flag :: "flag \<Rightarrow> world \<Rightarrow> (u32 \<times> world) option" where
  "read_flag f w =
     (case w_flag w f of [] \<Rightarrow> None | x # xs \<Rightarrow> Some (x, w\<lparr>w_flag := (w_flag w)(f := xs)\<rparr>))"

text \<open>The busy-wait \<open>while r.events_f.read().bits() == 0 {}\<close>.\<close>

fun wait_list :: "u32 list \<Rightarrow> u32 list option" where
  "wait_list [] = None"
| "wait_list (x # xs) = (if x = 0 then wait_list xs else Some xs)"

definition wait :: "flag \<Rightarrow> world \<Rightarrow> world option" where
  "wait f w = map_option (\<lambda>xs. w\<lparr>w_flag := (w_flag w)(f := xs)\<rparr>) (wait_list (w_flag w f))"

definition task :: "radio_task \<Rightarrow> world \<Rightarrow> world" where
  "task t w = w\<lparr>w_tasks := w_tasks w @ [t]\<rparr>"

definition set_radio :: "(radio_regs \<Rightarrow> radio_regs) \<Rightarrow> world \<Rightarrow> world" where
  "set_radio f w = w\<lparr>w_radio := f (w_radio w)\<rparr>"

section \<open>RADIO\<close>

definition set_phy :: "phy \<Rightarrow> world \<Rightarrow> world" where
  "set_phy p = set_radio (\<lambda>r.
     case p of
       Ble1Mbit \<Rightarrow> r\<lparr>rg_mode := ble_1mbit, rg_s1len := 0, rg_plen := plen_8bit\<rparr>
     | Ble2Mbit \<Rightarrow> r\<lparr>rg_mode := ble_2mbit, rg_s1len := 8, rg_plen := plen_16bit\<rparr>
     | BleCodedS8 \<Rightarrow> r\<lparr>rg_mode := ble_lr125kbit, rg_s1len := 8, rg_plen := plen_long_range\<rparr>
     | BleCodedS2 \<Rightarrow> r\<lparr>rg_mode := ble_lr500kbit, rg_s1len := 8, rg_plen := plen_long_range\<rparr>)"

definition set_access_address :: "u32 \<Rightarrow> world \<Rightarrow> world" where
  "set_access_address aa =
     (let (base, prefix) = access_address_to_base_prefix aa in
      set_radio (\<lambda>r. r\<lparr>rg_base0 := base, rg_prefix0 := prefix, rg_txaddress := 0, rg_rxaddr0 := True\<rparr>))"

definition set_channel :: "u8 \<Rightarrow> world \<Rightarrow> (error + unit) \<times> world" where
  "set_channel channel w =
     (case channel_frequency channel of
        Inl e \<Rightarrow> (Inl e, w)
      | Inr f \<Rightarrow>
          let freq = f - 2400 in
          (Inr (), set_radio (\<lambda>r. r\<lparr>rg_frequency := ucast freq, rg_datawhiteiv := 0x40 OR (channel AND 0x3F)\<rparr>) w))"

definition set_crc_init :: "u32 \<Rightarrow> world \<Rightarrow> world" where
  "set_crc_init init = set_radio (\<lambda>r. r\<lparr>rg_crcinit := init\<rparr>)"

definition set_tx_power :: "tx_power \<Rightarrow> world \<Rightarrow> world" where
  "set_tx_power p = set_radio (\<lambda>r. r\<lparr>rg_txpower := p\<rparr>)"

definition radio_init :: "world \<Rightarrow> world" where
  "radio_init w =
     (let w = set_radio (\<lambda>r. r\<lparr>rg_mode := ble_1mbit\<rparr>) w;
          w = set_radio (\<lambda>r. r\<lparr>rg_lflen := 8, rg_s0len := True, rg_s1len := 0, rg_s1incl_auto := True,
                                  rg_plen := plen_8bit\<rparr>) w;
          w = set_radio (\<lambda>r. r\<lparr>rg_maxlen := 255, rg_balen := 3, rg_statlen := 0, rg_little_endian := True,
                                  rg_whiteen := True\<rparr>) w;
          w = set_radio (\<lambda>r. r\<lparr>rg_crclen := 3, rg_crcskipaddr := True\<rparr>) w;
          w = set_radio (\<lambda>r. r\<lparr>rg_crcinit := 0x00555555\<rparr>) w;
          w = set_radio (\<lambda>r. r\<lparr>rg_crcpoly := 0x0000065B\<rparr>) w;
          w = set_access_address ADV_ACCESS_ADDRESS w;
          w = set_tx_power ZeroDbm w
      in snd (set_channel (ADV_CHANNELS ! 0) w))"

text \<open>\<open>transmit\<close>: the packet goes on air at START.\<close>

definition radio_transmit :: "bytes \<Rightarrow> world \<Rightarrow> world option" where
  "radio_transmit pdu w = do {
     let w = task TXEN w;
     w \<leftarrow> wait READY w;
     let w = task START w;
     let w = w\<lparr>w_air := w_air w @ [(w_radio w, pdu)]\<rparr>;
     w \<leftarrow> wait END w;
     let w = task DISABLE w;
     wait DISABLED w
   }"

definition receive_start :: "world \<Rightarrow> world option" where
  "receive_start w = do {
     let w = task RXEN w;
     w \<leftarrow> wait READY w;
     Some (task START w)
   }"

text \<open>\<open>receive_poll\<close>: when the END event is there, the DMA has written the packet into the
  buffer that \<open>receive_start\<close> was given, which is returned.\<close>

definition receive_poll :: "bytes \<Rightarrow> world \<Rightarrow> ((error + nat option) \<times> bytes \<times> world) option" where
  "receive_poll buf w = do {
     (e, w) \<leftarrow> read_flag END w;
     if e = 0 then Some (Inr None, buf, w)
     else case w_dma w of
       [] \<Rightarrow> None
     | p # ps \<Rightarrow>
         if length p > length buf then None
         else do {
           let w = w\<lparr>w_dma := ps\<rparr>;
           let buf = set_prefix buf p;
           (x, w) \<leftarrow> read_flag CRCERROR w;
           let crc_ok = (x = 0);
           b1 \<leftarrow> get buf 1;
           let pdu_len = 2 + unat (drop_bit 1 b1 AND 0x3F);
           let w = task DISABLE w;
           w \<leftarrow> wait DISABLED w;
           if \<not> crc_ok then Some (Inl CrcMismatch, buf, w)
           else Some (Inr (Some pdu_len), buf, w)
         }
   }"

definition receive_cancel :: "world \<Rightarrow> world option" where
  "receive_cancel w = do {
     let w = task DISABLE w;
     wait DISABLED w
   }"

definition rssi :: "world \<Rightarrow> (u8 \<times> world) option" where
  "rssi w = (case w_rssi w of [] \<Rightarrow> None | x # xs \<Rightarrow> Some (x, w\<lparr>w_rssi := xs\<rparr>))"

section \<open>TIMER0\<close>

definition timer_init :: "world \<Rightarrow> world" where
  "timer_init w =
     w\<lparr>w_timer := (w_timer w)\<lparr>tg_prescaler := 9, tg_24bit := True, tg_started := True\<rparr>\<rparr>"

definition timer_now :: "world \<Rightarrow> (u32 \<times> world) option" where
  "timer_now w = (case w_now w of [] \<Rightarrow> None | t # ts \<Rightarrow> Some (t, w\<lparr>w_now := ts\<rparr>))"

definition set_compare :: "u32 \<Rightarrow> world \<Rightarrow> world" where
  "set_compare v w = w\<lparr>w_timer := (w_timer w)\<lparr>tg_cc0 := v\<rparr>\<rparr>"

definition compare_pending :: "world \<Rightarrow> (bool \<times> world) option" where
  "compare_pending w = map_option (\<lambda>(x, w). (x \<noteq> 0, w)) (read_flag COMPARE0 w)"

section \<open>CCM\<close>

definition LL_NONCE_MASTER_TO_SLAVE :: u8 where "LL_NONCE_MASTER_TO_SLAVE = 0x01"
definition LL_NONCE_SLAVE_TO_MASTER :: u8 where "LL_NONCE_SLAVE_TO_MASTER = 0x00"
definition LL_MIC_LEN :: nat where "LL_MIC_LEN = 4"

record ccm =
  ccm_cfg :: bytes
  ccm_scratch :: bytes

definition ccm_new :: ccm where
  "ccm_new = \<lparr>ccm_cfg = replicate 45 0, ccm_scratch = replicate 32 0\<rparr>"

text \<open>The first five bytes of the packet counter, least significant first.\<close>

definition counter_bytes :: "u64 \<Rightarrow> bytes" where
  "counter_bytes n = map (\<lambda>i. ucast (drop_bit (8 * i) n)) [0..<5]"

definition ccm_setup :: "bytes \<Rightarrow> u64 \<Rightarrow> u8 \<Rightarrow> ccm \<Rightarrow> ccm" where
  "ccm_setup key packet_counter direction m =
     m\<lparr>ccm_cfg := key @ [0x01] @ counter_bytes packet_counter @ [direction] @ replicate 6 0 @ [0, 0] @ replicate 14 0\<rparr>"

text \<open>The engine: whether to decrypt, the configuration block and the packet buffer give the
  buffer afterwards and whether EVENTS_ERROR is set. It is a parameter.\<close>

type_synonym ccm_engine = "bool \<Rightarrow> bytes \<Rightarrow> bytes \<Rightarrow> bytes \<times> bool"

definition ccm_run :: "ccm_engine \<Rightarrow> bool \<Rightarrow> bytes \<Rightarrow> ccm \<Rightarrow> world \<Rightarrow> (bool \<times> bytes \<times> world) option" where
  "ccm_run eng decrypt packet m w = do {
     w \<leftarrow> wait ENDKSGEN w;
     w \<leftarrow> wait ENDCRYPT w;
     let (packet, err) = eng decrypt (ccm_cfg m) packet;
     Some (\<not> err, packet, w)
   }"

definition ccm_process ::
  "ccm_engine \<Rightarrow> bool \<Rightarrow> bytes \<Rightarrow> ccm \<Rightarrow> world \<Rightarrow> (bool \<times> bytes \<times> ccm \<times> world) option" where
  "ccm_process eng decrypt pdu m w = do {
     b0 \<leftarrow> get pdu 0;
     b1 \<leftarrow> get pdu 1;
     let m = m\<lparr>ccm_cfg := take 29 (ccm_cfg m) @ [b0, b1] @ replicate 14 0\<rparr>;
     (ok, pdu, w) \<leftarrow> ccm_run eng decrypt pdu m w;
     Some (ok, pdu, m, w)
   }"

section \<open>What the driver calls change\<close>

lemma wait_SomeD: "wait f w = Some w' \<Longrightarrow> \<exists>xs. w' = w\<lparr>w_flag := (w_flag w)(f := xs)\<rparr>"
  by (auto simp: wait_def)

lemma read_flag_SomeD: "read_flag f w = Some (x, w') \<Longrightarrow> \<exists>xs. w_flag w f = x # xs \<and> w' = w\<lparr>w_flag := (w_flag w)(f := xs)\<rparr>"
  by (auto simp: read_flag_def split: list.splits)

lemma timer_now_SomeD: "timer_now w = Some (t, w') \<Longrightarrow> \<exists>ts. w_now w = t # ts \<and> w' = w\<lparr>w_now := ts\<rparr>"
  by (auto simp: timer_now_def split: list.splits)

text \<open>The tasks the radio accepts: ramp-up from the disabled state, START when ramped up, and
  DISABLE once running or already disabled. \<open>radio_off w\<close>: the driver has only issued such
  tasks, and has disabled the radio.\<close>

datatype radio_state = Off | Ramped | Running

fun radio_accepts :: "radio_state \<Rightarrow> radio_task \<Rightarrow> radio_state option" where
  "radio_accepts Off TXEN = Some Ramped"
| "radio_accepts Off RXEN = Some Ramped"
| "radio_accepts Ramped START = Some Running"
| "radio_accepts Running DISABLE = Some Off"
| "radio_accepts Off DISABLE = Some Off"
| "radio_accepts _ _ = None"

fun radio_after :: "radio_state \<Rightarrow> radio_task list \<Rightarrow> radio_state option" where
  "radio_after s [] = Some s"
| "radio_after s (t # ts) = do { s \<leftarrow> radio_accepts s t; radio_after s ts }"

definition radio_off :: "world \<Rightarrow> bool" where
  "radio_off w \<longleftrightarrow> radio_after Off (w_tasks w) = Some Off"

definition radio_running :: "world \<Rightarrow> bool" where
  "radio_running w \<longleftrightarrow> radio_after Off (w_tasks w) = Some Running"

lemma radio_after_append: "radio_after s (xs @ ys) = do { s \<leftarrow> radio_after s xs; radio_after s ys }"
  by (induction xs arbitrary: s) (auto split: Option.bind_splits)

lemma radio_transmit_effect:
  assumes "radio_transmit p w = Some w'"
  shows "w_radio w' = w_radio w \<and> w_air w' = w_air w @ [(w_radio w, p)] \<and> w_tasks w' = w_tasks w @ [TXEN, START, DISABLE] \<and>
    w_now w' = w_now w \<and> w_dma w' = w_dma w \<and> w_timer w' = w_timer w"
  using assms by (auto simp: radio_transmit_def task_def split: Option.bind_splits dest!: wait_SomeD)

lemma receive_start_effect:
  assumes "receive_start w = Some w'"
  shows "w_radio w' = w_radio w \<and> w_air w' = w_air w \<and> w_tasks w' = w_tasks w @ [RXEN, START] \<and>
    w_now w' = w_now w \<and> w_dma w' = w_dma w \<and> w_timer w' = w_timer w"
  using assms by (auto simp: receive_start_def task_def split: Option.bind_splits dest!: wait_SomeD)

lemma receive_cancel_effect:
  assumes "receive_cancel w = Some w'"
  shows "w_radio w' = w_radio w \<and> w_air w' = w_air w \<and> w_tasks w' = w_tasks w @ [DISABLE] \<and>
    w_now w' = w_now w \<and> w_dma w' = w_dma w \<and> w_timer w' = w_timer w"
  using assms by (auto simp: receive_cancel_def task_def dest!: wait_SomeD)

lemma receive_poll_effect:
  assumes "receive_poll buf w = Some (r, buf', w')"
  shows "w_radio w' = w_radio w \<and> w_air w' = w_air w \<and> w_now w' = w_now w \<and> length buf' = length buf \<and>
    (if r = Inr None then buf' = buf \<and> w_tasks w' = w_tasks w \<and> w_dma w' = w_dma w
     else w_tasks w' = w_tasks w @ [DISABLE] \<and> w_dma w = hd (w_dma w) # w_dma w' \<and>
       buf' = set_prefix buf (hd (w_dma w)) \<and> length (hd (w_dma w)) \<le> length buf \<and>
       (\<forall>n. r = Inr (Some n) \<longrightarrow> n = 2 + unat (drop_bit 1 (buf' ! 1) AND 0x3F)))"
proof -
  obtain e xs where e: "read_flag END w = Some (e, w\<lparr>w_flag := (w_flag w)(END := xs)\<rparr>)"
    using assms by (auto simp: receive_poll_def dest!: read_flag_SomeD split: Option.bind_splits)
  show ?thesis
  proof (cases "e = 0")
    case True
    with e assms show ?thesis by (auto simp: receive_poll_def)
  next
    case False
    obtain p ps where p: "w_dma w = p # ps" "length p \<le> length buf"
      using assms e False by (auto simp: receive_poll_def split: list.splits if_splits)
    let ?w1 = "w\<lparr>w_flag := (w_flag w)(END := xs), w_dma := ps\<rparr>" and ?b = "set_prefix buf p"
    have "read_flag CRCERROR ?w1 \<noteq> None"
      using assms e False p by (auto simp: receive_poll_def Let_def split: Option.bind_splits)
    then obtain x ys where x: "read_flag CRCERROR ?w1 = Some (x, ?w1\<lparr>w_flag := (w_flag ?w1)(CRCERROR := ys)\<rparr>)"
      by (auto simp: read_flag_def split: list.splits)
    let ?w2 = "task DISABLE (?w1\<lparr>w_flag := (w_flag ?w1)(CRCERROR := ys)\<rparr>)"
    have l: "Suc 0 < length buf"
      using assms e False p x by (auto simp: receive_poll_def get_def Let_def split: if_splits)
    obtain w3 where w3: "wait DISABLED ?w2 = Some w3"
      using assms e False p x l by (auto simp: receive_poll_def Let_def split: Option.bind_splits)
    have "receive_poll buf w = Some (if x = 0 then Inr (Some (2 + unat (drop_bit 1 (?b ! 1) AND 0x3F))) else Inl CrcMismatch, ?b, w3)"
      using e False p x l w3 by (simp add: receive_poll_def Let_def)
    with assms wait_SomeD [OF w3] p show ?thesis by (auto simp: task_def split: if_splits)
  qed
qed

lemma radio_off_steps:
  "radio_transmit p w = Some w' \<Longrightarrow> radio_off w \<Longrightarrow> radio_off w'"
  "receive_start w = Some w' \<Longrightarrow> radio_off w \<Longrightarrow> radio_running w'"
  "receive_cancel w = Some w' \<Longrightarrow> radio_off w \<or> radio_running w \<Longrightarrow> radio_off w'"
  "receive_poll buf w = Some (r, buf', w') \<Longrightarrow> radio_running w \<Longrightarrow>
     (if r = Inr None then radio_running w' else radio_off w')"
  by (auto simp: radio_off_def radio_running_def radio_after_append
      dest!: radio_transmit_effect receive_start_effect receive_cancel_effect receive_poll_effect split: if_splits)

text \<open>How many events of each kind the script still holds; every busy-wait uses one up.\<close>

definition answers :: "flag \<Rightarrow> world \<Rightarrow> nat" where
  "answers f w = length (filter (\<lambda>x. x \<noteq> 0) (w_flag w f))"

lemma wait_list_total: "0 < length (filter (\<lambda>x. x \<noteq> 0) xs) \<Longrightarrow>
    \<exists>ys. wait_list xs = Some ys \<and> length (filter (\<lambda>x. x \<noteq> 0) xs) = Suc (length (filter (\<lambda>x. x \<noteq> 0) ys))"
  by (induction xs) auto

lemma wait_total: "0 < answers f w \<Longrightarrow>
    \<exists>w'. wait f w = Some w' \<and> (\<forall>g. answers g w' = answers g w - of_bool (g = f))"
  using wait_list_total [of "w_flag w f"] by (auto simp: wait_def answers_def)

lemma answers_update [simp]:
  "answers f (w\<lparr>w_tasks := t\<rparr>) = answers f w" "answers f (w\<lparr>w_air := a\<rparr>) = answers f w"
  "answers f (task k w) = answers f w" "answers f (set_radio h w) = answers f w"
  "answers f (set_compare v w) = answers f w"
  by (simp_all add: answers_def task_def set_radio_def set_compare_def)

lemma radio_transmit_total:
  assumes "0 < answers READY w" and "0 < answers END w" and "0 < answers DISABLED w"
  shows "\<exists>w'. radio_transmit p w = Some w' \<and>
    (\<forall>f. answers f w' = answers f w - of_bool (f \<in> {READY, END, DISABLED}))"
proof -
  obtain w1 where w1: "wait READY (task TXEN w) = Some w1" "\<And>g. answers g w1 = answers g w - of_bool (g = READY)"
    using wait_total [of READY "task TXEN w"] assms by auto
  let ?w2 = "(task START w1)\<lparr>w_air := w_air (task START w1) @ [(w_radio (task START w1), p)]\<rparr>"
  obtain w3 where w3: "wait END ?w2 = Some w3" "\<And>g. answers g w3 = answers g w1 - of_bool (g = END)"
    using wait_total [of END ?w2] assms w1(2) by auto
  obtain w4 where "wait DISABLED (task DISABLE w3) = Some w4" "\<And>g. answers g w4 = answers g w3 - of_bool (g = DISABLED)"
    using wait_total [of DISABLED "task DISABLE w3"] assms w1(2) w3(2) by auto
  with w1 w3 show ?thesis by (auto simp: radio_transmit_def Let_def)
qed

lemma channel_frequency_offset:
  assumes "ch < 40"
  shows "\<exists>f. channel_frequency ch = Inr f \<and> 2400 + ucast (ucast (f - 2400) :: u8) = f"
proof (cases "ch \<le> 36")
  case True
  have "unat (4 + 2 * ucast ch :: u16) = 4 + 2 * unat ch"
    using True by (simp add: unat_word_ariths word_le_nat_alt)
  then have "ucast (ucast (4 + 2 * ucast ch :: u16) :: u8) = (4 + 2 * ucast ch :: u16)"
    using True by (intro word_unat_eq_iff [THEN iffD2]) (simp add: unsigned_ucast_eq unsigned_take_bit_eq take_bit_nat_eq_self word_le_nat_alt)
  with True show ?thesis by (simp add: channel_frequency_def algebra_simps)
next
  case False
  with assms have "unat ch = 37 \<or> unat ch = 38 \<or> unat ch = 39" by (auto simp: word_le_nat_alt word_less_nat_alt)
  then have "ch = 37 \<or> ch = 38 \<or> ch = 39" by (auto simp: word_unat_eq_iff)
  then show ?thesis by (auto simp: channel_frequency_def)
qed

section \<open>Properties\<close>

text \<open>The access address that the BASE0 and PREFIX0 registers spell.\<close>

definition on_air_address :: "radio_regs \<Rightarrow> u32" where
  "on_air_address r = push_bit 24 (ucast (rg_prefix0 r)) OR drop_bit 8 (rg_base0 r)"

text \<open>C40. After \<open>init\<close>, \<open>set_access_address\<close>, \<open>set_crc_init\<close> and \<open>set_channel\<close> the packet that
  \<open>transmit\<close> puts on air carries exactly the requested access address and CRC start value, on
  the channel's frequency, whitened from the same register start and checked with the same
  polynomial as the software codecs; \<open>set_channel\<close> fails exactly on an index of 40 or more and
  then changes nothing; and \<open>transmit\<close> returns when the radio raises its three events.\<close>

theorem radio_sends_as_configured:
  assumes "0 < answers READY w" and "0 < answers END w" and "0 < answers DISABLED w" and "radio_off w"
  shows "let w0 = set_crc_init ci (set_access_address aa (radio_init w)) in
    if ch < 40
    then \<exists>w1 w2 r. set_channel ch w0 = (Inr (), w1) \<and> radio_transmit p w1 = Some w2 \<and> radio_off w2 \<and>
      w_air w2 = w_air w @ [(r, p)] \<and> on_air_address r = aa \<and> rg_crcinit r = ci \<and> rg_crcpoly r = CRC_POLY \<and>
      rg_crclen r = 3 \<and> channel_frequency ch = Inr (2400 + ucast (rg_frequency r)) \<and> rg_whiteen r \<and>
      rg_datawhiteiv r = whitening_init ch
    else set_channel ch w0 = (Inl InvalidChannel, w0)"
proof (cases "ch < 40")
  case True
  let ?w0 = "set_crc_init ci (set_access_address aa (radio_init w))"
  obtain f where f: "channel_frequency ch = Inr f" "2400 + ucast (ucast (f - 2400) :: u8) = f"
    using channel_frequency_offset [OF True] by blast
  let ?w1 = "set_radio (\<lambda>r. r\<lparr>rg_frequency := ucast (f - 2400), rg_datawhiteiv := 0x40 OR (ch AND 0x3F)\<rparr>) ?w0"
  have ans: "answers g ?w1 = answers g w" for g
    by (simp add: set_crc_init_def set_access_address_def radio_init_def set_tx_power_def set_channel_def Let_def
        split: prod.split sum.split)
  have eqs: "w_tasks ?w1 = w_tasks w" "w_air ?w1 = w_air w"
    "on_air_address (w_radio ?w1) = aa" "rg_crcinit (w_radio ?w1) = ci" "rg_crcpoly (w_radio ?w1) = CRC_POLY"
    "rg_crclen (w_radio ?w1) = 3" "rg_whiteen (w_radio ?w1)"
    using base_prefix_spells [of aa]
    by (simp_all add: set_radio_def set_crc_init_def set_access_address_def radio_init_def set_tx_power_def
        set_channel_def Let_def on_air_address_def CRC_POLY_def split: prod.split sum.split)
  obtain w2 where w2: "radio_transmit p ?w1 = Some w2" using radio_transmit_total [of ?w1 p] assms(1-3) ans by auto
  have "set_channel ch ?w0 = (Inr (), ?w1)" using f by (simp add: set_channel_def Let_def)
  moreover have "radio_off w2" using radio_off_steps(1) [OF w2] assms(4) eqs(1) by (simp add: radio_off_def)
  moreover have "w_air w2 = w_air w @ [(w_radio ?w1, p)]" using radio_transmit_effect [OF w2] eqs(2) by simp
  moreover have "channel_frequency ch = Inr (2400 + ucast (rg_frequency (w_radio ?w1)))"
    "rg_datawhiteiv (w_radio ?w1) = whitening_init ch"
    using f by (simp_all add: set_radio_def whitening_init_def)
  ultimately show ?thesis using True w2 eqs(3-) unfolding Let_def if_P [OF True] by blast
next
  case False
  then show ?thesis by (auto simp: set_channel_def channel_frequency_def Let_def word_le_nat_alt word_less_nat_alt)
qed

definition example_regs :: radio_regs where
  "example_regs =
     \<lparr>rg_mode = ble_1mbit, rg_lflen = 0, rg_s0len = False, rg_s1len = 0, rg_s1incl_auto = False,
      rg_plen = plen_8bit, rg_maxlen = 0,
      rg_balen = 0, rg_statlen = 0, rg_little_endian = False, rg_whiteen = False, rg_crclen = 0, rg_crcskipaddr = False, rg_crcinit = 0,
      rg_crcpoly = 0, rg_base0 = 0, rg_prefix0 = 0, rg_txaddress = 0, rg_rxaddr0 = False, rg_frequency = 0,
      rg_datawhiteiv = 0, rg_txpower = ZeroDbm\<rparr>"

text \<open>A device with the given timer readings and received packets, whose event registers read as
  set whenever they are polled.\<close>

definition example_world :: "u32 list \<Rightarrow> bytes list \<Rightarrow> world" where
  "example_world ts ps =
     \<lparr>w_radio = example_regs, w_timer = \<lparr>tg_prescaler = 0, tg_24bit = False, tg_started = False, tg_cc0 = 0\<rparr>,
      w_tasks = [], w_air = [], w_flag = (\<lambda>f. if f = CRCERROR then replicate 20 0 else replicate 20 1),
      w_now = ts, w_dma = ps, w_rssi = []\<rparr>"

lemma example_world_answers: "f \<noteq> CRCERROR \<Longrightarrow> answers f (example_world ts ps) = 20"
  by (simp add: answers_def example_world_def)

theorem radio_sends_as_configured_witness:
  "\<exists>w1 w2 r. set_channel 12 (set_crc_init 0x123456 (set_access_address 0x50123456 (radio_init (example_world [] [])))) =
       (Inr (), w1) \<and>
     radio_transmit [1, 0] w1 = Some w2 \<and> w_air w2 = [(r, [1, 0])] \<and> on_air_address r = 0x50123456 \<and>
     rg_datawhiteiv r = whitening_init 12"
  using radio_sends_as_configured [where w = "example_world [] []" and ch = 12 and ci = "0x123456"
      and aa = "0x50123456" and p = "[1, 0]"]
  by (auto simp: example_world_answers radio_off_def Let_def) (auto simp: example_world_def)

end
