(* ===== verification/Pdu.thy ===== *)
theory Pdu
  imports Ble_Prelude
begin

text \<open>
  The PDU codecs of \<open>src/ll/pdu.rs\<close>: advertising channel headers and PDUs, data channel PDUs,
  the auxiliary pointer, the periodic advertising info and the CONNECT_REQ parameters.
\<close>

section \<open>Data\<close>

definition PDU_ADV_IND :: u8 where "PDU_ADV_IND = 0"
definition PDU_ADV_DIRECT_IND :: u8 where "PDU_ADV_DIRECT_IND = 1"
definition PDU_ADV_NONCONN_IND :: u8 where "PDU_ADV_NONCONN_IND = 2"
definition PDU_SCAN_REQ :: u8 where "PDU_SCAN_REQ = 3"
definition PDU_SCAN_RSP :: u8 where "PDU_SCAN_RSP = 4"
definition PDU_CONNECT_REQ :: u8 where "PDU_CONNECT_REQ = 5"
definition PDU_ADV_SCAN_IND :: u8 where "PDU_ADV_SCAN_IND = 6"
definition PDU_ADV_EXT_IND :: u8 where "PDU_ADV_EXT_IND = 7"

lemmas pdu_types = PDU_ADV_IND_def PDU_ADV_DIRECT_IND_def PDU_ADV_NONCONN_IND_def PDU_SCAN_REQ_def
  PDU_SCAN_RSP_def PDU_CONNECT_REQ_def PDU_ADV_SCAN_IND_def PDU_ADV_EXT_IND_def

definition LLID_DATA_START :: u8 where "LLID_DATA_START = 1"
definition LLID_DATA_CONTINUATION_OR_COMPLETE :: u8 where "LLID_DATA_CONTINUATION_OR_COMPLETE = 0"
definition LLID_DATA_COMPLETE :: u8 where "LLID_DATA_COMPLETE = 3"
definition LLID_CONTROL :: u8 where "LLID_CONTROL = 2"

lemmas llids = LLID_DATA_START_def LLID_DATA_CONTINUATION_OR_COMPLETE_def LLID_DATA_COMPLETE_def
  LLID_CONTROL_def

record adv_hdr =
  ah_pdu_type :: u8
  ah_ch_sel :: bool
  ah_tx_add :: bool
  ah_rx_add :: bool
  ah_len :: u8

record aux_ptr =
  aux_channel :: u8
  aux_offset :: u16
  aux_phy :: u8

datatype adv_pdu =
    AdvInd (adv_addr: bytes) (pdu_data: bytes)
  | AdvDirectInd (adv_addr: bytes) (init_addr: bytes)
  | AdvNonconnInd (adv_addr: bytes) (pdu_data: bytes)
  | ScanReq (scan_addr: bytes) (adv_addr: bytes)
  | ScanRsp (adv_addr: bytes) (pdu_data: bytes)
  | ConnectReq (init_addr: bytes) (adv_addr: bytes) (ll_data: bytes)
  | AdvScanInd (adv_addr: bytes) (pdu_data: bytes)
  | AdvExtInd (adv_addr: bytes) (adv_mode: u8) (adi: bytes) (aux: aux_ptr)
  | AuxAdvExtInd (adv_addr: bytes) (adi: bytes) (ext_type: u8) (pdu_data: bytes)
  | AuxAdvExtIndWithEh (adv_addr: bytes) (adi: bytes) (ehs: bytes) (pdu_data: bytes)
  | PeriodicAdv (adv_mode: u8) (adi: bytes)

record data_pdu =
  dp_llid :: u8
  dp_nesn :: bool
  dp_sn :: bool
  dp_md :: bool
  dp_payload :: bytes

record periodic_adv_info =
  pai_adi :: bytes
  pai_interval :: u16
  pai_adva_type :: u8

record connect_req_data =
  cr_access_addr :: u32
  cr_crc_init :: u32
  cr_win_size :: u8
  cr_win_offset :: u16
  cr_interval :: u16
  cr_latency :: u16
  cr_timeout :: u16
  cr_channel_map :: bytes
  cr_hop :: u8
  cr_sca :: u8

section \<open>Advertising channel header\<close>

definition adv_hdr_encode :: "adv_hdr \<Rightarrow> bytes" where
  "adv_hdr_encode h =
     [(ah_pdu_type h AND 0x0F) OR push_bit 6 (of_bool (ah_ch_sel h)) OR push_bit 7 (of_bool (ah_tx_add h)),
      of_bool (ah_rx_add h) OR push_bit 1 (ah_len h AND 0x3F)]"

definition adv_hdr_decode :: "u8 \<Rightarrow> u8 \<Rightarrow> error + adv_hdr" where
  "adv_hdr_decode b0 b1 =
     (let pdu_type = b0 AND 0x0F in
      if pdu_type > 7 then Inl InvalidPdu
      else Inr \<lparr>ah_pdu_type = pdu_type, ah_ch_sel = (b0 AND 0x40 \<noteq> 0), ah_tx_add = (b0 AND 0x80 \<noteq> 0),
                ah_rx_add = (b1 AND 0x01 \<noteq> 0), ah_len = drop_bit 1 b1 AND 0x3F\<rparr>)"

section \<open>Auxiliary pointer and periodic info\<close>

definition aux_ptr_decode :: "u8 \<Rightarrow> u8 \<Rightarrow> u8 \<Rightarrow> aux_ptr" where
  "aux_ptr_decode b0 b1 b2 =
     \<lparr>aux_channel = b0 AND 0x3F, aux_offset = ucast (drop_bit 6 b0) OR push_bit 2 (ucast b1),
      aux_phy = b2 AND 0x03\<rparr>"

definition aux_ptr_encode :: "aux_ptr \<Rightarrow> bytes" where
  "aux_ptr_encode p =
     [(aux_channel p AND 0x3F) OR push_bit 6 (ucast (aux_offset p AND 0x03)),
      ucast (drop_bit 2 (aux_offset p) AND 0xFF),
      aux_phy p AND 0x03]"

definition EXT_AD_PERIODIC :: u8 where "EXT_AD_PERIODIC = 0x20"

definition periodic_adv_info_encode :: "periodic_adv_info \<Rightarrow> bytes" where
  "periodic_adv_info_encode i =
     [pai_adi i ! 0, pai_adi i ! 1, ucast (pai_interval i AND 0xFF), ucast (drop_bit 8 (pai_interval i)),
      pai_adva_type i]"

definition periodic_adv_info_decode :: "bytes \<Rightarrow> periodic_adv_info option" where
  "periodic_adv_info_decode b =
     (if length b < 5 then None
      else Some \<lparr>pai_adi = [b ! 0, b ! 1], pai_interval = of_le16 (b ! 2) (b ! 3), pai_adva_type = b ! 4\<rparr>)"

section \<open>Advertising channel PDUs\<close>

definition split6 :: "bytes \<Rightarrow> error + bytes \<times> bytes" where
  "split6 payload = (if length payload < 6 then Inl InvalidLength else Inr (take 6 payload, drop 6 payload))"

definition decode_ext_ind :: "bytes \<Rightarrow> error + adv_pdu" where
  "decode_ext_ind payload =
     (if length payload = 12 then
        Inr (AdvExtInd (take 6 payload) (payload ! 6) [payload ! 7, payload ! 8]
               (aux_ptr_decode (payload ! 9) (payload ! 10) (payload ! 11)))
      else if length payload \<ge> 10 then
        let ehs_end = 9 + unat (payload ! 8) in
        if length payload \<ge> ehs_end
        then Inr (AuxAdvExtInd (take 6 payload) [payload ! 6, payload ! 7] (payload ! 9) (drop ehs_end payload))
        else Inl InvalidLength
      else if length payload = 3 then Inr (PeriodicAdv (payload ! 0) [payload ! 1, payload ! 2])
      else Inl InvalidLength)"

definition adv_pdu_decode :: "bytes \<Rightarrow> error + adv_pdu" where
  "adv_pdu_decode bytes =
     (if length bytes < 2 then Inl InvalidPdu
      else try_then (adv_hdr_decode (bytes ! 0) (bytes ! 1)) (\<lambda>header.
        let payload = drop 2 bytes; ty = ah_pdu_type header in
        if length payload \<noteq> unat (ah_len header) then Inl InvalidLength
        else if ty = PDU_ADV_IND then
          try_then (split6 payload) (\<lambda>(addr, data). Inr (AdvInd addr data))
        else if ty = PDU_ADV_DIRECT_IND then
          try_then (split6 payload) (\<lambda>(a, b).
            if length b \<noteq> 6 then Inl InvalidLength else Inr (AdvDirectInd a b))
        else if ty = PDU_ADV_NONCONN_IND then
          try_then (split6 payload) (\<lambda>(addr, data). Inr (AdvNonconnInd addr data))
        else if ty = PDU_SCAN_REQ then
          try_then (split6 payload) (\<lambda>(a, b).
            if length b \<noteq> 6 then Inl InvalidLength else Inr (ScanReq a b))
        else if ty = PDU_SCAN_RSP then
          try_then (split6 payload) (\<lambda>(addr, data). Inr (ScanRsp addr data))
        else if ty = PDU_CONNECT_REQ then
          try_then (split6 payload) (\<lambda>(a, b).
            if length b \<noteq> 28 then Inl InvalidLength else Inr (ConnectReq a (take 6 b) (drop 6 b)))
        else if ty = PDU_ADV_SCAN_IND then
          try_then (split6 payload) (\<lambda>(addr, data). Inr (AdvScanInd addr data))
        else if ty = PDU_ADV_EXT_IND then decode_ext_ind payload
        else Inl InvalidPdu))"

text \<open>\<open>encode_with\<close>: length checks, header, then the payload writer on \<open>out[2..total]\<close>.\<close>

definition encode_with ::
  "bytes \<Rightarrow> u8 \<Rightarrow> bool \<Rightarrow> bool \<Rightarrow> nat \<Rightarrow> (bytes \<Rightarrow> bytes option) \<Rightarrow> (error + nat \<times> bytes) option" where
  "encode_with out pdu_type tx_add rx_add payload_len write_payload =
     (if payload_len > 0x3F then Some (Inl InvalidLength)
      else if length out < 2 + payload_len then Some (Inl BufferTooSmall)
      else do {
        let header = \<lparr>ah_pdu_type = pdu_type, ah_ch_sel = False, ah_tx_add = tx_add, ah_rx_add = rx_add,
                      ah_len = of_nat payload_len\<rparr>;
        o' \<leftarrow> write_payload (take payload_len (drop 2 out));
        Some (Inr (2 + payload_len, adv_hdr_encode header @ o' @ drop (2 + payload_len) out))
      })"

definition write_addr_data :: "bytes \<Rightarrow> bytes \<Rightarrow> bytes \<Rightarrow> bytes option" where
  "write_addr_data addr data o0 = do {
     o1 \<leftarrow> copy_slice o0 0 6 addr;
     copy_slice o1 6 (length o1) data }"

definition write_two_addr :: "bytes \<Rightarrow> bytes \<Rightarrow> bytes \<Rightarrow> bytes option" where
  "write_two_addr a b o0 = do {
     o1 \<leftarrow> copy_slice o0 0 6 a;
     copy_slice o1 6 12 b }"

fun encode_typed :: "adv_pdu \<Rightarrow> bytes \<Rightarrow> bool \<Rightarrow> bool \<Rightarrow> (error + nat \<times> bytes) option" where
  "encode_typed pdu out tx_add rx_add =
     (if length out < 2 then Some (Inl BufferTooSmall)
      else case pdu of
        AdvInd addr data \<Rightarrow>
          encode_with out PDU_ADV_IND tx_add False (6 + length data) (write_addr_data addr data)
      | AdvScanInd addr data \<Rightarrow>
          encode_with out PDU_ADV_SCAN_IND tx_add False (6 + length data) (write_addr_data addr data)
      | AdvNonconnInd addr data \<Rightarrow>
          encode_with out PDU_ADV_NONCONN_IND False False (6 + length data) (write_addr_data addr data)
      | ScanRsp addr data \<Rightarrow>
          encode_with out PDU_SCAN_RSP tx_add False (6 + length data) (write_addr_data addr data)
      | AdvDirectInd a b \<Rightarrow> encode_with out PDU_ADV_DIRECT_IND tx_add False 12 (write_two_addr a b)
      | ScanReq a b \<Rightarrow> encode_with out PDU_SCAN_REQ tx_add rx_add 12 (write_two_addr a b)
      | ConnectReq a b ll \<Rightarrow> encode_with out PDU_CONNECT_REQ tx_add rx_add 34 (\<lambda>o0. do {
          o1 \<leftarrow> write_two_addr a b o0;
          copy_slice o1 12 34 ll })
      | AdvExtInd addr mode ad ptr \<Rightarrow> encode_with out PDU_ADV_EXT_IND tx_add False 12 (\<lambda>o0. do {
          o1 \<leftarrow> copy_slice o0 0 6 addr;
          o2 \<leftarrow> put o1 6 mode;
          o3 \<leftarrow> copy_slice o2 7 9 ad;
          copy_slice o3 9 12 (aux_ptr_encode ptr) })
      | AuxAdvExtInd addr ad ty data \<Rightarrow>
          encode_with out PDU_ADV_EXT_IND tx_add False (10 + length data) (\<lambda>o0. do {
            o1 \<leftarrow> copy_slice o0 0 6 addr;
            o2 \<leftarrow> copy_slice o1 6 8 ad;
            o3 \<leftarrow> put o2 8 1;
            o4 \<leftarrow> put o3 9 ty;
            copy_slice o4 10 (length o4) data })
      | AuxAdvExtIndWithEh addr ad eh data \<Rightarrow>
          encode_with out PDU_ADV_EXT_IND tx_add False (8 + length eh + length data) (\<lambda>o0. do {
            o1 \<leftarrow> copy_slice o0 0 6 addr;
            o2 \<leftarrow> copy_slice o1 6 8 ad;
            e0 \<leftarrow> get eh 0;
            o3 \<leftarrow> put o2 8 e0;
            let data_start = 9 + length eh - 1;
            o4 \<leftarrow> copy_slice o3 9 data_start (drop 1 eh);
            copy_slice o4 data_start (data_start + length data) data })
      | PeriodicAdv mode ad \<Rightarrow> encode_with out PDU_ADV_EXT_IND tx_add False 3 (\<lambda>o0. do {
          o1 \<leftarrow> put o0 0 mode;
          copy_slice o1 1 3 ad }))"

declare encode_typed.simps [simp del]

definition adv_pdu_encode :: "adv_pdu \<Rightarrow> bytes \<Rightarrow> (error + nat \<times> bytes) option" where
  "adv_pdu_encode pdu out = encode_typed pdu out False False"

fun pdu_type :: "adv_pdu \<Rightarrow> u8" where
  "pdu_type (AdvInd _ _) = PDU_ADV_IND"
| "pdu_type (AdvDirectInd _ _) = PDU_ADV_DIRECT_IND"
| "pdu_type (AdvNonconnInd _ _) = PDU_ADV_NONCONN_IND"
| "pdu_type (ScanReq _ _) = PDU_SCAN_REQ"
| "pdu_type (ScanRsp _ _) = PDU_SCAN_RSP"
| "pdu_type (ConnectReq _ _ _) = PDU_CONNECT_REQ"
| "pdu_type (AdvScanInd _ _) = PDU_ADV_SCAN_IND"
| "pdu_type (AdvExtInd _ _ _ _) = PDU_ADV_EXT_IND"
| "pdu_type (AuxAdvExtInd _ _ _ _) = PDU_ADV_EXT_IND"
| "pdu_type (AuxAdvExtIndWithEh _ _ _ _) = PDU_ADV_EXT_IND"
| "pdu_type (PeriodicAdv _ _) = PDU_ADV_EXT_IND"

section \<open>Data channel PDUs\<close>

definition data_pdu_decode :: "bytes \<Rightarrow> error + data_pdu" where
  "data_pdu_decode bytes =
     (if length bytes < 2 then Inl InvalidPdu
      else
        let b0 = bytes ! 0; len = unat (bytes ! 1 AND 0x3F); payload = drop 2 bytes in
        if length payload \<noteq> len then Inl InvalidLength
        else Inr \<lparr>dp_llid = b0 AND 0x03, dp_nesn = (b0 AND 0x04 \<noteq> 0), dp_sn = (b0 AND 0x08 \<noteq> 0),
                  dp_md = (b0 AND 0x10 \<noteq> 0), dp_payload = payload\<rparr>)"

definition data_pdu_encode :: "data_pdu \<Rightarrow> bytes \<Rightarrow> error + nat \<times> bytes" where
  "data_pdu_encode p out =
     (if length (dp_payload p) > 0x3F then Inl InvalidLength
      else
        let total = 2 + length (dp_payload p) in
        if length out < total then Inl BufferTooSmall
        else Inr (total,
          [(dp_llid p AND 0x03) OR push_bit 2 (of_bool (dp_nesn p)) OR push_bit 3 (of_bool (dp_sn p))
             OR push_bit 4 (of_bool (dp_md p)),
           of_nat (length (dp_payload p)) AND 0x3F] @ dp_payload p @ drop total out))"

section \<open>CONNECT_REQ parameters\<close>

definition CONNECT_LL_DATA_LEN :: nat where "CONNECT_LL_DATA_LEN = 22"

definition connect_req_decode :: "bytes \<Rightarrow> error + connect_req_data" where
  "connect_req_decode d =
     (if length d \<noteq> CONNECT_LL_DATA_LEN then Inl InvalidLength
      else Inr \<lparr>cr_access_addr = of_le32 (d ! 0) (d ! 1) (d ! 2) (d ! 3),
                cr_crc_init = ucast (d ! 4) OR push_bit 8 (ucast (d ! 5)) OR push_bit 16 (ucast (d ! 6)),
                cr_win_size = d ! 7,
                cr_win_offset = of_le16 (d ! 8) (d ! 9),
                cr_interval = of_le16 (d ! 10) (d ! 11),
                cr_latency = of_le16 (d ! 12) (d ! 13),
                cr_timeout = of_le16 (d ! 14) (d ! 15),
                cr_channel_map = take 5 (drop 16 d),
                cr_hop = d ! 21 AND 0x1F,
                cr_sca = drop_bit 5 (d ! 21) AND 0x07\<rparr>)"

definition connect_req_bytes :: "connect_req_data \<Rightarrow> bytes" where
  "connect_req_bytes c =
     le32 (cr_access_addr c) @
     [ucast (cr_crc_init c), ucast (drop_bit 8 (cr_crc_init c)), ucast (drop_bit 16 (cr_crc_init c)),
      cr_win_size c] @
     le16 (cr_win_offset c) @ le16 (cr_interval c) @ le16 (cr_latency c) @ le16 (cr_timeout c) @
     cr_channel_map c @ [(cr_hop c AND 0x1F) OR push_bit 5 (cr_sca c AND 0x07)]"

definition connect_req_encode :: "connect_req_data \<Rightarrow> bytes \<Rightarrow> error + nat \<times> bytes" where
  "connect_req_encode c out =
     (if length out < CONNECT_LL_DATA_LEN then Inl BufferTooSmall
      else Inr (CONNECT_LL_DATA_LEN, set_prefix out (connect_req_bytes c)))"

section \<open>Well-formed values\<close>

definition adv_hdr_ok :: "adv_hdr \<Rightarrow> bool" where
  "adv_hdr_ok h \<longleftrightarrow> ah_pdu_type h < 8 \<and> ah_len h < 64"

definition aux_ptr_ok :: "aux_ptr \<Rightarrow> bool" where
  "aux_ptr_ok p \<longleftrightarrow> aux_channel p < 64 \<and> aux_offset p < 1024 \<and> aux_phy p < 4"

definition connect_req_ok :: "connect_req_data \<Rightarrow> bool" where
  "connect_req_ok c \<longleftrightarrow> cr_crc_init c < 0x1000000 \<and> length (cr_channel_map c) = 5 \<and> cr_hop c < 32 \<and> cr_sca c < 8"

text \<open>The lengths the Rust array types give; a custom extended header has at least the octet that
  the encoder reads (an empty one is a panic).\<close>

fun adv_pdu_ok :: "adv_pdu \<Rightarrow> bool" where
  "adv_pdu_ok (AdvInd a d) = (length a = 6)"
| "adv_pdu_ok (AdvDirectInd a b) = (length a = 6 \<and> length b = 6)"
| "adv_pdu_ok (AdvNonconnInd a d) = (length a = 6)"
| "adv_pdu_ok (ScanReq a b) = (length a = 6 \<and> length b = 6)"
| "adv_pdu_ok (ScanRsp a d) = (length a = 6)"
| "adv_pdu_ok (ConnectReq a b ll) = (length a = 6 \<and> length b = 6 \<and> length ll = 22)"
| "adv_pdu_ok (AdvScanInd a d) = (length a = 6)"
| "adv_pdu_ok (AdvExtInd a m ad p) = (length a = 6 \<and> length ad = 2)"
| "adv_pdu_ok (AuxAdvExtInd a ad t d) = (length a = 6 \<and> length ad = 2)"
| "adv_pdu_ok (AuxAdvExtIndWithEh a ad eh d) = (length a = 6 \<and> length ad = 2 \<and> eh \<noteq> [])"
| "adv_pdu_ok (PeriodicAdv m ad) = (length ad = 2)"

text \<open>What the payload of a PDU is on air.\<close>

fun payload_of :: "adv_pdu \<Rightarrow> bytes" where
  "payload_of (AdvInd a d) = a @ d"
| "payload_of (AdvDirectInd a b) = a @ b"
| "payload_of (AdvNonconnInd a d) = a @ d"
| "payload_of (ScanReq a b) = a @ b"
| "payload_of (ScanRsp a d) = a @ d"
| "payload_of (ConnectReq a b ll) = a @ b @ ll"
| "payload_of (AdvScanInd a d) = a @ d"
| "payload_of (AdvExtInd a m ad p) = a @ [m] @ ad @ aux_ptr_encode p"
| "payload_of (AuxAdvExtInd a ad t d) = a @ ad @ [1, t] @ d"
| "payload_of (AuxAdvExtIndWithEh a ad eh d) = a @ ad @ eh @ d"
| "payload_of (PeriodicAdv m ad) = m # ad"

text \<open>What the decoder makes of an encoded PDU. The fields of an auxiliary pointer are cut to their
  widths. Whatever has the 12-octet payload of a primary ADV_EXT_IND is read as one. Of a custom
  extended header, the first octet is taken for its length and the second for the type; a length
  that runs over the end of the packet is an error.\<close>

definition aux_ptr_cut :: "aux_ptr \<Rightarrow> aux_ptr" where
  "aux_ptr_cut p = \<lparr>aux_channel = aux_channel p AND 0x3F, aux_offset = aux_offset p AND 0x3FF, aux_phy = aux_phy p AND 0x03\<rparr>"

fun wire_view :: "adv_pdu \<Rightarrow> error + adv_pdu" where
  "wire_view (AdvExtInd a m ad p) = Inr (AdvExtInd a m ad (aux_ptr_cut p))"
| "wire_view (AuxAdvExtInd a ad t d) =
     (if length d = 2 then Inr (AdvExtInd a (ad ! 0) [ad ! 1, 1] (aux_ptr_decode t (d ! 0) (d ! 1)))
      else Inr (AuxAdvExtInd a ad t d))"
| "wire_view (AuxAdvExtIndWithEh a ad eh d) =
     (let x = eh @ d; k = unat (eh ! 0) in
      if length x = 4 then Inr (AdvExtInd a (ad ! 0) [ad ! 1, x ! 0] (aux_ptr_decode (x ! 1) (x ! 2) (x ! 3)))
      else if length x < 2 \<or> length x < 1 + k then Inl InvalidLength
      else Inr (AuxAdvExtInd a ad (x ! 1) (drop (1 + k) x)))"
| "wire_view p = Inr p"

fun pdu_tx_add :: "adv_pdu \<Rightarrow> bool \<Rightarrow> bool" where
  "pdu_tx_add (AdvNonconnInd _ _) tx = False"
| "pdu_tx_add _ tx = tx"

fun pdu_rx_add :: "adv_pdu \<Rightarrow> bool \<Rightarrow> bool" where
  "pdu_rx_add (ScanReq _ _) rx = rx"
| "pdu_rx_add (ConnectReq _ _ _) rx = rx"
| "pdu_rx_add _ rx = False"

section \<open>Bit-level round trips\<close>

lemma adv_hdr_roundtrip:
  assumes "adv_hdr_ok h"
  shows "adv_hdr_decode (adv_hdr_encode h ! 0) (adv_hdr_encode h ! 1) = Inr h"
proof -
  have t: "bit (ah_pdu_type h) i \<Longrightarrow> i < 3" and l: "bit (ah_len h) i \<Longrightarrow> i < 6" for i
    using less_exp_bit [of "ah_pdu_type h" 3] less_exp_bit [of "ah_len h" 6] assms
    by (auto simp: adv_hdr_ok_def)
  let ?b0 = "adv_hdr_encode h ! 0" and ?b1 = "adv_hdr_encode h ! 1"
  have "?b0 AND 0x0F = ah_pdu_type h"
    by (rule bit_word_eqI) (auto simp: adv_hdr_encode_def and_masks bit_simps dest: t)
  moreover have "drop_bit 1 ?b1 AND 0x3F = ah_len h"
    by (rule bit_word_eqI) (auto simp: adv_hdr_encode_def and_masks bit_simps bit_times_2 dest: l)
  moreover have "bit ?b0 6 = ah_ch_sel h" "bit ?b0 7 = ah_tx_add h" "bit ?b1 0 = ah_rx_add h"
    by (auto simp: adv_hdr_encode_def and_masks bit_simps bit_times_2)
  moreover have "\<not> 7 < ah_pdu_type h"
    using assms by (simp add: adv_hdr_ok_def word_less_nat_alt)
  ultimately show ?thesis
    by (simp add: adv_hdr_decode_def Let_def and_flag)
qed

lemma aux_ptr_roundtrip:
  assumes "aux_ptr_ok p"
  shows "aux_ptr_decode (aux_ptr_encode p ! 0) (aux_ptr_encode p ! 1) (aux_ptr_encode p ! 2) = p"
proof -
  have c: "bit (aux_channel p) i \<Longrightarrow> i < 6" and o: "bit (aux_offset p) i \<Longrightarrow> i < 10"
    and f: "bit (aux_phy p) i \<Longrightarrow> i < 2" for i
    using less_exp_bit [of "aux_channel p" 6] less_exp_bit [of "aux_offset p" 10]
      less_exp_bit [of "aux_phy p" 2] assms
    by (auto simp: aux_ptr_ok_def)
  let ?e = "aux_ptr_encode p"
  have "?e ! 0 AND 0x3F = aux_channel p" "?e ! 2 AND 0x03 = aux_phy p"
    by (rule bit_word_eqI, auto simp: aux_ptr_encode_def and_masks bit_simps dest: c f)+
  moreover have "ucast (drop_bit 6 (?e ! 0)) OR push_bit 2 (ucast (?e ! 1)) = aux_offset p"
  proof (rule bit_word_eqI, goal_cases)
    case (1 n)
    consider "n < 2" | k where "n = Suc (Suc k)"
      by (metis add_2_eq_Suc le_Suc_ex linorder_not_less)
    then show ?case
      by cases (auto simp: aux_ptr_encode_def and_masks bit_simps dest: c o)
  qed
  ultimately show ?thesis
    by (simp add: aux_ptr_decode_def)
qed

lemma connect_req_roundtrip:
  assumes "connect_req_ok c"
  shows "connect_req_decode (connect_req_bytes c) = Inr c"
proof -
  have crc: "bit (cr_crc_init c) i \<Longrightarrow> i < 24" and h: "bit (cr_hop c) i \<Longrightarrow> i < 5"
    and s: "bit (cr_sca c) i \<Longrightarrow> i < 3" for i
    using less_exp_bit [of "cr_crc_init c" 24] less_exp_bit [of "cr_hop c" 5]
      less_exp_bit [of "cr_sca c" 3] assms
    by (auto simp: connect_req_ok_def)
  obtain m0 m1 m2 m3 m4 where m: "cr_channel_map c = [m0, m1, m2, m3, m4]"
    using assms by (auto simp: connect_req_ok_def numeral_eq_Suc length_Suc_conv)
  define l where "l = (cr_hop c AND 0x1F) OR push_bit 5 (cr_sca c AND 0x07)"
  have "l AND 0x1F = cr_hop c" "drop_bit 5 l AND 0x07 = cr_sca c"
    unfolding l_def by (rule bit_word_eqI, auto simp: and_masks bit_simps dest: h s)+
  moreover have "ucast (ucast (cr_crc_init c) :: u8) OR push_bit 8 (ucast (ucast (drop_bit 8 (cr_crc_init c)) :: u8))
      OR push_bit 16 (ucast (ucast (drop_bit 16 (cr_crc_init c)) :: u8)) = cr_crc_init c"
  proof (rule bit_word_eqI, goal_cases)
    case (1 n)
    then show ?case
      by (cases "n < 8"; cases "n < 16") (auto simp: bit_simps dest: crc)
  qed
  ultimately show ?thesis
    unfolding connect_req_bytes_def l_def [symmetric]
    by (simp add: connect_req_decode_def CONNECT_LL_DATA_LEN_def le32_def le16_def m)
qed

lemma connect_req_bytes_decode:
  assumes "connect_req_decode d = Inr c"
  shows "connect_req_bytes c = d" and "connect_req_ok c"
proof -
  from assms have "length d = 22"
    by (simp add: connect_req_decode_def CONNECT_LL_DATA_LEN_def split: if_splits)
  then have "d = map ((!) d) [0..<22]"
    by (rule list_expand)
  then obtain d0 d1 d2 d3 d4 d5 d6 d7 d8 d9 d10 d11 d12 d13 d14 d15 d16 d17 d18 d19 d20 d21
    where d: "d = [d0, d1, d2, d3, d4, d5, d6, d7, d8, d9, d10, d11, d12, d13, d14, d15, d16, d17, d18, d19, d20, d21]"
    by (simp add: upt_conv_Cons)
  let ?crc = "ucast d4 OR push_bit 8 (ucast d5) OR push_bit 16 (ucast d6) :: u32"
  have c: "c = \<lparr>cr_access_addr = of_le32 d0 d1 d2 d3, cr_crc_init = ?crc, cr_win_size = d7,
      cr_win_offset = of_le16 d8 d9, cr_interval = of_le16 d10 d11, cr_latency = of_le16 d12 d13,
      cr_timeout = of_le16 d14 d15, cr_channel_map = [d16, d17, d18, d19, d20],
      cr_hop = d21 AND 0x1F, cr_sca = drop_bit 5 d21 AND 0x07\<rparr>"
    using assms by (simp add: d connect_req_decode_def CONNECT_LL_DATA_LEN_def)
  have "ucast ?crc = d4" "ucast (drop_bit 8 ?crc) = d5" "ucast (drop_bit 16 ?crc) = d6"
    by (rule bit_word_eqI, auto simp: bit_simps bit_beyond)+
  moreover have "(d21 AND 0x1F AND 0x1F) OR push_bit 5 (drop_bit 5 d21 AND 0x07 AND 0x07) = d21"
  proof (rule bit_word_eqI, goal_cases)
    case (1 n)
    then show ?case
      by (cases "n < 5") (auto simp: and_masks bit_simps)
  qed
  ultimately show "connect_req_bytes c = d"
    by (simp only: c d connect_req_bytes_def le16_of_le16 le32_of_le32 connect_req_data.simps and.assoc
        append.simps)
  have "take_bit 24 ?crc = ?crc"
    by (rule bit_word_eqI) (auto simp: bit_simps bit_beyond)
  then have "?crc < 2 ^ 24"
    by (rule take_bit_eq_less) simp
  moreover have "d21 AND 0x1F < 2 ^ 5" "drop_bit 5 d21 AND 0x07 < 2 ^ 3"
    unfolding and_masks by (rule take_bit_eq_less; simp)+
  ultimately show "connect_req_ok c"
    by (simp add: connect_req_ok_def c)
qed

lemma data_pdu_header_bits:
  fixes p :: data_pdu
  assumes "dp_llid p < 4"
  defines "b0 \<equiv> (dp_llid p AND 0x03) OR push_bit 2 (of_bool (dp_nesn p)) OR push_bit 3 (of_bool (dp_sn p))
             OR push_bit 4 (of_bool (dp_md p))"
  shows "b0 AND 0x03 = dp_llid p" "(b0 AND 0x04 \<noteq> 0) = dp_nesn p" "(b0 AND 0x08 \<noteq> 0) = dp_sn p"
    "(b0 AND 0x10 \<noteq> 0) = dp_md p"
proof -
  have l: "bit (dp_llid p) i \<Longrightarrow> i < 2" for i
    using less_exp_bit [of "dp_llid p" 2] assms(1) by simp
  show "b0 AND 0x03 = dp_llid p"
    unfolding b0_def by (rule bit_word_eqI) (auto simp: and_masks bit_simps dest: l)
  show "(b0 AND 0x04 \<noteq> 0) = dp_nesn p" "(b0 AND 0x08 \<noteq> 0) = dp_sn p" "(b0 AND 0x10 \<noteq> 0) = dp_md p"
    unfolding b0_def and_flag by (auto simp: and_masks bit_simps)
qed

lemma unat_and_3F: "n < 64 \<Longrightarrow> unat (of_nat n AND 0x3F :: u8) = n"
  by (simp add: and_3F unsigned_take_bit_eq take_bit_nat_eq_self unat_of_nat)

section \<open>The encoder, functionally\<close>

lemma encode_with_spec:
  assumes "\<And>o0. length o0 = n \<Longrightarrow> wr o0 = Some payload" and "length payload = n"
  shows "encode_with out ty tx rx n wr =
    Some (if n > 0x3F then Inl InvalidLength
          else if length out < 2 + n then Inl BufferTooSmall
          else Inr (2 + n, adv_hdr_encode \<lparr>ah_pdu_type = ty, ah_ch_sel = False, ah_tx_add = tx, ah_rx_add = rx,
                  ah_len = of_nat n\<rparr> @ payload @ drop (2 + n) out))"
  using assms(1) [of "take n (drop 2 out)"] by (simp add: encode_with_def Let_def)

lemma write_addr_data_ok:
  "length a = 6 \<Longrightarrow> length o0 = 6 + length d \<Longrightarrow> write_addr_data a d o0 = Some (a @ d)"
  by (simp add: write_addr_data_def)

lemma write_two_addr_ok:
  "length a = 6 \<Longrightarrow> length b = 6 \<Longrightarrow> 12 \<le> length o0 \<Longrightarrow> write_two_addr a b o0 = Some (a @ b @ drop 12 o0)"
  by (simp add: write_two_addr_def)

lemma length_aux_ptr_encode [simp]: "length (aux_ptr_encode p) = 3"
  by (simp add: aux_ptr_encode_def)

lemma take_1_update: "xs \<noteq> [] \<Longrightarrow> take (Suc 0) (xs[0 := m]) = [m]"
  by (cases xs) simp_all

lemma take_2_update: "2 \<le> length xs \<Longrightarrow> take 2 (xs[0 := m, Suc 0 := k]) = [m, k]"
  by (cases xs; cases "tl xs") simp_all

lemmas update_simps = list_update_append take_1_update take_2_update drop_update_cancel

lemma encode_typed_spec:
  assumes "adv_pdu_ok pdu"
  defines "n \<equiv> length (payload_of pdu)"
  shows "encode_typed pdu out tx rx =
    Some (if length out < 2 then Inl BufferTooSmall
          else if n > 0x3F then Inl InvalidLength
          else if length out < 2 + n then Inl BufferTooSmall
          else Inr (2 + n, adv_hdr_encode \<lparr>ah_pdu_type = pdu_type pdu, ah_ch_sel = False,
              ah_tx_add = pdu_tx_add pdu tx, ah_rx_add = pdu_rx_add pdu rx, ah_len = of_nat n\<rparr> @
            payload_of pdu @ drop (2 + n) out))"
proof (cases pdu)
  case (AdvExtInd a m ad ptr)
  with assms(1) have l: "length a = 6" "length ad = 2" by simp_all
  have "do { o1 \<leftarrow> copy_slice o0 0 6 a; o2 \<leftarrow> put o1 6 m; o3 \<leftarrow> copy_slice o2 7 9 ad;
      copy_slice o3 9 12 (aux_ptr_encode ptr) } = Some (payload_of pdu)" if "length o0 = 12" for o0
    using that l by (simp add: AdvExtInd update_simps)
  then show ?thesis
    using l by (simp add: AdvExtInd n_def encode_typed.simps encode_with_spec [where payload = "payload_of pdu"])
next
  case (AuxAdvExtInd a ad ty d)
  with assms(1) have l: "length a = 6" "length ad = 2" by simp_all
  have "do { o1 \<leftarrow> copy_slice o0 0 6 a; o2 \<leftarrow> copy_slice o1 6 8 ad; o3 \<leftarrow> put o2 8 1; o4 \<leftarrow> put o3 9 ty;
      copy_slice o4 10 (length o4) d } = Some (payload_of pdu)" if "length o0 = 10 + length d" for o0
    using that l by (simp add: AuxAdvExtInd update_simps)
  then show ?thesis
    using l by (simp add: AuxAdvExtInd n_def encode_typed.simps encode_with_spec [where payload = "payload_of pdu"])
next
  case (AuxAdvExtIndWithEh a ad eh d)
  with assms(1) have l: "length a = 6" "length ad = 2" "eh \<noteq> []" by simp_all
  then obtain e0 er where eh: "eh = e0 # er" by (cases eh) auto
  have "do { o1 \<leftarrow> copy_slice o0 0 6 a; o2 \<leftarrow> copy_slice o1 6 8 ad; e0 \<leftarrow> get eh 0; o3 \<leftarrow> put o2 8 e0;
      let data_start = 9 + length eh - 1; o4 \<leftarrow> copy_slice o3 9 data_start (drop 1 eh);
      copy_slice o4 data_start (data_start + length d) d } = Some (payload_of pdu)"
    if "length o0 = 8 + length eh + length d" for o0
    using that l(1,2) by (simp add: AuxAdvExtIndWithEh eh update_simps)
  then show ?thesis
    using l by (simp add: AuxAdvExtIndWithEh n_def encode_typed.simps add.assoc
        encode_with_spec [where payload = "payload_of pdu"])
next
  case (PeriodicAdv m ad)
  with assms(1) have l: "length ad = 2" by simp
  have "do { o1 \<leftarrow> put o0 0 m; copy_slice o1 1 3 ad } = Some (payload_of pdu)" if "length o0 = 3" for o0
    using that l by (cases o0) (simp_all add: PeriodicAdv)
  then show ?thesis
    using l by (simp add: PeriodicAdv n_def encode_typed.simps encode_with_spec [where payload = "payload_of pdu"])
next
  case (ConnectReq a b ll)
  with assms(1) show ?thesis
    by (simp add: n_def encode_typed.simps encode_with_spec [where payload = "a @ b @ ll"] write_two_addr_ok)
qed (use assms(1) in \<open>simp_all add: n_def encode_typed.simps encode_with_spec [where payload = "payload_of pdu"]
  write_addr_data_ok write_two_addr_ok\<close>)

section \<open>The decoder on encoded packets\<close>

lemma pdu_type_less: "pdu_type pdu < 8"
  by (cases pdu) (simp_all add: pdu_types)

lemma length_adv_hdr_encode [simp]: "length (adv_hdr_encode h) = 2"
  by (simp add: adv_hdr_encode_def)

text \<open>A header in front of a payload of the announced length reaches the branch of its type.\<close>

lemma adv_pdu_decode_framed:
  assumes "adv_hdr_ok h" and "unat (ah_len h) = length payload"
  shows "adv_pdu_decode (adv_hdr_encode h @ payload) =
    (if ah_pdu_type h = PDU_ADV_IND then try_then (split6 payload) (\<lambda>(addr, data). Inr (AdvInd addr data))
     else if ah_pdu_type h = PDU_ADV_DIRECT_IND then
       try_then (split6 payload) (\<lambda>(a, b). if length b \<noteq> 6 then Inl InvalidLength else Inr (AdvDirectInd a b))
     else if ah_pdu_type h = PDU_ADV_NONCONN_IND then
       try_then (split6 payload) (\<lambda>(addr, data). Inr (AdvNonconnInd addr data))
     else if ah_pdu_type h = PDU_SCAN_REQ then
       try_then (split6 payload) (\<lambda>(a, b). if length b \<noteq> 6 then Inl InvalidLength else Inr (ScanReq a b))
     else if ah_pdu_type h = PDU_SCAN_RSP then try_then (split6 payload) (\<lambda>(addr, data). Inr (ScanRsp addr data))
     else if ah_pdu_type h = PDU_CONNECT_REQ then
       try_then (split6 payload) (\<lambda>(a, b).
         if length b \<noteq> 28 then Inl InvalidLength else Inr (ConnectReq a (take 6 b) (drop 6 b)))
     else if ah_pdu_type h = PDU_ADV_SCAN_IND then
       try_then (split6 payload) (\<lambda>(addr, data). Inr (AdvScanInd addr data))
     else if ah_pdu_type h = PDU_ADV_EXT_IND then decode_ext_ind payload
     else Inl InvalidPdu)"
proof -
  obtain b0 b1 where b: "adv_hdr_encode h = [b0, b1]"
    by (simp add: adv_hdr_encode_def)
  with adv_hdr_roundtrip [OF assms(1)] have "adv_hdr_decode b0 b1 = Inr h" by simp
  with assms(2) show ?thesis
    by (simp add: adv_pdu_decode_def b Let_def)
qed

lemma split6_append [simp]: "length a = 6 \<Longrightarrow> split6 (a @ d) = Inr (a, d)"
  by (simp add: split6_def)

lemma aux_ptr_cut_encode: "aux_ptr_ok (aux_ptr_cut p)" "aux_ptr_encode (aux_ptr_cut p) = aux_ptr_encode p"
proof -
  have "take_bit 6 (aux_channel p) < 2 ^ 6" "take_bit 10 (aux_offset p) < 2 ^ 10" "take_bit 2 (aux_phy p) < 2 ^ 2"
    by (rule take_bit_eq_less; simp)+
  moreover have m: "x AND 0x3FF = take_bit 10 x" for x :: u16 by (simp add: take_bit_eq_mask mask_eq_exp_minus_1)
  ultimately show "aux_ptr_ok (aux_ptr_cut p)" by (simp add: aux_ptr_ok_def aux_ptr_cut_def and_masks)
  have "aux_offset p AND 0x3FF AND 3 = aux_offset p AND 3" "drop_bit 2 (aux_offset p AND 0x3FF) AND 0xFF = drop_bit 2 (aux_offset p) AND 0xFF"
    by (rule bit_word_eqI, auto simp: m and_masks bit_simps)+
  then show "aux_ptr_encode (aux_ptr_cut p) = aux_ptr_encode p"
    by (simp add: aux_ptr_encode_def aux_ptr_cut_def and.assoc)
qed

lemma aux_ptr_cut_id: "aux_ptr_cut p = p \<longleftrightarrow> aux_ptr_ok p"
proof
  show "aux_ptr_cut p = p \<Longrightarrow> aux_ptr_ok p" using aux_ptr_cut_encode(1) [of p] by simp
next
  assume "aux_ptr_ok p"
  then show "aux_ptr_cut p = p"
    using aux_ptr_roundtrip [of p] aux_ptr_roundtrip [of "aux_ptr_cut p"] aux_ptr_cut_encode [of p] by metis
qed

lemma aux_ptr_cut_roundtrip:
  "aux_ptr_encode p = [x, y, z] \<Longrightarrow> aux_ptr_decode x y z = aux_ptr_cut p"
  using aux_ptr_roundtrip [OF aux_ptr_cut_encode(1), of p] by (simp add: aux_ptr_cut_encode(2))

lemma decode_ext_primary:
  assumes "length a = 6" "length ad = 2"
  shows "decode_ext_ind (a @ [m] @ ad @ aux_ptr_encode p) = Inr (AdvExtInd a m ad (aux_ptr_cut p))"
proof -
  obtain x y where ad: "ad = [x, y]"
    using assms(2) by (auto simp: numeral_eq_Suc length_Suc_conv)
  obtain e0 e1 e2 where e: "aux_ptr_encode p = [e0, e1, e2]"
    by (simp add: aux_ptr_encode_def)
  with assms(1) aux_ptr_cut_roundtrip [OF e] show ?thesis
    by (simp add: decode_ext_ind_def ad e nth_append)
qed

lemma take_drop_drop:
  "take 6 (drop 2 bs) @ drop 8 bs = drop 2 bs"
  "take 6 (drop 2 bs) @ take 6 (drop 8 bs) @ drop 14 bs = drop 2 (bs :: bytes)"
  using append_take_drop_id [of 6 "drop 2 bs"] append_take_drop_id [of 6 "drop 8 bs"]
  by (simp_all add: drop_drop)

lemma decode_ext_aux:
  assumes "length a = 6" "length ad = 2" "eh \<noteq> []"
  shows "decode_ext_ind (a @ ad @ eh @ d) = wire_view (AuxAdvExtIndWithEh a ad eh d)"
proof -
  obtain x y where ad: "ad = [x, y]"
    using assms(2) by (auto simp: numeral_eq_Suc length_Suc_conv)
  obtain a0 a1 a2 a3 a4 a5 where a: "a = [a0, a1, a2, a3, a4, a5]"
    using assms(1) by (auto simp: numeral_eq_Suc length_Suc_conv)
  obtain e0 r where e: "eh @ d = e0 # r" "eh ! 0 = e0" using assms(3) by (cases eh) auto
  consider "r = []" | "length r = 3" | r0 r' where "r = r0 # r'" "length r \<noteq> 3" by (cases r) auto
  then show ?thesis
  proof cases
    case 2
    then obtain r0 r1 r2 where "r = [r0, r1, r2]" by (auto simp: numeral_eq_Suc length_Suc_conv)
    with e show ?thesis by (simp add: decode_ext_ind_def ad a Let_def)
  next
    case 3
    have "drop (9 + unat e0) ([a0, a1, a2, a3, a4, a5, x, y, e0] @ r) = drop (unat e0) r"
      by (simp only: drop_append) simp
    with e 3 show ?thesis by (auto simp: decode_ext_ind_def ad a Let_def simp del: drop_append)
  qed (use e in \<open>auto simp: decode_ext_ind_def ad a Let_def\<close>)
qed

lemma decode_ext_aux_plain:
  assumes "length a = 6" "length ad = 2"
  shows "decode_ext_ind (a @ ad @ [1, t] @ d) = wire_view (AuxAdvExtInd a ad t d)"
  using decode_ext_aux [OF assms, of "[1, t]" d] by (auto simp: Let_def numeral_eq_Suc)

lemma payload_decode:
  assumes "adv_pdu_ok pdu" and "adv_hdr_ok h" and "unat (ah_len h) = length (payload_of pdu)"
    and "ah_pdu_type h = pdu_type pdu"
  shows "adv_pdu_decode (adv_hdr_encode h @ payload_of pdu) = wire_view pdu"
proof (cases pdu)
  case (AdvExtInd a m ad p)
  with assms show ?thesis
    using decode_ext_primary [of a ad m p] by (simp add: adv_pdu_decode_framed pdu_types)
next
  case (AuxAdvExtInd a ad t d)
  with assms show ?thesis
    using decode_ext_aux_plain [of a ad t d] by (simp add: adv_pdu_decode_framed pdu_types)
next
  case (AuxAdvExtIndWithEh a ad eh d)
  with assms show ?thesis
    using decode_ext_aux [of a ad eh d] by (simp add: adv_pdu_decode_framed pdu_types del: wire_view.simps)
next
  case (PeriodicAdv m ad)
  with assms show ?thesis
    by (cases ad; cases "tl ad") (auto simp: adv_pdu_decode_framed pdu_types decode_ext_ind_def)
qed (use assms in \<open>simp_all add: adv_pdu_decode_framed pdu_types\<close>)

section \<open>Properties\<close>

lemma encode_typed_decode:
  assumes "adv_pdu_ok pdu" and "encode_typed pdu out tx rx = Some (Inr (n, out'))"
  shows "adv_pdu_decode (take n out') = wire_view pdu"
proof -
  let ?n = "length (payload_of pdu)"
  let ?h = "\<lparr>ah_pdu_type = pdu_type pdu, ah_ch_sel = False, ah_tx_add = pdu_tx_add pdu tx,
      ah_rx_add = pdu_rx_add pdu rx, ah_len = of_nat ?n\<rparr>"
  from assms encode_typed_spec [OF assms(1), of out tx rx]
  have n: "?n \<le> 63" "n = 2 + ?n" and out': "take n out' = adv_hdr_encode ?h @ payload_of pdu"
    by (auto split: if_splits)
  have len: "unat (of_nat ?n :: u8) = ?n" using n(1) by (simp add: unat_of_nat)
  then have "adv_hdr_ok ?h"
    using n(1) pdu_type_less [of pdu]
    by (simp add: adv_hdr_ok_def word_less_nat_alt [of "of_nat ?n"])
  with payload_decode [OF assms(1), of ?h] len out' show ?thesis by simp
qed

text \<open>C22. What \<open>decode\<close> reads of every PDU that \<open>encode_typed\<close> writes, for every type, address-type
  flag and output buffer: \<open>wire_view\<close> of the PDU. A legacy PDU and periodic advertising always come
  back as themselves; a primary ADV_EXT_IND does exactly when the fields of its auxiliary pointer
  are within their widths, and an auxiliary packet exactly when it has not two octets of data (it
  is then read as a primary one); a packet with a custom extended header never does.\<close>

theorem adv_pdu_roundtrip:
  assumes "adv_pdu_ok pdu" and "encode_typed pdu out tx rx = Some (Inr (n, out'))"
  shows "adv_pdu_decode (take n out') = wire_view pdu \<and>
    (adv_pdu_decode (take n out') = Inr pdu \<longleftrightarrow>
      (case pdu of AdvExtInd a m ad p \<Rightarrow> aux_ptr_ok p | AuxAdvExtInd a ad t d \<Rightarrow> length d \<noteq> 2
       | AuxAdvExtIndWithEh a ad eh d \<Rightarrow> False | _ \<Rightarrow> True))"
  using encode_typed_decode [OF assms] by (cases pdu) (simp_all add: aux_ptr_cut_id Let_def)

theorem adv_pdu_roundtrip_witness:
  "adv_pdu_decode [0x83, 0x18, 1, 2, 3, 4, 5, 6, 6, 5, 4, 3, 2, 1] =
     Inr (ScanReq [1, 2, 3, 4, 5, 6] [6, 5, 4, 3, 2, 1])"
proof -
  have "encode_typed (ScanReq [1, 2, 3, 4, 5, 6] [6, 5, 4, 3, 2, 1]) (replicate 14 0) True False =
      Some (Inr (14, [0x83, 0x18, 1, 2, 3, 4, 5, 6, 6, 5, 4, 3, 2, 1]))"
    using encode_typed_spec [of "ScanReq [1, 2, 3, 4, 5, 6] [6, 5, 4, 3, 2, 1]" "replicate 14 0" True False]
    by (simp add: adv_hdr_encode_def pdu_types)
  from adv_pdu_roundtrip [OF _ this] show ?thesis by simp
qed

text \<open>Decoding loses nothing of a legacy PDU: when \<open>decode\<close> accepts a packet of a legacy
  type, the packet's type nibble is the type of the result and its payload is the
  concatenation of the result's fields, so no two payloads decode to the same PDU.\<close>

lemma adv_pdu_decode_lossless:
  assumes "adv_pdu_decode bs = Inr pdu" and "pdu_type pdu \<noteq> PDU_ADV_EXT_IND"
  shows "bs ! 0 AND 0x0F = pdu_type pdu \<and> payload_of pdu = drop 2 bs \<and> adv_pdu_ok pdu"
proof -
  from assms(1) obtain h where h: "adv_hdr_decode (bs ! 0) (bs ! 1) = Inr h"
    by (auto simp: adv_pdu_decode_def try_then_Inr split: if_splits)
  then have ty: "ah_pdu_type h = bs ! 0 AND 0x0F"
    by (auto simp: adv_hdr_decode_def Let_def split: if_splits)
  have "decode_ext_ind p = Inr pdu \<Longrightarrow> pdu_type pdu = PDU_ADV_EXT_IND" for p
    by (auto simp: decode_ext_ind_def Let_def split: if_splits)
  with assms h show ?thesis
    by (auto simp: adv_pdu_decode_def Let_def try_then_Inr split6_def ty min_def drop_drop
        take_drop_drop split: if_splits)
qed

text \<open>The CONNECT_REQ parameter block is a bijection between 22-byte payloads and parameter
  records in range: every 22-byte block decodes, to a record in range whose encoding is that
  block, and every record in range is what its own encoding decodes to.\<close>

lemma connect_req_bijection:
  "bij_betw connect_req_bytes {c. connect_req_ok c} {d. length d = CONNECT_LL_DATA_LEN} \<and>
   (\<forall>c d. connect_req_decode d = Inr c \<longleftrightarrow> connect_req_ok c \<and> connect_req_bytes c = d)"
proof -
  have dec: "connect_req_decode d = Inr c \<longleftrightarrow> connect_req_ok c \<and> connect_req_bytes c = d" for c d
    using connect_req_roundtrip connect_req_bytes_decode by blast
  have total: "\<exists>c. connect_req_decode d = Inr c" if "length d = CONNECT_LL_DATA_LEN" for d
    using that by (simp add: connect_req_decode_def)
  have "length (connect_req_bytes c) = CONNECT_LL_DATA_LEN" if "connect_req_ok c" for c
    using that by (simp add: connect_req_ok_def connect_req_bytes_def CONNECT_LL_DATA_LEN_def le16_def le32_def)
  moreover have "inj_on connect_req_bytes {c. connect_req_ok c}"
    by (rule inj_onI) (metis dec mem_Collect_eq sum.inject(2))
  ultimately have "bij_betw connect_req_bytes {c. connect_req_ok c} {d. length d = CONNECT_LL_DATA_LEN}"
    unfolding bij_betw_def using total dec by (auto simp: image_iff)
  with dec show ?thesis by blast
qed

text \<open>C32. Data channel PDUs: encoding fails exactly on a payload above 63 bytes or a short
  buffer, and otherwise the bytes written decode to the PDU that was encoded (the sequence
  bits, the more-data bit, the link-layer identifier and the payload).\<close>

theorem data_pdu_roundtrip:
  assumes "dp_llid p < 4"
  shows "case data_pdu_encode p out of
           Inl e \<Rightarrow> (e = InvalidLength \<and> 63 < length (dp_payload p)) \<or>
                    (e = BufferTooSmall \<and> length (dp_payload p) \<le> 63 \<and> length out < 2 + length (dp_payload p))
         | Inr (n, out') \<Rightarrow> n = 2 + length (dp_payload p) \<and> length out' = length out \<and>
                    drop n out' = drop n out \<and> data_pdu_decode (take n out') = Inr p"
proof (cases "length (dp_payload p) \<le> 63")
  case True
  then have len: "unat (of_nat (length (dp_payload p)) AND 0x3F :: u8) = length (dp_payload p)"
    using unat_and_3F [of "length (dp_payload p)"] by simp
  show ?thesis
    using True data_pdu_header_bits [OF assms]
    by (simp add: data_pdu_encode_def data_pdu_decode_def Let_def len) linarith
qed (simp add: data_pdu_encode_def)

theorem data_pdu_roundtrip_witness:
  "data_pdu_decode [0x0E, 2, 0x12, 0] =
     Inr \<lparr>dp_llid = 2, dp_nesn = True, dp_sn = True, dp_md = False, dp_payload = [0x12, 0]\<rparr>"
  using data_pdu_roundtrip [of "\<lparr>dp_llid = 2, dp_nesn = True, dp_sn = True, dp_md = False, dp_payload = [0x12, 0]\<rparr>"
      "replicate 4 0"]
  by (simp add: data_pdu_encode_def)

text \<open>The header that \<open>transmit_aux_adv\<close> builds for periodic advertising has the length octet 0, so the
  receiver takes it for data: the octets of the header come back in front of the data.\<close>

lemma aux_periodic_header_read_as_data:
  assumes "length info = 5" and "length a = 6" and "length ad = 2"
    and "encode_typed (AuxAdvExtIndWithEh a ad ([0, EXT_AD_PERIODIC] @ info) d) out tx rx = Some (Inr (n, out'))"
  shows "adv_pdu_decode (take n out') = Inr (AuxAdvExtInd a ad EXT_AD_PERIODIC ([EXT_AD_PERIODIC] @ info @ d))"
  using encode_typed_decode [OF _ assms(4)] assms(1-3) by (simp add: Let_def)

text \<open>A secondary advertising packet with two bytes of data has the 12-byte payload of a
  primary ADV_EXT_IND, and the decoder reads it as one: the data is taken for the
  auxiliary pointer.\<close>

lemma aux_packet_read_as_primary:
  "adv_pdu_decode (adv_hdr_encode \<lparr>ah_pdu_type = PDU_ADV_EXT_IND, ah_ch_sel = False, ah_tx_add = False,
      ah_rx_add = False, ah_len = 12\<rparr> @ payload_of (AuxAdvExtInd [1, 2, 3, 4, 5, 6] [7, 8] 9 [0x0A, 0x0B])) =
   Inr (AdvExtInd [1, 2, 3, 4, 5, 6] 7 [8, 1] \<lparr>aux_channel = 9, aux_offset = 40, aux_phy = 3\<rparr>)"
  by (simp add: adv_pdu_decode_def adv_hdr_encode_def adv_hdr_decode_def Let_def decode_ext_ind_def
      pdu_types aux_ptr_decode_def)

lemma periodic_adv_info_roundtrip:
  "length (pai_adi i) = 2 \<Longrightarrow> periodic_adv_info_decode (periodic_adv_info_encode i @ rest) = Some i"
proof -
  assume "length (pai_adi i) = 2"
  then obtain x y where adi: "pai_adi i = [x, y]"
    by (auto simp: numeral_eq_Suc length_Suc_conv)
  have "ucast (pai_interval i AND 0xFF) = (ucast (pai_interval i) :: u8)"
    by (rule bit_word_eqI) (auto simp: and_masks bit_simps)
  with adi show ?thesis
    by (simp add: periodic_adv_info_decode_def periodic_adv_info_encode_def)
qed

end
