(* ===== verification/Bond.thy ===== *)
theory Bond
  imports Ble_Prelude "HOL-Library.Multiset"
begin

text \<open>Bond storage: the trait \<open>BondStore\<close> and \<open>RamBondStore\<close> of \<^verbatim>\<open>src/hw/conn.rs\<close> and the
  flash-backed store of \<^verbatim>\<open>src/hw/bond_flash.rs\<close>. The flash is a memory and the mode of the
  NVMC's CONFIG register; what the controller does on an erase and on a store is a parameter.
  No law is assumed of it: the controller documents stores of aligned 32-bit words only, and
  \<open>flush\<close> stores the records byte by byte, so what survives a reset is not the code's to promise.
  What is shown of the flash store is its cache and the layout of its page. Waiting for the READY
  register changes no state and is left out.\<close>

section \<open>Bonds and their slots\<close>

record bond_info =
  bi_addr :: bytes
  bi_ltk :: bytes
  bi_irk :: "bytes option"

lemma bond_info_eta [simp]: "\<lparr>bi_addr = bi_addr b, bi_ltk = bi_ltk b, bi_irk = bi_irk b\<rparr> = b"
  by (cases b) simp

type_synonym slots = "bond_info option list"

text \<open>The two loops of \<open>save\<close>, which both stores have: replace the bond of the peer, or else
  take the first empty slot. \<open>None\<close> is a loop that ran to its end.\<close>

fun replace_slot :: "bond_info \<Rightarrow> slots \<Rightarrow> slots option" where
  "replace_slot info [] = None"
| "replace_slot info (Some b # ss) =
     (if bi_addr b = bi_addr info then Some (Some info # ss)
      else map_option ((#) (Some b)) (replace_slot info ss))"
| "replace_slot info (None # ss) = map_option ((#) None) (replace_slot info ss)"

fun fill_slot :: "bond_info \<Rightarrow> slots \<Rightarrow> slots option" where
  "fill_slot info [] = None"
| "fill_slot info (None # ss) = Some (Some info # ss)"
| "fill_slot info (Some b # ss) = map_option ((#) (Some b)) (fill_slot info ss)"

definition save_slots :: "bond_info \<Rightarrow> slots \<Rightarrow> slots option" where
  "save_slots info ss = (case replace_slot info ss of Some ss' \<Rightarrow> Some ss' | None \<Rightarrow> fill_slot info ss)"

definition find_slots :: "slots \<Rightarrow> bytes \<Rightarrow> bond_info option" where
  "find_slots ss peer = List.find (\<lambda>b. bi_addr b = peer) (List.map_filter id ss)"

section \<open>The store in RAM\<close>

record ram_bond_store =
  rb_bonds :: slots

definition ram_new :: ram_bond_store where
  "ram_new = \<lparr>rb_bonds = replicate 8 None\<rparr>"

definition ram_save :: "ram_bond_store \<Rightarrow> bytes \<Rightarrow> bytes \<Rightarrow> bytes option \<Rightarrow> ram_bond_store" where
  "ram_save s peer ltk irk =
     (let info = \<lparr>bi_addr = peer, bi_ltk = ltk, bi_irk = irk\<rparr> in
      case save_slots info (rb_bonds s) of
        Some ss \<Rightarrow> s\<lparr>rb_bonds := ss\<rparr>
      | None \<Rightarrow> s)"

definition ram_find :: "ram_bond_store \<Rightarrow> bytes \<Rightarrow> bond_info option" where
  "ram_find s peer = find_slots (rb_bonds s) peer"

section \<open>Records in flash\<close>

definition BOND_PAGE_MAGIC :: u32 where "BOND_PAGE_MAGIC = 0x4E423144"
definition BOND_PAGE_SIZE :: u32 where "BOND_PAGE_SIZE = 4096"
definition BOND_MAX :: nat where "BOND_MAX = 8"
definition BOND_RECORD_LEN :: nat where "BOND_RECORD_LEN = 44"

lemmas bond_consts = BOND_PAGE_MAGIC_def BOND_PAGE_SIZE_def BOND_MAX_def BOND_RECORD_LEN_def

definition encode_record :: "bond_info \<Rightarrow> bytes" where
  "encode_record b =
     map ((!) (bi_addr b)) [0..<6] @ [0] @ bi_ltk b @ [of_bool (bi_irk b \<noteq> None)] @
     (case bi_irk b of Some irk \<Rightarrow> irk | None \<Rightarrow> replicate 16 0) @ le32 0xA5A55A5A"

definition decode_record :: "bytes \<Rightarrow> bond_info option" where
  "decode_record rec =
     (if take 4 (drop 40 rec) \<noteq> le32 0xA5A55A5A then None
      else Some \<lparr>bi_addr = take 6 rec, bi_ltk = take 16 (drop 7 rec),
             bi_irk = (if rec ! 23 \<noteq> 0 then Some (take 16 (drop 24 rec)) else None)\<rparr>)"

section \<open>The store in flash\<close>

datatype nvmc_mode = Ren | Wen | Een

record flash =
  fl_mem :: "u32 \<Rightarrow> u8"
  fl_mode :: nvmc_mode

record nvmc =
  nv_erasepage :: "u32 \<Rightarrow> flash \<Rightarrow> flash"
  nv_write8 :: "u32 \<Rightarrow> u8 \<Rightarrow> flash \<Rightarrow> flash"
  nv_write32 :: "u32 \<Rightarrow> u32 \<Rightarrow> flash \<Rightarrow> flash"

record flash_bond_store =
  fb_base :: u32
  fb_cache :: slots
  fb_flash :: flash

definition read_bytes :: "flash \<Rightarrow> u32 \<Rightarrow> nat \<Rightarrow> bytes" where
  "read_bytes f a n = map (\<lambda>j. fl_mem f (a + of_nat j)) [0..<n]"

definition rec_addr :: "u32 \<Rightarrow> nat \<Rightarrow> u32" where
  "rec_addr base i = base + 4 + of_nat i * of_nat BOND_RECORD_LEN"

definition load_page :: "flash_bond_store \<Rightarrow> flash_bond_store" where
  "load_page s =
     (let f = fb_flash s; a = fb_base s;
          magic = of_le32 (fl_mem f a) (fl_mem f (a + 1)) (fl_mem f (a + 2)) (fl_mem f (a + 3)) in
      if magic \<noteq> BOND_PAGE_MAGIC then s
      else s\<lparr>fb_cache := map (\<lambda>i. decode_record (read_bytes f (rec_addr a i) BOND_RECORD_LEN)) [0..<BOND_MAX]\<rparr>)"

definition flash_open :: "u32 \<Rightarrow> flash \<Rightarrow> flash_bond_store" where
  "flash_open base f = load_page \<lparr>fb_base = base, fb_cache = replicate BOND_MAX None, fb_flash = f\<rparr>"

fun write_bytes :: "nvmc \<Rightarrow> u32 \<Rightarrow> bytes \<Rightarrow> flash \<Rightarrow> flash" where
  "write_bytes nv a [] f = f"
| "write_bytes nv a (b # bs) f = write_bytes nv (a + 1) bs (nv_write8 nv a b f)"

fun write_records :: "nvmc \<Rightarrow> u32 \<Rightarrow> nat \<Rightarrow> slots \<Rightarrow> flash \<Rightarrow> flash" where
  "write_records nv base i [] f = f"
| "write_records nv base i (s # ss) f =
     write_records nv base (i + 1) ss
       (case s of Some b \<Rightarrow> write_bytes nv (rec_addr base i) (encode_record b) f | None \<Rightarrow> f)"

definition flush :: "nvmc \<Rightarrow> flash_bond_store \<Rightarrow> flash_bond_store" where
  "flush nv s =
     (let f = fb_flash s;
          f = f\<lparr>fl_mode := Een\<rparr>;
          f = nv_erasepage nv (fb_base s) f;
          f = f\<lparr>fl_mode := Wen\<rparr>;
          f = nv_write32 nv (fb_base s) BOND_PAGE_MAGIC f;
          f = write_records nv (fb_base s) 0 (fb_cache s) f;
          f = f\<lparr>fl_mode := Ren\<rparr>
      in s\<lparr>fb_flash := f\<rparr>)"

definition flash_save :: "nvmc \<Rightarrow> flash_bond_store \<Rightarrow> bytes \<Rightarrow> bytes \<Rightarrow> bytes option \<Rightarrow> flash_bond_store" where
  "flash_save nv s peer ltk irk =
     (let info = \<lparr>bi_addr = peer, bi_ltk = ltk, bi_irk = irk\<rparr> in
      case save_slots info (fb_cache s) of
        Some ss \<Rightarrow> flush nv (s\<lparr>fb_cache := ss\<rparr>)
      | None \<Rightarrow> s)"

definition flash_find :: "flash_bond_store \<Rightarrow> bytes \<Rightarrow> bond_info option" where
  "flash_find s peer = find_slots (fb_cache s) peer"

section \<open>The interface of a bond store\<close>

text \<open>The laws behind the trait: a store is a finite map from peers to bonds with a capacity;
  saving a known peer replaces its bond, saving a new one adds it while there is room, and
  nothing else changes.\<close>

locale bond_store =
  fixes save :: "'s \<Rightarrow> bytes \<Rightarrow> bytes \<Rightarrow> bytes option \<Rightarrow> 's"
    and find :: "'s \<Rightarrow> bytes \<Rightarrow> bond_info option"
    and invar :: "'s \<Rightarrow> bool"
    and capacity :: nat
  assumes invar_save: "invar s \<Longrightarrow> invar (save s p ltk irk)"
    and find_save: "invar s \<Longrightarrow>
      find (save s p ltk irk) =
        (if p \<in> dom (find s) \<or> card (dom (find s)) < capacity
         then (find s)(p \<mapsto> \<lparr>bi_addr = p, bi_ltk = ltk, bi_irk = irk\<rparr>) else find s)"
    and bounded: "invar s \<Longrightarrow> finite (dom (find s)) \<and> card (dom (find s)) \<le> capacity"
    and find_addr: "invar s \<Longrightarrow> find s p = Some b \<Longrightarrow> bi_addr b = p"
begin

definition save_all :: "'s \<Rightarrow> bond_info list \<Rightarrow> 's" where
  "save_all = foldl (\<lambda>s b. save s (bi_addr b) (bi_ltk b) (bi_irk b))"

lemma save_all_simps [simp]:
  "save_all s [] = s" "save_all s (b # bs) = save_all (save s (bi_addr b) (bi_ltk b) (bi_irk b)) bs"
  by (simp_all add: save_all_def)

lemma invar_save_all: "invar s \<Longrightarrow> invar (save_all s bs)"
  by (induction bs arbitrary: s) (simp_all add: invar_save)

lemma find_save_all:
  assumes "invar s" and "card (dom (find s) \<union> bi_addr ` set bs) \<le> capacity"
  shows "find (save_all s bs) = find s ++ map_of (rev (map (\<lambda>b. (bi_addr b, b)) bs))"
  using assms
proof (induction bs arbitrary: s)
  case (Cons b bs)
  let ?s = "save s (bi_addr b) (bi_ltk b) (bi_irk b)"
  have fin: "finite (dom (find s))" using bounded Cons.prems(1) by blast
  have "bi_addr b \<in> dom (find s) \<or> card (dom (find s)) < capacity"
  proof (rule disjCI)
    assume "\<not> card (dom (find s)) < capacity"
    moreover have "card (insert (bi_addr b) (dom (find s))) \<le> card (dom (find s) \<union> bi_addr ` set (b # bs))"
      using fin by (intro card_mono) auto
    ultimately show "bi_addr b \<in> dom (find s)"
      using Cons.prems(2) fin by (cases "bi_addr b \<in> dom (find s)") (auto simp: card_insert_if)
  qed
  then have "find ?s = (find s)(bi_addr b \<mapsto> b)"
    using find_save [OF Cons.prems(1)] by simp
  moreover from this have "dom (find ?s) \<union> bi_addr ` set bs = dom (find s) \<union> bi_addr ` set (b # bs)"
    by auto
  with Cons.IH [of ?s] Cons.prems invar_save have
    "find (save_all ?s bs) = find ?s ++ map_of (rev (map (\<lambda>b. (bi_addr b, b)) bs))"
    by simp
  ultimately show ?case
    by (auto simp: map_add_def fun_eq_iff split: option.split)
qed simp

text \<open>The last bond saved for a peer is the one that is found.\<close>

lemma find_last_saved:
  assumes "invar s" and "card (dom (find s) \<union> bi_addr ` set (bs @ b # cs)) \<le> capacity"
    and "bi_addr b \<notin> bi_addr ` set cs"
  shows "find (save_all s (bs @ b # cs)) (bi_addr b) = Some b"
proof -
  have "map_of (rev (map (\<lambda>b. (bi_addr b, b)) cs)) (bi_addr b) = None"
    using assms(3) by (auto simp: map_of_eq_None_iff)
  with find_save_all [OF assms(1,2)] show ?thesis
    by (simp add: map_add_def)
qed

end

section \<open>Slots as a map\<close>

definition slots_ok :: "slots \<Rightarrow> bool" where
  "slots_ok ss \<longleftrightarrow> length ss = 8 \<and> distinct (map bi_addr (List.map_filter id ss))"

lemma map_filter_id_simps [simp]:
  "List.map_filter id [] = []" "List.map_filter id (None # ss) = List.map_filter id ss"
  "List.map_filter id (Some b # ss) = b # List.map_filter id ss"
  by (simp_all add: List.map_filter_simps)

lemma find_slots_simps [simp]:
  "find_slots [] p = None" "find_slots (None # ss) p = find_slots ss p"
  "find_slots (Some b # ss) p = (if bi_addr b = p then Some b else find_slots ss p)"
  by (simp_all add: find_slots_def)

lemma dom_find_slots: "dom (find_slots ss) = bi_addr ` set (List.map_filter id ss)"
proof (induction ss)
  case (Cons s ss)
  then show ?case by (cases s) (auto simp: dom_def image_iff split: if_splits)
qed (simp add: dom_def)

lemma replace_slot_None: "replace_slot info ss = None \<longleftrightarrow> bi_addr info \<notin> dom (find_slots ss)"
  by (induction info ss rule: replace_slot.induct) auto

lemma replace_slot_find:
  "replace_slot info ss = Some ss' \<Longrightarrow> find_slots ss' = (find_slots ss)(bi_addr info \<mapsto> info)"
  by (induction info ss arbitrary: ss' rule: replace_slot.induct) (auto simp: fun_eq_iff split: if_splits)

lemma replace_slot_addrs:
  "replace_slot info ss = Some ss' \<Longrightarrow>
     map bi_addr (List.map_filter id ss') = map bi_addr (List.map_filter id ss) \<and> length ss' = length ss"
  by (induction info ss arbitrary: ss' rule: replace_slot.induct) (auto split: if_splits)

lemma fill_slot_None: "fill_slot info ss = None \<longleftrightarrow> None \<notin> set ss"
  by (induction info ss rule: fill_slot.induct) auto

lemma fill_slot_find:
  "fill_slot info ss = Some ss' \<Longrightarrow> bi_addr info \<notin> dom (find_slots ss) \<Longrightarrow>
     find_slots ss' = (find_slots ss)(bi_addr info \<mapsto> info)"
  by (induction info ss arbitrary: ss' rule: fill_slot.induct)
    (auto simp: fun_eq_iff domIff split: if_splits)

lemma fill_slot_addrs:
  "fill_slot info ss = Some ss' \<Longrightarrow>
     mset (map bi_addr (List.map_filter id ss')) =
       add_mset (bi_addr info) (mset (map bi_addr (List.map_filter id ss))) \<and> length ss' = length ss"
  by (induction info ss arbitrary: ss' rule: fill_slot.induct) auto

lemma length_map_filter_id: "length (List.map_filter id ss) + count_list ss None = length ss"
  by (induction ss) (auto split: option.split simp: List.map_filter_simps)

lemma card_dom_find_slots: "slots_ok ss \<Longrightarrow> card (dom (find_slots ss)) = length (List.map_filter id ss)"
  unfolding dom_find_slots slots_ok_def by (metis distinct_card length_map set_map)

lemma slots_full: "slots_ok ss \<Longrightarrow> None \<notin> set ss \<longleftrightarrow> \<not> card (dom (find_slots ss)) < 8"
  using length_map_filter_id [of ss] count_list_0_iff [of ss None]
  by (simp add: card_dom_find_slots slots_ok_def) linarith

lemma save_slots_ok:
  assumes "slots_ok ss" "save_slots info ss = Some ss'"
  shows "slots_ok ss'"
proof (cases "replace_slot info ss")
  case None
  with assms(2) have f: "fill_slot info ss = Some ss'" by (simp add: save_slots_def)
  have "bi_addr info \<notin> set (map bi_addr (List.map_filter id ss))"
    using None by (simp add: replace_slot_None dom_find_slots)
  with fill_slot_addrs [OF f] assms(1) show ?thesis
    unfolding slots_ok_def by (metis distinct.simps(2) mset.simps(2) mset_eq_imp_distinct_iff)
next
  case (Some x)
  with assms replace_slot_addrs [OF Some] show ?thesis by (simp add: save_slots_def slots_ok_def)
qed

lemma save_slots_find:
  assumes "slots_ok ss"
  shows "find_slots (case save_slots info ss of Some ss' \<Rightarrow> ss' | None \<Rightarrow> ss) =
    (if bi_addr info \<in> dom (find_slots ss) \<or> card (dom (find_slots ss)) < 8
     then (find_slots ss)(bi_addr info \<mapsto> info) else find_slots ss)"
proof (cases "replace_slot info ss")
  case None
  then have "bi_addr info \<notin> dom (find_slots ss)" by (simp add: replace_slot_None)
  with None slots_full [OF assms] fill_slot_None [of info ss] fill_slot_find [of info ss] show ?thesis
    by (cases "fill_slot info ss") (simp_all add: save_slots_def)
next
  case (Some x)
  then have "bi_addr info \<in> dom (find_slots ss)"
    using replace_slot_None [of info ss] by auto
  with Some replace_slot_find [OF Some] show ?thesis by (simp add: save_slots_def)
qed

lemma replace_slot_set: "replace_slot info ss = Some ss' \<Longrightarrow> set ss' \<subseteq> insert (Some info) (set ss)"
  by (induction info ss arbitrary: ss' rule: replace_slot.induct) (auto split: if_splits)

lemma fill_slot_set: "fill_slot info ss = Some ss' \<Longrightarrow> set ss' \<subseteq> insert (Some info) (set ss)"
  by (induction info ss arbitrary: ss' rule: fill_slot.induct) auto

lemma save_slots_set: "save_slots info ss = Some ss' \<Longrightarrow> set ss' \<subseteq> insert (Some info) (set ss)"
  using replace_slot_set fill_slot_set by (auto simp: save_slots_def split: option.splits)

lemma slots_bounded: "slots_ok ss \<Longrightarrow> finite (dom (find_slots ss)) \<and> card (dom (find_slots ss)) \<le> 8"
  using length_map_filter_id [of ss]
  by (simp add: card_dom_find_slots) (simp add: dom_find_slots slots_ok_def)

lemma find_slots_addr: "find_slots ss p = Some b \<Longrightarrow> bi_addr b = p"
  by (auto simp: find_slots_def find_Some_iff)

section \<open>Both stores implement the interface\<close>

definition ram_ok :: "ram_bond_store \<Rightarrow> bool" where
  "ram_ok s \<longleftrightarrow> slots_ok (rb_bonds s)"

definition flash_ok :: "flash_bond_store \<Rightarrow> bool" where
  "flash_ok s \<longleftrightarrow> slots_ok (fb_cache s)"

lemma ram_save_bonds:
  "rb_bonds (ram_save s p l i) =
     (case save_slots \<lparr>bi_addr = p, bi_ltk = l, bi_irk = i\<rparr> (rb_bonds s) of Some ss \<Rightarrow> ss | None \<Rightarrow> rb_bonds s)"
  by (simp add: ram_save_def Let_def split: option.split)

lemma flash_save_cache:
  "fb_cache (flash_save nv s p l i) =
     (case save_slots \<lparr>bi_addr = p, bi_ltk = l, bi_irk = i\<rparr> (fb_cache s) of Some ss \<Rightarrow> ss | None \<Rightarrow> fb_cache s)"
  by (simp add: flash_save_def Let_def flush_def split: option.split)

lemma ram_new_ok: "ram_ok ram_new"
  by (simp add: ram_ok_def ram_new_def slots_ok_def numeral_eq_Suc)

interpretation ram: bond_store ram_save ram_find ram_ok 8
proof unfold_locales
  fix s p ltk irk b
  assume ok: "ram_ok s"
  then have ss: "slots_ok (rb_bonds s)" by (simp add: ram_ok_def)
  have f: "ram_find t = find_slots (rb_bonds t)" for t by (simp add: ram_find_def fun_eq_iff)
  show "ram_ok (ram_save s p ltk irk)"
    using ss save_slots_ok by (auto simp: ram_ok_def ram_save_bonds split: option.split)
  show "ram_find (ram_save s p ltk irk) =
      (if p \<in> dom (ram_find s) \<or> card (dom (ram_find s)) < 8
       then (ram_find s)(p \<mapsto> \<lparr>bi_addr = p, bi_ltk = ltk, bi_irk = irk\<rparr>) else ram_find s)"
    using save_slots_find [OF ss] by (simp add: f ram_save_bonds)
  show "finite (dom (ram_find s)) \<and> card (dom (ram_find s)) \<le> 8"
    using slots_bounded [OF ss] by (simp add: f)
  show "bi_addr b = p" if "ram_find s p = Some b"
    using that find_slots_addr by (simp add: f)
qed

interpretation fb: bond_store "flash_save nv" flash_find flash_ok 8 for nv
proof unfold_locales
  fix s p ltk irk b
  assume ok: "flash_ok s"
  then have ss: "slots_ok (fb_cache s)" by (simp add: flash_ok_def)
  have f: "flash_find t = find_slots (fb_cache t)" for t by (simp add: flash_find_def fun_eq_iff)
  show "flash_ok (flash_save nv s p ltk irk)"
    using ss save_slots_ok by (auto simp: flash_ok_def flash_save_cache split: option.split)
  show "flash_find (flash_save nv s p ltk irk) =
      (if p \<in> dom (flash_find s) \<or> card (dom (flash_find s)) < 8
       then (flash_find s)(p \<mapsto> \<lparr>bi_addr = p, bi_ltk = ltk, bi_irk = irk\<rparr>) else flash_find s)"
    using save_slots_find [OF ss] by (simp add: f flash_save_cache)
  show "finite (dom (flash_find s)) \<and> card (dom (flash_find s)) \<le> 8"
    using slots_bounded [OF ss] by (simp add: f)
  show "bi_addr b = p" if "flash_find s p = Some b"
    using that find_slots_addr by (simp add: f)
qed

section \<open>The flash page\<close>

definition bond_ok :: "bond_info \<Rightarrow> bool" where
  "bond_ok b \<longleftrightarrow> length (bi_addr b) = 6 \<and> length (bi_ltk b) = 16 \<and> (\<forall>irk. bi_irk b = Some irk \<longrightarrow> length irk = 16)"

definition page :: "u32 \<Rightarrow> flash \<Rightarrow> nat \<Rightarrow> u8" where
  "page base f k = fl_mem f (base + of_nat k)"

lemma length_encode_record: "bond_ok b \<Longrightarrow> length (encode_record b) = 44"
  by (auto simp: bond_ok_def encode_record_def split: option.split)

lemma decode_encode_record:
  assumes "bond_ok b"
  shows "decode_record (encode_record b) = Some b"
proof -
  have addr: "map ((!) (bi_addr b)) [0..<6] = bi_addr b"
    using assms map_nth [of "bi_addr b"] by (simp add: bond_ok_def)
  show ?thesis
  proof (cases "bi_irk b")
    case None
    with assms have "\<lparr>bi_addr = bi_addr b, bi_ltk = bi_ltk b, bi_irk = None\<rparr> = b"
      by (metis bond_info_eta)
    with None assms addr show ?thesis
      by (simp add: decode_record_def encode_record_def bond_ok_def nth_append)
  next
    case (Some irk)
    with assms have "\<lparr>bi_addr = bi_addr b, bi_ltk = bi_ltk b, bi_irk = Some irk\<rparr> = b"
      by (metis bond_info_eta)
    with Some assms addr show ?thesis
      by (simp add: decode_record_def encode_record_def bond_ok_def nth_append)
  qed
qed

lemma decode_erased: "decode_record (replicate 44 0xFF) = None"
proof -
  have "hd (replicate 4 (0xFF :: u8)) \<noteq> hd (le32 0xA5A55A5A)"
    by (simp add: le32_def)
  then have "replicate 4 (0xFF :: u8) \<noteq> le32 0xA5A55A5A" by metis
  then show ?thesis by (simp add: decode_record_def)
qed

lemma page_address_eq:
  fixes base :: u32
  assumes "k < 4096" "k' < 4096"
  shows "base + of_nat k = base + of_nat k' \<longleftrightarrow> k = k'"
proof
  assume "base + of_nat k = base + of_nat k'"
  then have "unat (of_nat k :: u32) = unat (of_nat k' :: u32)" by simp
  with assms show "k = k'" by (simp add: unat_of_nat)
qed simp

lemma rec_addr_page: "rec_addr base i + of_nat j = base + of_nat (4 + 44 * i + j)"
  by (simp add: rec_addr_def BOND_RECORD_LEN_def algebra_simps)

text \<open>The bytes that \<open>flush\<close> stores: its effect on a memory in which every store simply lands.\<close>

definition plain_memory :: nvmc where
  "plain_memory =
     \<lparr>nv_erasepage = \<lambda>a f. f\<lparr>fl_mem := \<lambda>x. if unat (x - a) < 4096 then 0xFF else fl_mem f x\<rparr>,
      nv_write8 = \<lambda>a v f. f\<lparr>fl_mem := (fl_mem f)(a := v)\<rparr>,
      nv_write32 = \<lambda>a v f. f\<lparr>fl_mem := \<lambda>x. if unat (x - a) < 4 then le32 v ! unat (x - a) else fl_mem f x\<rparr>\<rparr>"

lemma write_bytes_page:
  "p + length bs \<le> 4096 \<Longrightarrow> k < 4096 \<Longrightarrow>
    page base (write_bytes plain_memory (base + of_nat p) bs f) k =
      (if p \<le> k \<and> k < p + length bs then bs ! (k - p) else page base f k)"
proof (induction bs arbitrary: p f)
  case (Cons b bs)
  let ?f = "nv_write8 plain_memory (base + of_nat p) b f"
  have "page base ?f k = (if k = p then b else page base f k)"
    using page_address_eq [of k p base] Cons.prems by (simp add: plain_memory_def page_def)
  moreover have "write_bytes plain_memory (base + of_nat p) (b # bs) f = write_bytes plain_memory (base + of_nat (Suc p)) bs ?f"
    by (simp add: algebra_simps)
  ultimately show ?case
    using Cons.IH [of "Suc p" ?f] Cons.prems by (auto simp: nth_Cons' not_less_eq_eq)
qed auto

lemma write_records_page:
  "i + length ss \<le> 8 \<Longrightarrow> \<forall>b. Some b \<in> set ss \<longrightarrow> bond_ok b \<Longrightarrow>
    (\<forall>k < 4. page base (write_records plain_memory base i ss f) k = page base f k) \<and>
    (\<forall>n < 8. \<forall>j < 44. page base (write_records plain_memory base i ss f) (4 + 44 * n + j) =
      (if i \<le> n \<and> n < i + length ss
       then case ss ! (n - i) of None \<Rightarrow> page base f (4 + 44 * n + j) | Some b \<Rightarrow> encode_record b ! j
       else page base f (4 + 44 * n + j)))"
proof (induction ss arbitrary: i f)
  case (Cons s ss)
  define f' where "f' = (case s of Some b \<Rightarrow> write_bytes plain_memory (rec_addr base i) (encode_record b) f | None \<Rightarrow> f)"
  have f': "(\<forall>k < 4. page base f' k = page base f k) \<and>
    (\<forall>n < 8. \<forall>j < 44. page base f' (4 + 44 * n + j) = (if n = i then case s of None \<Rightarrow> page base f (4 + 44 * n + j)
      | Some b \<Rightarrow> encode_record b ! j else page base f (4 + 44 * n + j)))"
  proof (cases s)
    case (Some b)
    with Cons.prems have b: "length (encode_record b) = 44" by (simp add: length_encode_record)
    have "write_bytes plain_memory (rec_addr base i) (encode_record b) f =
        write_bytes plain_memory (base + of_nat (4 + 44 * i)) (encode_record b) f"
      using rec_addr_page [of base i 0] by simp
    moreover have "(4 + 44 * i \<le> 4 + 44 * n + j \<and> 4 + 44 * n + j < 4 + 44 * i + 44) = (n = i)" if "j < 44" for n j
      using that by auto
    ultimately show ?thesis
      using write_bytes_page [of "4 + 44 * i" "encode_record b" _ base f] Cons.prems(1) b
      by (simp add: f'_def Some)
  qed (auto simp: f'_def)
  then show ?case
    using Cons.IH [of "Suc i" f'] Cons.prems
    by (auto simp: f'_def [symmetric] nth_Cons' not_less_eq_eq le_Suc_eq split: option.split)
qed auto

lemma flush_page:
  assumes "length (fb_cache s) = 8" and "\<forall>b. Some b \<in> set (fb_cache s) \<longrightarrow> bond_ok b"
  defines "f \<equiv> fb_flash (flush plain_memory s)"
  shows "k < 4 \<Longrightarrow> page (fb_base s) f k = le32 BOND_PAGE_MAGIC ! k"
    and "n < 8 \<Longrightarrow> j < 44 \<Longrightarrow> page (fb_base s) f (4 + 44 * n + j) =
      (case fb_cache s ! n of None \<Rightarrow> 0xFF | Some b \<Rightarrow> encode_record b ! j)"
proof -
  let ?a = "fb_base s"
  define g where "g = nv_write32 plain_memory ?a BOND_PAGE_MAGIC
    ((nv_erasepage plain_memory ?a (fb_flash s\<lparr>fl_mode := Een\<rparr>))\<lparr>fl_mode := Wen\<rparr>)"
  have "f = (write_records plain_memory ?a 0 (fb_cache s) g)\<lparr>fl_mode := Ren\<rparr>"
    by (simp add: f_def flush_def g_def Let_def)
  then have fp: "page ?a f = page ?a (write_records plain_memory ?a 0 (fb_cache s) g)"
    by (simp add: page_def fun_eq_iff)
  have g: "k < 4096 \<Longrightarrow> page ?a g k = (if k < 4 then le32 BOND_PAGE_MAGIC ! k else 0xFF)" for k
    by (simp add: g_def plain_memory_def page_def unat_of_nat)
  show "page ?a f k = le32 BOND_PAGE_MAGIC ! k" if "k < 4"
    using write_records_page [of 0 "fb_cache s" ?a g] that assms(1,2) g by (simp add: fp)
  show "page ?a f (4 + 44 * n + j) = (case fb_cache s ! n of None \<Rightarrow> 0xFF | Some b \<Rightarrow> encode_record b ! j)"
    if "n < 8" "j < 44"
    using write_records_page [of 0 "fb_cache s" ?a g] that assms(1,2) g [of "4 + 44 * n + j"]
    by (simp add: fp split: option.split)
qed

text \<open>A page that holds these bytes is read back as the cache they were written from.\<close>

lemma flash_open_image:
  assumes "length (fb_cache s) = 8" and "\<forall>b. Some b \<in> set (fb_cache s) \<longrightarrow> bond_ok b"
    and "\<forall>k < 356. page (fb_base s) f k = page (fb_base s) (fb_flash (flush plain_memory s)) k"
  shows "flash_open (fb_base s) f = \<lparr>fb_base = fb_base s, fb_cache = fb_cache s, fb_flash = f\<rparr>"
proof -
  let ?a = "fb_base s"
  have page: "k < 4 \<Longrightarrow> page ?a f k = le32 BOND_PAGE_MAGIC ! k" for k
    using flush_page(1) [OF assms(1,2)] assms(3) by simp
  have rec: "n < 8 \<Longrightarrow> j < 44 \<Longrightarrow> page ?a f (4 + 44 * n + j) = (case fb_cache s ! n of None \<Rightarrow> 0xFF | Some b \<Rightarrow> encode_record b ! j)"
    for n j
    using flush_page(2) [OF assms(1,2)] assms(3) by simp
  have "of_le32 (fl_mem f ?a) (fl_mem f (?a + 1)) (fl_mem f (?a + 2)) (fl_mem f (?a + 3)) = BOND_PAGE_MAGIC"
    using page [of 0] page [of 1] page [of 2] page [of 3] by (simp add: page_def le32_def)
  moreover have "decode_record (read_bytes f (rec_addr ?a n) 44) = fb_cache s ! n" if n: "n < 8" for n
  proof -
    have ok: "bond_ok b" if "fb_cache s ! n = Some b" for b
      using assms(1,2) n that by (metis nth_mem)
    have "read_bytes f (rec_addr ?a n) 44 =
        (case fb_cache s ! n of None \<Rightarrow> replicate 44 0xFF | Some b \<Rightarrow> encode_record b)"
      using rec [OF n]
      by (intro nth_equalityI)
        (auto simp: read_bytes_def rec_addr_page page_def length_encode_record ok split: option.splits
          simp del: of_nat_add of_nat_mult)
    then show ?thesis
      by (auto simp: decode_erased decode_encode_record ok split: option.split)
  qed
  then have "map (\<lambda>i. decode_record (read_bytes f (rec_addr ?a i) BOND_RECORD_LEN)) [0..<BOND_MAX] = fb_cache s"
    using assms(1) by (intro nth_equalityI) (simp_all add: bond_consts)
  ultimately show ?thesis
    by (simp add: flash_open_def load_page_def Let_def)
qed

section \<open>Properties\<close>

text \<open>C37. The RAM bond store is a map with a capacity: after any sequence of \<open>save\<close>s of at most
  eight different peers, \<open>find\<close> returns for each peer the bond saved last and nothing for a
  peer that was never saved; and once eight peers are stored, saving a ninth changes
  nothing.\<close>

theorem ram_bond_store_is_map:
  assumes "card (bi_addr ` set bs) \<le> 8"
  shows "let s = foldl (\<lambda>s b. ram_save s (bi_addr b) (bi_ltk b) (bi_irk b)) ram_new bs in
    ram_find s = map_of (rev (map (\<lambda>b. (bi_addr b, b)) bs)) \<and>
    (card (bi_addr ` set bs) = 8 \<longrightarrow> p \<notin> bi_addr ` set bs \<longrightarrow> ram_find (ram_save s p ltk irk) = ram_find s)"
proof -
  let ?s = "ram.save_all ram_new bs"
  have empty: "ram_find ram_new = Map.empty"
    by (simp add: ram_find_def ram_new_def fun_eq_iff numeral_eq_Suc)
  then have find: "ram_find ?s = map_of (rev (map (\<lambda>b. (bi_addr b, b)) bs))"
    using ram.find_save_all [OF ram_new_ok, of bs] assms by simp
  then have "dom (ram_find ?s) = bi_addr ` set bs"
    by (auto simp: dom_map_of_conv_image_fst image_image)
  then show ?thesis
    using ram.find_save [OF ram.invar_save_all [OF ram_new_ok]] find
    by (simp add: Let_def ram.save_all_def)
qed

theorem ram_bond_store_is_map_witness:
  "ram_find (ram_save (ram_save ram_new [1, 1, 1, 1, 1, 1] (replicate 16 2) None) [1, 1, 1, 1, 1, 1] (replicate 16 3) None)
     [1, 1, 1, 1, 1, 1] = Some \<lparr>bi_addr = [1, 1, 1, 1, 1, 1], bi_ltk = replicate 16 3, bi_irk = None\<rparr>"
  using ram_bond_store_is_map [of "[\<lparr>bi_addr = [1, 1, 1, 1, 1, 1], bi_ltk = replicate 16 2, bi_irk = None\<rparr>,
      \<lparr>bi_addr = [1, 1, 1, 1, 1, 1], bi_ltk = replicate 16 3, bi_irk = None\<rparr>]"]
  by (simp add: Let_def)

text \<open>C25. The page of the flash store: a \<open>save\<close> that finds a slot leaves a cache that maps the peer to
  the new bond and every other peer to its old one; and whenever the page holds the bytes that
  this save stored, opening it again, from any flash, gives exactly this cache. Whether the page
  holds them is the flash controller's part, of which nothing is assumed: it documents no stores
  of single bytes, which is how \<open>flush\<close> writes the records.\<close>

theorem flash_page_roundtrip:
  assumes "slots_ok (fb_cache s)" and "\<forall>b. Some b \<in> set (fb_cache s) \<longrightarrow> bond_ok b"
    and "length peer = 6" and "length ltk = 16" and "\<forall>k. irk = Some k \<longrightarrow> length k = 16"
    and "peer \<in> dom (flash_find s) \<or> card (dom (flash_find s)) < BOND_MAX"
    and "\<forall>k < 356. page (fb_base s) f k = page (fb_base s) (fb_flash (flash_save plain_memory s peer ltk irk)) k"
  shows "flash_find (flash_open (fb_base s) f) = (flash_find s)(peer \<mapsto> \<lparr>bi_addr = peer, bi_ltk = ltk, bi_irk = irk\<rparr>) \<and>
    flash_open (fb_base s) f = (flash_save nv s peer ltk irk)\<lparr>fb_flash := f\<rparr>"
proof -
  let ?b = "\<lparr>bi_addr = peer, bi_ltk = ltk, bi_irk = irk\<rparr>"
  have ok: "flash_ok s" using assms(1) by (simp add: flash_ok_def)
  have "save_slots ?b (fb_cache s) \<noteq> None"
    using assms(6) slots_full [OF assms(1)] fill_slot_None [of ?b "fb_cache s"] replace_slot_None [of ?b "fb_cache s"]
    by (auto simp: save_slots_def flash_find_def fun_eq_iff dom_def bond_consts split: option.split)
  then obtain ss where ss: "save_slots ?b (fb_cache s) = Some ss" by blast
  let ?s = "s\<lparr>fb_cache := ss\<rparr>"
  have save: "flash_save nv s peer ltk irk = flush nv ?s" for nv using ss by (simp add: flash_save_def Let_def)
  have "bond_ok b" if "Some b \<in> set ss" for b
    using save_slots_set [OF ss] that assms(2-5) by (auto simp: bond_ok_def)
  then have "flash_open (fb_base s) f = \<lparr>fb_base = fb_base s, fb_cache = ss, fb_flash = f\<rparr>"
    using flash_open_image [of ?s f] save_slots_ok [OF assms(1) ss] assms(7) by (simp add: save slots_ok_def)
  then have open_f: "flash_open (fb_base s) f = (flash_save nv s peer ltk irk)\<lparr>fb_flash := f\<rparr>"
    by (simp add: save flush_def Let_def)
  moreover have "flash_find (flash_save nv s peer ltk irk) = (flash_find s)(peer \<mapsto> ?b)"
    using fb.find_save [OF ok] assms(6) by (simp add: bond_consts)
  ultimately show ?thesis by (simp add: flash_find_def fun_eq_iff)
qed

theorem flash_page_roundtrip_witness:
  "let s = flash_open 0x7F000 \<lparr>fl_mem = \<lambda>_. 0xFF, fl_mode = Ren\<rparr>;
       f = fb_flash (flash_save plain_memory s (replicate 6 1) (replicate 16 2) (Some (replicate 16 3))) in
   flash_find (flash_open 0x7F000 f) (replicate 6 1) =
     Some \<lparr>bi_addr = replicate 6 1, bi_ltk = replicate 16 2, bi_irk = Some (replicate 16 3)\<rparr>"
proof -
  let ?s = "flash_open 0x7F000 \<lparr>fl_mem = \<lambda>_. 0xFF, fl_mode = Ren\<rparr>"
  have s: "?s = \<lparr>fb_base = 0x7F000, fb_cache = replicate 8 None, fb_flash = \<lparr>fl_mem = \<lambda>_. 0xFF, fl_mode = Ren\<rparr>\<rparr>"
    by (simp add: flash_open_def load_page_def Let_def bond_consts of_le32_def)
  have "dom (flash_find ?s) = {}" unfolding s by (auto simp: flash_find_def numeral_eq_Suc)
  then have room: "replicate 6 1 \<in> dom (flash_find ?s) \<or> card (dom (flash_find ?s)) < BOND_MAX" by (simp only: card.empty bond_consts) simp
  have ok: "slots_ok (fb_cache ?s)" "\<forall>b. Some b \<in> set (fb_cache ?s) \<longrightarrow> bond_ok b"
    using ram_new_ok unfolding s by (simp_all add: ram_ok_def ram_new_def)
  have "fb_base ?s = 0x7F000" by (simp only: s flash_bond_store.simps)
  then show ?thesis
    using flash_page_roundtrip [OF ok _ _ _ room, of "replicate 16 2" "Some (replicate 16 3)"
        "fb_flash (flash_save plain_memory ?s (replicate 6 1) (replicate 16 2) (Some (replicate 16 3)))" plain_memory, THEN conjunct1]
    by (simp only: Let_def fun_upd_same length_replicate option.inject simp_thms)
qed

end
