(* ===== verification/Smp.thy ===== *)
theory Smp
  imports Ble_Prelude
begin

text \<open>The Security Manager: \<^verbatim>\<open>src/hw/smp.rs\<close>. The crates \<^verbatim>\<open>aes\<close>, \<^verbatim>\<open>cmac\<close> and \<^verbatim>\<open>p256\<close> are the
  fields of the record \<open>crypto\<close>, a parameter of the operations that use them: the AES-128 block
  cipher, AES-CMAC, the validity of a P-256 secret key and of a 64-byte point, the public point
  of a secret key and the raw Diffie-Hellman secret. A panic (\<open>unwrap\<close> on an invalid secret
  key) is \<open>None\<close>.\<close>

section \<open>Constants and cryptographic functions\<close>

record crypto =
  cx_aes :: "bytes \<Rightarrow> bytes \<Rightarrow> bytes"
  cx_cmac :: "bytes \<Rightarrow> bytes \<Rightarrow> bytes"
  cx_secret_ok :: "bytes \<Rightarrow> bool"
  cx_point_ok :: "bytes \<Rightarrow> bool"
  cx_public :: "bytes \<Rightarrow> bytes"
  cx_dh :: "bytes \<Rightarrow> bytes \<Rightarrow> bytes"

definition SMP_PUBLIC_KEY :: u8 where "SMP_PUBLIC_KEY = 0x0C"
definition TK_JUST_WORKS :: bytes where "TK_JUST_WORKS = replicate 16 0"
definition L2CAP_SMP_CID :: u16 where "L2CAP_SMP_CID = 0x0006"
definition SMP_PAIRING_REQUEST :: u8 where "SMP_PAIRING_REQUEST = 0x01"
definition SMP_PAIRING_RESPONSE :: u8 where "SMP_PAIRING_RESPONSE = 0x02"
definition SMP_PAIRING_CONFIRM :: u8 where "SMP_PAIRING_CONFIRM = 0x03"
definition SMP_PAIRING_RANDOM :: u8 where "SMP_PAIRING_RANDOM = 0x04"
definition SMP_PAIRING_FAILED :: u8 where "SMP_PAIRING_FAILED = 0x05"
definition SMP_ENCRYPTION_INFORMATION :: u8 where "SMP_ENCRYPTION_INFORMATION = 0x06"
definition SMP_MASTER_IDENTIFICATION :: u8 where "SMP_MASTER_IDENTIFICATION = 0x07"
definition SMP_SECURITY_REQUEST :: u8 where "SMP_SECURITY_REQUEST = 0x0B"
definition SMP_PAIRING_FAILED_UNSPECIFIED :: u8 where "SMP_PAIRING_FAILED_UNSPECIFIED = 0x08"
definition SMP_REASON_OOB :: u8 where "SMP_REASON_OOB = 0x02"
definition SMP_REASON_AUTH :: u8 where "SMP_REASON_AUTH = 0x05"
definition SMP_REASON_CONFIRM :: u8 where "SMP_REASON_CONFIRM = 0x06"
definition IO_NO_INPUT_NO_OUTPUT :: u8 where "IO_NO_INPUT_NO_OUTPUT = 0x03"

record c1_inputs =
  c1_r :: bytes
  c1_preq :: bytes
  c1_pres :: bytes
  c1_iat :: u8
  c1_rat :: u8
  c1_ia :: bytes
  c1_ra :: bytes

definition xor16 :: "bytes \<Rightarrow> bytes \<Rightarrow> bytes" where
  "xor16 a b = map (\<lambda>i. a ! i XOR b ! i) [0..<16]"

definition c1 :: "crypto \<Rightarrow> bytes \<Rightarrow> c1_inputs \<Rightarrow> bytes" where
  "c1 cx tk inp =
     (let p1 = [c1_iat inp, c1_rat inp] @ c1_preq inp @ c1_pres inp;
          res = cx_aes cx tk (xor16 (c1_r inp) p1);
          p2 = c1_ra inp @ c1_ia inp @ replicate 4 0
      in cx_aes cx tk (xor16 res p2))"

definition s1 :: "crypto \<Rightarrow> bytes \<Rightarrow> bytes \<Rightarrow> bytes \<Rightarrow> bytes" where
  "s1 cx k r1 r2 = cx_aes cx k (take 8 r2 @ take 8 r1)"

section \<open>The pairing state\<close>

datatype smp_error = SmpInvalidPdu | ConfirmMismatch

datatype smp_state = SmpIdle | WaitPairingResponse | WaitConfirm | WaitRandom | WaitingStartEnc | Encrypted

definition pairing :: "smp_state \<Rightarrow> bool" where
  "pairing st \<longleftrightarrow> \<not> (st = SmpIdle \<or> st = Encrypted)"

record smp =
  sm_state :: smp_state
  sm_own_random :: bytes
  sm_peer_random :: bytes
  sm_own_confirm :: bytes
  sm_peer_confirm :: bytes
  sm_preq :: bytes
  sm_pres :: bytes
  sm_iat :: u8
  sm_rat :: u8
  sm_ia :: bytes
  sm_ra :: bytes
  sm_stk :: bytes
  sm_responder :: bool
  sm_pairing_failed :: u8
  sm_passkey :: "u32 option"
  sm_sc :: bool
  sm_own_private :: bytes
  sm_peer_public :: bytes
  sm_dhkey :: bytes
  sm_sc_nonce :: bytes
  sm_peer_nonce :: bytes

definition smp_new :: smp where
  "smp_new =
     \<lparr>sm_state = SmpIdle, sm_own_random = replicate 16 0, sm_peer_random = replicate 16 0,
      sm_own_confirm = replicate 16 0, sm_peer_confirm = replicate 16 0,
      sm_preq = replicate 7 0, sm_pres = replicate 7 0, sm_iat = 0, sm_rat = 0,
      sm_ia = replicate 6 0, sm_ra = replicate 6 0, sm_stk = replicate 16 0,
      sm_responder = False, sm_pairing_failed = 0, sm_passkey = None, sm_sc = False,
      sm_own_private = replicate 32 0, sm_peer_public = replicate 64 0, sm_dhkey = replicate 32 0,
      sm_sc_nonce = replicate 16 0, sm_peer_nonce = replicate 16 0\<rparr>"

definition set_passkey :: "u32 option \<Rightarrow> smp \<Rightarrow> smp" where
  "set_passkey pk s = s\<lparr>sm_passkey := pk\<rparr>"

definition enable_sc :: "smp \<Rightarrow> smp" where
  "enable_sc s = s\<lparr>sm_sc := True\<rparr>"

definition tk :: "smp \<Rightarrow> bytes" where
  "tk s = (case sm_passkey s of
             Some pk \<Rightarrow> set_prefix (replicate 16 0) (le32 pk)
           | None \<Rightarrow> TK_JUST_WORKS)"

section \<open>The pairing operations\<close>

definition build_pairing_request :: "smp \<Rightarrow> bytes \<times> smp" where
  "build_pairing_request s =
     (let p = [SMP_PAIRING_REQUEST,
               if sm_passkey s \<noteq> None then 0x02 else IO_NO_INPUT_NO_OUTPUT,
               0, 0x01 OR (if sm_sc s then 0x08 else 0), 16, 0x01, 0x01]
      in (p, s\<lparr>sm_preq := p\<rparr>))"

definition handle_pairing_request :: "bytes \<Rightarrow> smp \<Rightarrow> (smp_error + bytes) \<times> smp" where
  "handle_pairing_request data s =
     (if length data < 7 then (Inl SmpInvalidPdu, s)
      else
        let rsp = [SMP_PAIRING_RESPONSE, IO_NO_INPUT_NO_OUTPUT, 0, 0x01, 16, 0x01, 0x01]
        in (Inr rsp, s\<lparr>sm_preq := take 7 data, sm_rat := 0, sm_responder := True,
                       sm_state := WaitConfirm, sm_pres := rsp\<rparr>))"

definition handle_pairing_response :: "bytes \<Rightarrow> smp \<Rightarrow> (smp_error + unit) \<times> smp" where
  "handle_pairing_response data s =
     (if length data < 7 then (Inl SmpInvalidPdu, s)
      else (Inr (), s\<lparr>sm_pres := take 7 data, sm_state := WaitConfirm\<rparr>))"

definition build_public_key :: "crypto \<Rightarrow> smp \<Rightarrow> bytes option" where
  "build_public_key cx s =
     (if cx_secret_ok cx (sm_own_private s)
      then Some (SMP_PUBLIC_KEY # cx_public cx (sm_own_private s))
      else None)"

definition handle_public_key :: "crypto \<Rightarrow> bytes \<Rightarrow> smp \<Rightarrow> (smp_error + unit) \<times> smp" where
  "handle_public_key cx data s =
     (if length data < 65 then (Inl SmpInvalidPdu, s)
      else
        let point = take 64 (drop 1 data); s = s\<lparr>sm_peer_public := point\<rparr> in
        if \<not> cx_point_ok cx point then (Inl SmpInvalidPdu, s)
        else if \<not> cx_secret_ok cx (sm_own_private s) then (Inl SmpInvalidPdu, s)
        else (Inr (), s\<lparr>sm_dhkey := cx_dh cx (sm_own_private s) point, sm_sc := True\<rparr>))"

definition compute_ltk_sc :: "crypto \<Rightarrow> smp \<Rightarrow> bytes \<Rightarrow> bytes \<Rightarrow> bytes \<Rightarrow> bytes \<Rightarrow> bytes" where
  "compute_ltk_sc cx s n1 n2 a1 a2 =
     (let btle = [0x65, 0x6c, 0x74, 0x62];
          salt = [0xbe, 0x83, 0x60, 0x5a, 0xdb, 0x0b, 0x37, 0x60, 0x38, 0xa5, 0xf5, 0xaa, 0x91, 0x83, 0x88, 0x6c];
          len = [0x00, 0x01];
          t = cx_cmac cx salt (sm_dhkey s);
          m = len @ a2 @ a1 @ n2 @ n1 @ btle @ [0];
          mackey = cx_cmac cx t m;
          m = m[52 := 1]
      in cx_cmac cx mackey m)"

definition build_failed :: "u8 \<Rightarrow> bytes" where
  "build_failed reason = [SMP_PAIRING_FAILED, reason]"

definition fail_unspecified :: "smp \<Rightarrow> bytes \<times> smp" where
  "fail_unspecified s =
     (build_failed SMP_PAIRING_FAILED_UNSPECIFIED, s\<lparr>sm_pairing_failed := SMP_PAIRING_FAILED_UNSPECIFIED\<rparr>)"

definition fail_oob :: "smp \<Rightarrow> bytes \<times> smp" where
  "fail_oob s = (build_failed SMP_REASON_OOB, s\<lparr>sm_pairing_failed := SMP_REASON_OOB\<rparr>)"

definition fail_auth :: "smp \<Rightarrow> bytes \<times> smp" where
  "fail_auth s = (build_failed SMP_REASON_AUTH, s\<lparr>sm_pairing_failed := SMP_REASON_AUTH\<rparr>)"

definition build_confirm :: "crypto \<Rightarrow> u8 \<Rightarrow> bytes \<Rightarrow> bytes \<Rightarrow> smp \<Rightarrow> bytes \<times> smp" where
  "build_confirm cx iat ia ra s =
     (let s = s\<lparr>sm_iat := iat, sm_ia := ia, sm_ra := ra, sm_own_random := map (\<lambda>_. 0x5A) (sm_own_random s)\<rparr>;
          s = s\<lparr>sm_own_confirm := c1 cx (tk s)
                 \<lparr>c1_r = sm_own_random s, c1_preq = sm_preq s, c1_pres = sm_pres s, c1_iat = sm_iat s,
                  c1_rat = sm_rat s, c1_ia = sm_ia s, c1_ra = sm_ra s\<rparr>\<rparr>
      in (SMP_PAIRING_CONFIRM # sm_own_confirm s, s))"

definition handle_confirm :: "bytes \<Rightarrow> smp \<Rightarrow> (smp_error + unit) \<times> smp" where
  "handle_confirm data s =
     (if length data < 17 then (Inl SmpInvalidPdu, s)
      else (Inr (), s\<lparr>sm_peer_confirm := take 16 (drop 1 data), sm_state := WaitRandom\<rparr>))"

definition build_random :: "smp \<Rightarrow> bytes" where
  "build_random s = SMP_PAIRING_RANDOM # sm_own_random s"

definition handle_random :: "crypto \<Rightarrow> bytes \<Rightarrow> smp \<Rightarrow> (smp_error + bytes) \<times> smp" where
  "handle_random cx data s =
     (if length data < 17 then (Inl SmpInvalidPdu, s)
      else
        let s = s\<lparr>sm_peer_random := take 16 (drop 1 data)\<rparr>;
            expected = c1 cx (tk s)
              \<lparr>c1_r = sm_peer_random s, c1_preq = sm_preq s, c1_pres = sm_pres s, c1_iat = sm_iat s,
               c1_rat = sm_rat s, c1_ia = sm_ia s, c1_ra = sm_ra s\<rparr> in
        if expected \<noteq> sm_peer_confirm s
        then (Inl ConfirmMismatch, s\<lparr>sm_pairing_failed := SMP_REASON_CONFIRM\<rparr>)
        else
          let s = s\<lparr>sm_stk := s1 cx (tk s) (sm_own_random s) (sm_peer_random s),
                    sm_state := WaitingStartEnc, sm_pairing_failed := 0\<rparr>
          in (Inr (SMP_PAIRING_RANDOM # sm_own_random s), s))"

section \<open>Array lengths\<close>

text \<open>What the fixed-size arrays of the Rust types promise, of the parameters and of the state.\<close>

definition crypto_ok :: "crypto \<Rightarrow> bool" where
  "crypto_ok cx \<longleftrightarrow> (\<forall>k b. length (cx_aes cx k b) = 16) \<and> (\<forall>k m. length (cx_cmac cx k m) = 16) \<and>
     (\<forall>sk. cx_secret_ok cx sk \<longrightarrow> length (cx_public cx sk) = 64) \<and>
     (\<forall>sk pt. length (cx_dh cx sk pt) = 32)"

definition smp_wf :: "smp \<Rightarrow> bool" where
  "smp_wf s \<longleftrightarrow> length (sm_own_random s) = 16 \<and> length (sm_peer_random s) = 16 \<and>
     length (sm_own_confirm s) = 16 \<and> length (sm_peer_confirm s) = 16 \<and>
     length (sm_preq s) = 7 \<and> length (sm_pres s) = 7 \<and> length (sm_ia s) = 6 \<and> length (sm_ra s) = 6 \<and>
     length (sm_stk s) = 16 \<and> length (sm_own_private s) = 32 \<and> length (sm_peer_public s) = 64 \<and>
     length (sm_dhkey s) = 32"

lemma length_c1 [simp]: "crypto_ok cx \<Longrightarrow> length (c1 cx k i) = 16"
  and length_s1 [simp]: "crypto_ok cx \<Longrightarrow> length (s1 cx k r1 r2) = 16"
  by (simp_all add: crypto_ok_def c1_def s1_def Let_def)

lemma tk_unchanged [simp]:
  "tk (s\<lparr>sm_peer_random := x\<rparr>) = tk s" "tk (s\<lparr>sm_iat := a, sm_ia := b, sm_ra := c, sm_own_random := d\<rparr>) = tk s"
  "tk (s\<lparr>sm_preq := x\<rparr>) = tk s"
  by (simp_all add: tk_def)

section \<open>The pairing machine\<close>

text \<open>The steps of one side: any operation, with any arguments, in any state. The handlers
  check no state, so neither does the relation.\<close>

inductive smp_step :: "crypto \<Rightarrow> smp \<Rightarrow> smp \<Rightarrow> bool" for cx :: crypto where
  passkey: "smp_step cx s (set_passkey pk s)"
| sc: "smp_step cx s (enable_sc s)"
| request: "smp_step cx s (snd (build_pairing_request s))"
| on_request: "smp_step cx s (snd (handle_pairing_request d s))"
| on_response: "smp_step cx s (snd (handle_pairing_response d s))"
| on_public_key: "smp_step cx s (snd (handle_public_key cx d s))"
| fails: "smp_step cx s (s\<lparr>sm_pairing_failed := r\<rparr>)" if "r \<in> {SMP_PAIRING_FAILED_UNSPECIFIED, SMP_REASON_OOB, SMP_REASON_AUTH}"
| confirm: "smp_step cx s (snd (build_confirm cx iat ia ra s))" if "length ia = 6" "length ra = 6"
| on_confirm: "smp_step cx s (snd (handle_confirm d s))"
| on_random: "smp_step cx s (snd (handle_random cx d s))"

definition smp_reachable :: "crypto \<Rightarrow> smp \<Rightarrow> bool" where
  "smp_reachable cx s \<longleftrightarrow> (smp_step cx)\<^sup>*\<^sup>* smp_new s"

lemmas smp_ops = set_passkey_def enable_sc_def build_pairing_request_def handle_pairing_request_def
  handle_pairing_response_def handle_public_key_def build_confirm_def handle_confirm_def handle_random_def

lemma smp_new_wf: "smp_wf smp_new"
  by (simp add: smp_wf_def smp_new_def)

lemma smp_step_wf: "smp_step cx s s' \<Longrightarrow> crypto_ok cx \<Longrightarrow> smp_wf s \<Longrightarrow> smp_wf s'"
  by (induction rule: smp_step.induct)
    (auto simp: smp_ops smp_wf_def Let_def, auto simp: crypto_ok_def)

lemma smp_reachable_wf: "smp_reachable cx s \<Longrightarrow> crypto_ok cx \<Longrightarrow> smp_wf s"
  unfolding smp_reachable_def by (induction rule: rtranclp_induct) (auto simp: smp_new_wf smp_step_wf)

lemma smp_reachable_rat: "smp_reachable cx s \<Longrightarrow> sm_rat s = 0"
  unfolding smp_reachable_def
proof (induction rule: rtranclp_induct)
  case (step s s')
  from step(2,3) show ?case
    by (induction rule: smp_step.induct) (auto simp: smp_ops Let_def)
qed (simp add: smp_new_def)

text \<open>The inputs of the confirm value for a given random.\<close>

definition confirm_inputs :: "smp \<Rightarrow> bytes \<Rightarrow> c1_inputs" where
  "confirm_inputs s r = \<lparr>c1_r = r, c1_preq = sm_preq s, c1_pres = sm_pres s, c1_iat = sm_iat s,
     c1_rat = sm_rat s, c1_ia = sm_ia s, c1_ra = sm_ra s\<rparr>"

lemma handle_random_cases:
  "handle_random cx d s =
     (let r = take 16 (drop 1 d) in
      if length d < 17 then (Inl SmpInvalidPdu, s)
      else if c1 cx (tk s) (confirm_inputs s r) = sm_peer_confirm s
      then (Inr (SMP_PAIRING_RANDOM # sm_own_random s),
            s\<lparr>sm_peer_random := r, sm_stk := s1 cx (tk s) (sm_own_random s) r, sm_state := WaitingStartEnc,
              sm_pairing_failed := 0\<rparr>)
      else (Inl ConfirmMismatch, s\<lparr>sm_peer_random := r, sm_pairing_failed := SMP_REASON_CONFIRM\<rparr>))"
  by (simp add: handle_random_def Let_def confirm_inputs_def)

section \<open>The legacy exchange\<close>

text \<open>The messages of Just Works or passkey pairing between an initiator \<open>a\<close> and a responder
  \<open>b\<close>: request, response, the two confirms, the two randoms, each handed to the peer's
  handler; \<open>None\<close> when a handler refuses.\<close>

definition legacy_exchange :: "crypto \<Rightarrow> u8 \<Rightarrow> bytes \<Rightarrow> bytes \<Rightarrow> smp \<Rightarrow> smp \<Rightarrow> (smp \<times> smp) option" where
  "legacy_exchange cx iat ia ra a b = do {
     let (req, a) = build_pairing_request a;
     let (r1, b) = handle_pairing_request req b;
     rsp \<leftarrow> case r1 of Inl _ \<Rightarrow> None | Inr m \<Rightarrow> Some m;
     let (r2, a) = handle_pairing_response rsp a;
     _ \<leftarrow> case r2 of Inl _ \<Rightarrow> None | Inr m \<Rightarrow> Some m;
     let (conf_a, a) = build_confirm cx iat ia ra a;
     let (r3, b) = handle_confirm conf_a b;
     _ \<leftarrow> case r3 of Inl _ \<Rightarrow> None | Inr m \<Rightarrow> Some m;
     let (conf_b, b) = build_confirm cx iat ia ra b;
     let (r4, a) = handle_confirm conf_b a;
     _ \<leftarrow> case r4 of Inl _ \<Rightarrow> None | Inr m \<Rightarrow> Some m;
     let (r5, b) = handle_random cx (build_random a) b;
     rnd_b \<leftarrow> case r5 of Inl _ \<Rightarrow> None | Inr m \<Rightarrow> Some m;
     let (r6, a) = handle_random cx rnd_b a;
     _ \<leftarrow> case r6 of Inl _ \<Rightarrow> None | Inr m \<Rightarrow> Some m;
     Some (a, b)
   }"

definition example_crypto :: crypto where
  "example_crypto =
     \<lparr>cx_aes = \<lambda>k b. map (\<lambda>i. (if i < length k then k ! i else 0) XOR (if i < length b then b ! i else 0)) [0..<16],
      cx_cmac = \<lambda>k m. map (\<lambda>i. (if i < length k then k ! i else 0) XOR sum_list m) [0..<16],
      cx_secret_ok = \<lambda>sk. length sk = 32, cx_point_ok = \<lambda>pt. length pt = 64,
      cx_public = \<lambda>sk. take 64 (sk @ replicate 64 0),
      cx_dh = \<lambda>sk pt. map (\<lambda>i. (if i < length sk then sk ! i else 0) XOR (if i < length pt then pt ! i else 0)) [0..<32]\<rparr>"

lemma example_crypto_ok: "crypto_ok example_crypto"
  by (simp add: crypto_ok_def example_crypto_def)

section \<open>Properties\<close>

text \<open>C19. Legacy pairing completes: for any cipher, addresses and reachable starting states of
  the two sides with the same passkey (or none), every handler of the exchange accepts, both sides end waiting for encryption with no
  failure recorded, and they hold the same short term key.\<close>

theorem legacy_pairing_completes:
  assumes "crypto_ok cx" and "smp_reachable cx a" and "smp_reachable cx b"
    and "sm_passkey a = sm_passkey b" and "length ia = 6" and "length ra = 6"
  shows "\<exists>a' b'. legacy_exchange cx iat ia ra a b = Some (a', b') \<and> sm_stk a' = sm_stk b' \<and>
    sm_state a' = WaitingStartEnc \<and> sm_state b' = WaitingStartEnc \<and>
    sm_pairing_failed a' = 0 \<and> sm_pairing_failed b' = 0"
proof -
  have wf: "smp_wf a" "smp_wf b" using assms smp_reachable_wf by auto
  have "sm_rat a = 0" using assms(2) by (rule smp_reachable_rat)
  moreover have "tk a = tk b" using assms(4) by (simp add: tk_def)
  ultimately show ?thesis
    using assms wf
    by (simp add: legacy_exchange_def build_pairing_request_def handle_pairing_request_def
        handle_pairing_response_def build_confirm_def handle_confirm_def handle_random_cases build_random_def
        Let_def confirm_inputs_def smp_wf_def map_replicate_const tk_def)
qed

theorem legacy_pairing_completes_witness:
  "\<exists>a' b'. legacy_exchange example_crypto 1 (replicate 6 0xAA) (replicate 6 0xBB) smp_new smp_new = Some (a', b') \<and>
     sm_stk a' = sm_stk b' \<and> sm_state a' = WaitingStartEnc"
  using legacy_pairing_completes [OF example_crypto_ok, of smp_new smp_new "replicate 6 0xAA" "replicate 6 0xBB" 1]
  by (auto simp: smp_reachable_def)

text \<open>No key without a matching confirm: whatever sequence of the operations above is run, the
  step in which the short term key changes, or in which the machine enters the state that
  starts encryption, is the arrival of a 16-byte random whose confirm value, under the own
  temporary key and the exchanged pairing messages and addresses, is the confirm value the
  peer sent before; a random that does not match leaves key and state alone and records the
  failure reason.\<close>

lemma smp_key_needs_confirm:
  assumes "smp_step cx s s'"
    and "sm_stk s' \<noteq> sm_stk s \<or> sm_state s' = WaitingStartEnc \<and> sm_state s \<noteq> WaitingStartEnc"
  shows "length (sm_peer_random s') = 16 \<and>
    c1 cx (tk s) (confirm_inputs s (sm_peer_random s')) = sm_peer_confirm s \<and>
    sm_stk s' = s1 cx (tk s) (sm_own_random s) (sm_peer_random s') \<and> sm_state s' = WaitingStartEnc"
  using assms
proof (induction rule: smp_step.induct)
  case (on_random s d)
  then show ?case by (auto simp: handle_random_cases Let_def split: if_splits)
qed (auto simp: set_passkey_def enable_sc_def build_pairing_request_def handle_pairing_request_def
    handle_pairing_response_def handle_public_key_def build_confirm_def handle_confirm_def Let_def split: if_splits)

text \<open>C39. Secure Connections key agreement: for a Diffie-Hellman function that commutes on valid
  keys and accepts their public points, two sides with valid private keys that exchange the
  messages of \<open>build_public_key\<close> both accept, hold the same secret, and derive the same long
  term key from the same nonces and addresses; and a message that is too short or not a point
  is refused without touching the secret.\<close>

theorem sc_key_agreement:
  assumes "crypto_ok cx" and "\<And>x y. cx_secret_ok cx x \<Longrightarrow> cx_secret_ok cx y \<Longrightarrow>
      cx_point_ok cx (cx_public cx y) \<and> cx_dh cx x (cx_public cx y) = cx_dh cx y (cx_public cx x)"
    and "cx_secret_ok cx (sm_own_private a)" and "cx_secret_ok cx (sm_own_private b)"
  shows "\<exists>pa pb a' b'. build_public_key cx a = Some pa \<and> build_public_key cx b = Some pb \<and>
    handle_public_key cx pb a = (Inr (), a') \<and> handle_public_key cx pa b = (Inr (), b') \<and>
    sm_dhkey a' = sm_dhkey b' \<and> sm_sc a' \<and> sm_sc b' \<and>
    (\<forall>n1 n2 a1 a2. compute_ltk_sc cx a' n1 n2 a1 a2 = compute_ltk_sc cx b' n1 n2 a1 a2) \<and>
    (\<forall>d r. \<not> (65 \<le> length d \<and> cx_point_ok cx (take 64 (drop 1 d))) \<longrightarrow>
       fst (handle_public_key cx d r) = Inl SmpInvalidPdu \<and> sm_dhkey (snd (handle_public_key cx d r)) = sm_dhkey r)"
  using assms
  by (auto simp: build_public_key_def handle_public_key_def Let_def crypto_ok_def compute_ltk_sc_def)

theorem sc_key_agreement_witness:
  "\<exists>a' b'. sm_dhkey a' = sm_dhkey b' \<and> sm_sc a' \<and>
     (\<exists>pa pb. build_public_key example_crypto smp_new = Some pa \<and>
        build_public_key example_crypto (smp_new\<lparr>sm_own_private := replicate 32 9\<rparr>) = Some pb \<and>
        handle_public_key example_crypto pb smp_new = (Inr (), a') \<and>
        handle_public_key example_crypto pa (smp_new\<lparr>sm_own_private := replicate 32 9\<rparr>) = (Inr (), b'))"
proof -
  have dh: "cx_point_ok example_crypto (cx_public example_crypto y) \<and>
      cx_dh example_crypto x (cx_public example_crypto y) = cx_dh example_crypto y (cx_public example_crypto x)"
    if "cx_secret_ok example_crypto x" "cx_secret_ok example_crypto y" for x y
    using that by (auto simp: example_crypto_def nth_append xor.commute)
  show ?thesis
    using sc_key_agreement [OF example_crypto_ok dh, of smp_new "smp_new\<lparr>sm_own_private := replicate 32 9\<rparr>"]
    by (simp add: example_crypto_def smp_new_def) blast
qed

text \<open>The short term key is not symmetric in the two randoms: each side puts its own random
  first. When the cipher is injective under the key (as a block cipher is), the sides agree
  only if the first halves of their randoms are equal, as they are here because
  \<open>build_confirm\<close> fixes every random to the same bytes.\<close>

lemma s1_agreement_iff_equal_randoms:
  assumes "inj_on (cx_aes cx k) {b. length b = 16}" and "length ra = 16" and "length rb = 16"
  shows "s1 cx k ra rb = s1 cx k rb ra \<longleftrightarrow> take 8 ra = take 8 rb"
proof -
  have "s1 cx k ra rb = s1 cx k rb ra \<longleftrightarrow> take 8 rb @ take 8 ra = take 8 ra @ take 8 rb"
    unfolding s1_def by (rule inj_on_eq_iff [OF assms(1)]) (use assms in auto)
  then show ?thesis using assms(2,3) by auto
qed

end
