(* ===== verification/Conn_State.thy ===== *)
theory Conn_State
  imports Peripherals Pdu Bond Smp
begin

text \<open>The state of a link-layer connection and its transmit queue: the constants, \<open>Coc\<close>,
  \<open>Conn\<close>, \<open>ConnEvent\<close>, \<open>DisconnectReason\<close>, \<open>Conn::new\<close>, the operations that queue a
  message and the fragmenter \<open>tx_fragment\<close> of \<^verbatim>\<open>src/hw/conn.rs\<close>. A panic (an index out of range) is \<open>None\<close>; a subtraction below zero
  wraps around in the 32-bit \<open>usize\<close> of the target.\<close>

section \<open>Constants\<close>

definition LL_CONTROL_CONNECTION_UPDATE_REQ :: u8 where "LL_CONTROL_CONNECTION_UPDATE_REQ = 0x00"
definition LL_CONTROL_TERMINATE_IND :: u8 where "LL_CONTROL_TERMINATE_IND = 0x02"
definition LL_CONTROL_ENCRYPT_REQ :: u8 where "LL_CONTROL_ENCRYPT_REQ = 0x03"
definition LL_CONTROL_ENCRYPT_RSP :: u8 where "LL_CONTROL_ENCRYPT_RSP = 0x04"
definition LL_CONTROL_START_ENC_REQ :: u8 where "LL_CONTROL_START_ENC_REQ = 0x05"
definition LL_CONTROL_START_ENC_RSP :: u8 where "LL_CONTROL_START_ENC_RSP = 0x06"
definition LL_CONTROL_UNKNOWN_RSP :: u8 where "LL_CONTROL_UNKNOWN_RSP = 0x07"
definition LL_CONTROL_FEATURE_REQ :: u8 where "LL_CONTROL_FEATURE_REQ = 0x08"
definition LL_CONTROL_FEATURE_RSP :: u8 where "LL_CONTROL_FEATURE_RSP = 0x09"
definition LL_CONTROL_VERSION_IND :: u8 where "LL_CONTROL_VERSION_IND = 0x0C"
definition LL_CONTROL_PING_REQ :: u8 where "LL_CONTROL_PING_REQ = 0x12"
definition LL_CONTROL_PING_RSP :: u8 where "LL_CONTROL_PING_RSP = 0x13"
definition LL_CONTROL_LENGTH_REQ :: u8 where "LL_CONTROL_LENGTH_REQ = 0x14"
definition LL_CONTROL_LENGTH_RSP :: u8 where "LL_CONTROL_LENGTH_RSP = 0x15"
definition LL_CONTROL_PHY_REQ :: u8 where "LL_CONTROL_PHY_REQ = 0x16"
definition LL_CONTROL_PHY_RSP :: u8 where "LL_CONTROL_PHY_RSP = 0x17"

lemmas ll_opcodes = LL_CONTROL_CONNECTION_UPDATE_REQ_def LL_CONTROL_TERMINATE_IND_def
  LL_CONTROL_ENCRYPT_REQ_def LL_CONTROL_ENCRYPT_RSP_def LL_CONTROL_START_ENC_REQ_def
  LL_CONTROL_START_ENC_RSP_def LL_CONTROL_UNKNOWN_RSP_def LL_CONTROL_FEATURE_REQ_def
  LL_CONTROL_FEATURE_RSP_def LL_CONTROL_VERSION_IND_def LL_CONTROL_PING_REQ_def LL_CONTROL_PING_RSP_def
  LL_CONTROL_LENGTH_REQ_def LL_CONTROL_LENGTH_RSP_def LL_CONTROL_PHY_REQ_def LL_CONTROL_PHY_RSP_def

definition L2CAP_ATT_CID :: u16 where "L2CAP_ATT_CID = 0x0004"
definition L2CAP_SIGNALING_CID :: u16 where "L2CAP_SIGNALING_CID = 0x0005"
definition L2CAP_SMP_CID_LOCAL :: u16 where "L2CAP_SMP_CID_LOCAL = 0x0006"

definition LE_CREDIT_BASED_CONNECTION_REQ :: u8 where "LE_CREDIT_BASED_CONNECTION_REQ = 0x14"
definition LE_CREDIT_BASED_CONNECTION_RSP :: u8 where "LE_CREDIT_BASED_CONNECTION_RSP = 0x15"
definition LE_FLOW_CONTROL_CREDIT :: u8 where "LE_FLOW_CONTROL_CREDIT = 0x16"
definition LE_CREDIT_BASED_CONNECTION_END :: u8 where "LE_CREDIT_BASED_CONNECTION_END = 0x17"

definition COC_LOCAL_CID :: u16 where "COC_LOCAL_CID = 0x0040"
definition COC_CREDITS :: u16 where "COC_CREDITS = 8"
definition COC_MTU :: u16 where "COC_MTU = 247"
definition COC_MPS :: u16 where "COC_MPS = 251"

definition ATT_MTU_DEFAULT :: nat where "ATT_MTU_DEFAULT = 23"
definition ATT_MTU_MAX :: nat where "ATT_MTU_MAX = 247"
definition ATT_PAYLOAD_MAX :: nat where "ATT_PAYLOAD_MAX = ATT_MTU_MAX - 3"
definition L2CAP_PAYLOAD_MAX :: nat where "L2CAP_PAYLOAD_MAX = ATT_MTU_MAX + 4"
definition LL_PDU_PAYLOAD_DEFAULT :: nat where "LL_PDU_PAYLOAD_DEFAULT = 27"
definition LL_PDU_PAYLOAD_MAX :: nat where "LL_PDU_PAYLOAD_MAX = 251"

lemmas buffer_sizes = ATT_MTU_DEFAULT_def ATT_MTU_MAX_def ATT_PAYLOAD_MAX_def L2CAP_PAYLOAD_MAX_def
  LL_PDU_PAYLOAD_DEFAULT_def LL_PDU_PAYLOAD_MAX_def

definition HANDLE_PRIMARY_SERVICE :: u16 where "HANDLE_PRIMARY_SERVICE = 0x0001"
definition HANDLE_RX_CHAR_DECL :: u16 where "HANDLE_RX_CHAR_DECL = 0x0002"
definition HANDLE_RX_VALUE :: u16 where "HANDLE_RX_VALUE = 0x0003"
definition HANDLE_TX_CHAR_DECL :: u16 where "HANDLE_TX_CHAR_DECL = 0x0004"
definition HANDLE_TX_VALUE :: u16 where "HANDLE_TX_VALUE = 0x0005"
definition HANDLE_TX_CCCD :: u16 where "HANDLE_TX_CCCD = 0x0006"

lemmas handles = HANDLE_PRIMARY_SERVICE_def HANDLE_RX_CHAR_DECL_def HANDLE_RX_VALUE_def
  HANDLE_TX_CHAR_DECL_def HANDLE_TX_VALUE_def HANDLE_TX_CCCD_def

section \<open>Connection state\<close>

record coc =
  coc_psm :: u16
  coc_local_cid :: u16
  coc_peer_cid :: u16
  coc_credits :: u16
  coc_peer_credits :: u16
  coc_mtu :: u16
  coc_mps :: u16
  coc_rx_sdu :: bytes
  coc_rx_sdu_len :: nat
  coc_rx_sdu_total :: nat
  coc_tx_sdu :: bytes
  coc_tx_sdu_len :: nat
  coc_tx_sdu_offset :: nat

definition coc_new :: "u16 \<Rightarrow> coc" where
  "coc_new psm =
     \<lparr>coc_psm = psm, coc_local_cid = COC_LOCAL_CID, coc_peer_cid = 0, coc_credits = 0, coc_peer_credits = 0,
      coc_mtu = COC_MTU, coc_mps = COC_MPS, coc_rx_sdu = replicate 256 0, coc_rx_sdu_len = 0,
      coc_rx_sdu_total = 0, coc_tx_sdu = replicate 256 0, coc_tx_sdu_len = 0, coc_tx_sdu_offset = 0\<rparr>"

datatype conn_role = Master | Slave

datatype disconnect_reason = RemoteTerminate | HostTerminate | SupervisionTimeout | LocalError

datatype conn_event = EvIdle | EvData | EvControl u8 | EvL2cap u16 | EvDisconnected disconnect_reason

record conn =
  cn_role :: conn_role
  cn_access_addr :: u32
  cn_crc_init :: u32
  cn_interval :: u16
  cn_timeout :: u16
  cn_channel_map :: bytes
  cn_hop :: u8
  cn_channel :: u8
  cn_sn :: bool
  cn_nesn :: bool
  cn_anchor :: u32
  cn_accum :: interval_accum
  cn_rx_l2cap :: bytes
  cn_rx_l2cap_len :: nat
  cn_rx_l2cap_msg_len :: nat
  cn_rx_l2cap_cid :: u16
  cn_tx_att :: bytes
  cn_tx_att_len :: nat
  cn_tx_frag_offset :: nat
  cn_tx_pending :: bool
  cn_tx_cid :: u16
  cn_att_mtu :: u16
  cn_tx_pdu_max :: nat
  cn_rx_pdu_max :: nat
  cn_coc :: "coc option"
  cn_bond_store :: ram_bond_store
  cn_peer_addr :: bytes
  cn_peer_version_ok :: bool
  cn_last_rx :: u32
  cn_terminate_pending :: bool
  cn_nus_cccd :: u8
  cn_rx_data :: bytes
  cn_rx_data_len :: nat
  cn_tx_buf :: bytes
  cn_rx_buf :: bytes
  cn_event_counter :: u16
  cn_pending_update :: "(u16 \<times> u16) option"
  cn_pending_update_instant :: u16
  cn_pending_request :: bool
  cn_smp :: smp
  cn_encrypted :: bool
  cn_packet_counter :: u64
  cn_ccm :: ccm
  cn_want_encrypt :: bool
  cn_pairing_in_progress :: bool
  cn_pending_control :: "bytes option"
  cn_gatt_result :: bytes
  cn_gatt_result_len :: nat

definition conn_new :: "connect_req_data \<Rightarrow> u8 \<Rightarrow> u32 \<Rightarrow> conn_role \<Rightarrow> conn" where
  "conn_new params first_channel now role =
     (let anchor = (case role of Master \<Rightarrow> now + timeout_ticks 200 | Slave \<Rightarrow> now) in
      \<lparr>cn_role = role, cn_access_addr = cr_access_addr params, cn_crc_init = cr_crc_init params,
       cn_interval = cr_interval params, cn_timeout = cr_timeout params,
       cn_channel_map = cr_channel_map params, cn_hop = cr_hop params, cn_channel = first_channel,
       cn_sn = False, cn_nesn = False, cn_anchor = anchor, cn_accum = accum_new_125ms,
       cn_rx_l2cap = replicate 256 0, cn_rx_l2cap_len = 0, cn_rx_l2cap_msg_len = 0,
       cn_rx_l2cap_cid = L2CAP_ATT_CID, cn_tx_att = replicate L2CAP_PAYLOAD_MAX 0, cn_tx_att_len = 0,
       cn_tx_frag_offset = 0, cn_tx_pending = False, cn_tx_cid = L2CAP_ATT_CID,
       cn_att_mtu = of_nat ATT_MTU_DEFAULT, cn_tx_pdu_max = LL_PDU_PAYLOAD_DEFAULT,
       cn_rx_pdu_max = LL_PDU_PAYLOAD_DEFAULT, cn_coc = None, cn_bond_store = ram_new,
       cn_peer_addr = replicate 6 0, cn_peer_version_ok = False, cn_last_rx = now,
       cn_terminate_pending = False, cn_nus_cccd = 0, cn_rx_data = replicate ATT_PAYLOAD_MAX 0,
       cn_rx_data_len = 0, cn_tx_buf = replicate 64 0, cn_rx_buf = replicate 64 0, cn_event_counter = 0,
       cn_pending_update = None, cn_pending_update_instant = 0, cn_pending_request = False,
       cn_smp = smp_new, cn_encrypted = False, cn_packet_counter = 0, cn_ccm = ccm_new,
       cn_want_encrypt = False, cn_pairing_in_progress = False, cn_pending_control = None,
       cn_gatt_result = replicate 64 0, cn_gatt_result_len = 0\<rparr>)"

section \<open>Queueing\<close>

definition queue_att :: "bytes \<Rightarrow> conn \<Rightarrow> conn" where
  "queue_att att c =
     (let len = min (length att) (length (cn_tx_att c)) in
      c\<lparr>cn_tx_att := set_prefix (cn_tx_att c) (take len att), cn_tx_att_len := len, cn_tx_pending := True\<rparr>)"

definition queue_notify :: "bytes \<Rightarrow> conn \<Rightarrow> conn" where
  "queue_notify data c =
     (let len = min (length data) ATT_PAYLOAD_MAX in
      c\<lparr>cn_tx_att := set_prefix (cn_tx_att c) ([0x1B] @ le16 HANDLE_TX_VALUE @ take len data),
        cn_tx_att_len := 3 + len, cn_tx_pending := True\<rparr>)"

definition terminate :: "conn \<Rightarrow> conn" where
  "terminate c = c\<lparr>cn_terminate_pending := True\<rparr>"

definition queue_signaling :: "bytes \<Rightarrow> conn \<Rightarrow> conn" where
  "queue_signaling msg c =
     (let n = min (length msg) (length (cn_tx_att c) - 4) in
      c\<lparr>cn_tx_att := set_prefix (cn_tx_att c) (take n msg), cn_tx_att_len := n,
        cn_tx_cid := L2CAP_SIGNALING_CID, cn_tx_frag_offset := 0, cn_tx_pending := True\<rparr>)"

definition queue_l2cap :: "bytes \<Rightarrow> u16 \<Rightarrow> conn \<Rightarrow> conn" where
  "queue_l2cap l2 cid c =
     (let n = min (length l2) (length (cn_tx_att c)) in
      c\<lparr>cn_tx_att := set_prefix (cn_tx_att c) (take n l2), cn_tx_att_len := n, cn_tx_cid := cid,
        cn_tx_frag_offset := 0, cn_tx_pending := True\<rparr>)"

definition set_peer :: "bytes \<Rightarrow> conn \<Rightarrow> conn" where
  "set_peer peer c = c\<lparr>cn_peer_addr := peer\<rparr>"

definition queue_encrypt_req :: "conn \<Rightarrow> conn" where
  "queue_encrypt_req c =
     c\<lparr>cn_pending_control := Some (LL_CONTROL_ENCRYPT_REQ # replicate 18 0), cn_want_encrypt := True\<rparr>"

definition gatt_send_request :: "bytes \<Rightarrow> conn \<Rightarrow> conn" where
  "gatt_send_request att c = (queue_att att c)\<lparr>cn_pending_request := True\<rparr>"

definition gatt_take_result :: "conn \<Rightarrow> (u8 \<times> bytes \<times> nat) \<times> conn" where
  "gatt_take_result c =
     (let op = cn_gatt_result c ! 0; len = cn_gatt_result_len c; buf = cn_gatt_result c;
          c = c\<lparr>cn_gatt_result_len := 0, cn_gatt_result := (cn_gatt_result c)[0 := 0]\<rparr>
      in ((op, buf[0 := op], len), c))"

section \<open>Fragmentation\<close>

text \<open>The first octet of a data channel PDU as the connection writes it: the acknowledgement bit
  is sent inverted.\<close>

definition ll_header :: "u8 \<Rightarrow> conn \<Rightarrow> u8" where
  "ll_header llid c = (llid AND 3) OR push_bit 2 (of_bool (\<not> cn_nesn c)) OR push_bit 3 (of_bool (cn_sn c))"

definition tx_fragment :: "conn \<Rightarrow> (nat \<times> conn) option" where
  "tx_fragment c = do {
     let att_len = cn_tx_att_len c;
     let remaining = (if cn_tx_frag_offset c \<le> att_len then att_len - cn_tx_frag_offset c
                      else att_len + 2 ^ 32 - cn_tx_frag_offset c);
     let first = (cn_tx_frag_offset c = 0);
     let avail = (if first then cn_tx_pdu_max c - 4 else cn_tx_pdu_max c);
     let chunk = min remaining avail;
     let complete = (first \<and> chunk = att_len);
     let llid = (if complete then LLID_DATA_COMPLETE
                 else if first then LLID_DATA_START
                 else LLID_DATA_CONTINUATION_OR_COMPLETE);
     let payload_len = (if first then 4 + chunk else chunk);
     buf \<leftarrow> put (cn_tx_buf c) 0 (ll_header llid c);
     buf \<leftarrow> put buf 1 (of_nat payload_len);
     src \<leftarrow> slice (cn_tx_att c) (cn_tx_frag_offset c) (cn_tx_frag_offset c + chunk);
     buf \<leftarrow> (if first then do {
                buf \<leftarrow> copy_slice buf 2 4 (le16 (of_nat att_len));
                buf \<leftarrow> copy_slice buf 4 6 (le16 (cn_tx_cid c));
                copy_slice buf 6 (6 + chunk) src
              } else copy_slice buf 2 (2 + chunk) src);
     let c = c\<lparr>cn_tx_buf := buf, cn_tx_frag_offset := cn_tx_frag_offset c + chunk\<rparr>;
     let c = (if cn_tx_frag_offset c \<ge> att_len then c\<lparr>cn_tx_pending := False, cn_tx_frag_offset := 0\<rparr> else c);
     Some (2 + payload_len, c)
   }"

section \<open>The shape of a connection\<close>

text \<open>What the array types promise, and the bounds every operation keeps.\<close>

definition coc_ok :: "coc \<Rightarrow> bool" where
  "coc_ok k \<longleftrightarrow> length (coc_rx_sdu k) = 256 \<and> length (coc_tx_sdu k) = 256 \<and> coc_rx_sdu_len k \<le> 256 \<and>
     unat (coc_mtu k) \<le> 247"

definition conn_ok :: "conn \<Rightarrow> bool" where
  "conn_ok c \<longleftrightarrow> length (cn_channel_map c) = 5 \<and> length (cn_rx_l2cap c) = 256 \<and> cn_rx_l2cap_len c \<le> 256 \<and>
     length (cn_tx_att c) = 251 \<and> cn_tx_att_len c \<le> 251 \<and> (\<forall>k. cn_coc c = Some k \<longrightarrow> coc_ok k) \<and>
     length (cn_peer_addr c) = 6 \<and> length (cn_rx_data c) = 244 \<and> cn_rx_data_len c \<le> 244 \<and>
     length (cn_tx_buf c) = 64 \<and> length (cn_rx_buf c) = 64 \<and> smp_wf (cn_smp c) \<and>
     (\<forall>k. cn_pending_control c = Some k \<longrightarrow> length k = 19) \<and>
     length (cn_gatt_result c) = 64 \<and> cn_gatt_result_len c \<le> 64 \<and> 23 \<le> unat (cn_att_mtu c) \<and>
     length (ccm_cfg (cn_ccm c)) = 45"

lemma conn_new_ok: "length (cr_channel_map p) = 5 \<Longrightarrow> conn_ok (conn_new p ch now role)"
  by (simp add: conn_ok_def conn_new_def Let_def buffer_sizes smp_new_wf ccm_new_def)

lemma coc_new_ok: "coc_ok (coc_new psm)"
  by (simp add: coc_ok_def coc_new_def COC_MTU_def)

text \<open>The fields the invariant leaves free, and the conditions on the others.\<close>

lemma conn_ok_free [simp]:
  "conn_ok (c\<lparr>cn_role := x0\<rparr>) = conn_ok c" "conn_ok (c\<lparr>cn_access_addr := x1\<rparr>) = conn_ok c"
  "conn_ok (c\<lparr>cn_crc_init := x2\<rparr>) = conn_ok c" "conn_ok (c\<lparr>cn_interval := x3\<rparr>) = conn_ok c"
  "conn_ok (c\<lparr>cn_timeout := x4\<rparr>) = conn_ok c" "conn_ok (c\<lparr>cn_hop := x5\<rparr>) = conn_ok c"
  "conn_ok (c\<lparr>cn_channel := x6\<rparr>) = conn_ok c" "conn_ok (c\<lparr>cn_sn := x7\<rparr>) = conn_ok c"
  "conn_ok (c\<lparr>cn_nesn := x8\<rparr>) = conn_ok c" "conn_ok (c\<lparr>cn_anchor := x9\<rparr>) = conn_ok c"
  "conn_ok (c\<lparr>cn_accum := x10\<rparr>) = conn_ok c" "conn_ok (c\<lparr>cn_rx_l2cap_msg_len := x11\<rparr>) = conn_ok c"
  "conn_ok (c\<lparr>cn_rx_l2cap_cid := x12\<rparr>) = conn_ok c" "conn_ok (c\<lparr>cn_tx_frag_offset := x13\<rparr>) = conn_ok c"
  "conn_ok (c\<lparr>cn_tx_pending := x14\<rparr>) = conn_ok c" "conn_ok (c\<lparr>cn_tx_cid := x15\<rparr>) = conn_ok c"
  "conn_ok (c\<lparr>cn_tx_pdu_max := x16\<rparr>) = conn_ok c" "conn_ok (c\<lparr>cn_rx_pdu_max := x17\<rparr>) = conn_ok c"
  "conn_ok (c\<lparr>cn_bond_store := x18\<rparr>) = conn_ok c" "conn_ok (c\<lparr>cn_peer_version_ok := x19\<rparr>) = conn_ok c"
  "conn_ok (c\<lparr>cn_last_rx := x20\<rparr>) = conn_ok c" "conn_ok (c\<lparr>cn_terminate_pending := x21\<rparr>) = conn_ok c"
  "conn_ok (c\<lparr>cn_nus_cccd := x22\<rparr>) = conn_ok c" "conn_ok (c\<lparr>cn_event_counter := x23\<rparr>) = conn_ok c"
  "conn_ok (c\<lparr>cn_pending_update := x24\<rparr>) = conn_ok c" "conn_ok (c\<lparr>cn_pending_update_instant := x25\<rparr>) = conn_ok c"
  "conn_ok (c\<lparr>cn_pending_request := x26\<rparr>) = conn_ok c" "conn_ok (c\<lparr>cn_encrypted := x27\<rparr>) = conn_ok c"
  "conn_ok (c\<lparr>cn_packet_counter := x28\<rparr>) = conn_ok c" "conn_ok (c\<lparr>cn_want_encrypt := x29\<rparr>) = conn_ok c"
  "conn_ok (c\<lparr>cn_pairing_in_progress := x30\<rparr>) = conn_ok c"
  by (simp_all add: conn_ok_def)

lemma conn_ok_set:
  "conn_ok c \<Longrightarrow> length b = 256 \<Longrightarrow> conn_ok (c\<lparr>cn_rx_l2cap := b\<rparr>)"
  "conn_ok c \<Longrightarrow> n \<le> 256 \<Longrightarrow> conn_ok (c\<lparr>cn_rx_l2cap_len := n\<rparr>)"
  "conn_ok c \<Longrightarrow> length b = 251 \<Longrightarrow> conn_ok (c\<lparr>cn_tx_att := b\<rparr>)"
  "conn_ok c \<Longrightarrow> n \<le> 251 \<Longrightarrow> conn_ok (c\<lparr>cn_tx_att_len := n\<rparr>)"
  "conn_ok c \<Longrightarrow> (\<And>k. co = Some k \<Longrightarrow> coc_ok k) \<Longrightarrow> conn_ok (c\<lparr>cn_coc := co\<rparr>)"
  "conn_ok c \<Longrightarrow> length b = 244 \<Longrightarrow> conn_ok (c\<lparr>cn_rx_data := b\<rparr>)"
  "conn_ok c \<Longrightarrow> n \<le> 244 \<Longrightarrow> conn_ok (c\<lparr>cn_rx_data_len := n\<rparr>)"
  "conn_ok c \<Longrightarrow> length b = 64 \<Longrightarrow> conn_ok (c\<lparr>cn_tx_buf := b\<rparr>)"
  "conn_ok c \<Longrightarrow> length b = 64 \<Longrightarrow> conn_ok (c\<lparr>cn_rx_buf := b\<rparr>)"
  "conn_ok c \<Longrightarrow> smp_wf s \<Longrightarrow> conn_ok (c\<lparr>cn_smp := s\<rparr>)"
  "conn_ok c \<Longrightarrow> (\<And>k. pc = Some k \<Longrightarrow> length k = 19) \<Longrightarrow> conn_ok (c\<lparr>cn_pending_control := pc\<rparr>)"
  "conn_ok c \<Longrightarrow> length b = 64 \<Longrightarrow> conn_ok (c\<lparr>cn_gatt_result := b\<rparr>)"
  "conn_ok c \<Longrightarrow> n \<le> 64 \<Longrightarrow> conn_ok (c\<lparr>cn_gatt_result_len := n\<rparr>)"
  "conn_ok c \<Longrightarrow> 23 \<le> unat m \<Longrightarrow> conn_ok (c\<lparr>cn_att_mtu := m\<rparr>)"
  "conn_ok c \<Longrightarrow> length (ccm_cfg cc) = 45 \<Longrightarrow> conn_ok (c\<lparr>cn_ccm := cc\<rparr>)"
  by (simp_all add: conn_ok_def)

lemma conn_ok_lengths:
  "conn_ok c \<Longrightarrow> length (cn_channel_map c) = 5" "conn_ok c \<Longrightarrow> length (cn_rx_l2cap c) = 256"
  "conn_ok c \<Longrightarrow> cn_rx_l2cap_len c \<le> 256" "conn_ok c \<Longrightarrow> length (cn_tx_att c) = 251"
  "conn_ok c \<Longrightarrow> cn_tx_att_len c \<le> 251" "conn_ok c \<Longrightarrow> cn_coc c = Some k \<Longrightarrow> coc_ok k"
  "conn_ok c \<Longrightarrow> length (cn_rx_data c) = 244" "conn_ok c \<Longrightarrow> length (cn_tx_buf c) = 64"
  "conn_ok c \<Longrightarrow> length (cn_rx_buf c) = 64" "conn_ok c \<Longrightarrow> smp_wf (cn_smp c)"
  "conn_ok c \<Longrightarrow> cn_pending_control c = Some p \<Longrightarrow> length p = 19" "conn_ok c \<Longrightarrow> length (cn_gatt_result c) = 64"
  "conn_ok c \<Longrightarrow> length (ccm_cfg (cn_ccm c)) = 45"
  by (simp_all add: conn_ok_def)

lemma queue_ok [simp]:
  "conn_ok c \<Longrightarrow> conn_ok (queue_att m c)" "conn_ok c \<Longrightarrow> conn_ok (queue_notify m c)"
  "conn_ok c \<Longrightarrow> conn_ok (terminate c)" "conn_ok c \<Longrightarrow> conn_ok (queue_signaling m c)"
  "conn_ok c \<Longrightarrow> conn_ok (queue_l2cap m cid c)" "conn_ok c \<Longrightarrow> length peer = 6 \<Longrightarrow> conn_ok (set_peer peer c)"
  "conn_ok c \<Longrightarrow> conn_ok (queue_encrypt_req c)" "conn_ok c \<Longrightarrow> conn_ok (gatt_send_request m c)"
  "conn_ok c \<Longrightarrow> conn_ok (snd (gatt_take_result c))"
  by (simp_all add: conn_ok_def queue_att_def queue_notify_def terminate_def queue_signaling_def
      queue_l2cap_def set_peer_def queue_encrypt_req_def gatt_send_request_def gatt_take_result_def Let_def
      ATT_PAYLOAD_MAX_def ATT_MTU_MAX_def)

section \<open>The fragments of a message\<close>

text \<open>The message that is queued, and the loop that sends it: one fragment after the other, as
  its link-layer identifier and payload, until nothing is pending; \<open>fuel\<close> bounds the rounds
  and running out of it is \<open>None\<close>.\<close>

definition queued :: "conn \<Rightarrow> bytes" where
  "queued c = take (cn_tx_att_len c) (cn_tx_att c)"

fun send_all :: "nat \<Rightarrow> conn \<Rightarrow> ((u8 \<times> bytes) list \<times> conn) option" where
  "send_all 0 c = (if cn_tx_pending c then None else Some ([], c))"
| "send_all (Suc fuel) c =
     (if cn_tx_pending c then do {
        (total, c) \<leftarrow> tx_fragment c;
        (fs, c') \<leftarrow> send_all fuel c;
        Some ((cn_tx_buf c ! 0 AND 3, take (total - 2) (drop 2 (cn_tx_buf c))) # fs, c')
      } else Some ([], c))"

function chunks :: "nat \<Rightarrow> 'a list \<Rightarrow> 'a list list" where
  "chunks m xs = (if xs = [] \<or> m = 0 then [] else take m xs # chunks m (drop m xs))"
  by pat_completeness auto
termination
  by (relation "measure (\<lambda>(m, xs). length xs)") auto

declare chunks.simps [simp del]

lemma ll_header_llid: "l \<le> 3 \<Longrightarrow> ll_header l c AND 3 = l"
proof -
  assume "l \<le> 3"
  then have "l < 2 ^ 2" by (simp add: word_le_nat_alt word_less_nat_alt)
  then have l: "bit l i \<Longrightarrow> i < 2" for i using less_exp_bit [of l 2] by simp
  show ?thesis
    unfolding ll_header_def by (rule bit_word_eqI) (auto simp: and_masks bit_simps dest: l)
qed

lemma put_header: "2 \<le> length b \<Longrightarrow> b[0 := x, Suc 0 := y] = [x, y] @ drop 2 b"
  by (cases b; cases "tl b") auto

lemma tx_fragment_first:
  assumes "conn_ok c" and "cn_tx_frag_offset c = 0" and "cn_tx_pdu_max c \<le> 62 \<or> cn_tx_att_len c \<le> 58"
  defines "k \<equiv> min (cn_tx_att_len c) (cn_tx_pdu_max c - 4)"
  shows "\<exists>buf. length buf = 64 \<and>
    buf ! 0 = ll_header (if k = cn_tx_att_len c then LLID_DATA_COMPLETE else LLID_DATA_START) c \<and>
    take (4 + k) (drop 2 buf) = le16 (of_nat (cn_tx_att_len c)) @ le16 (cn_tx_cid c) @ take k (queued c) \<and>
    tx_fragment c = Some (6 + k, c\<lparr>cn_tx_buf := buf, cn_tx_pending := cn_tx_pending c \<and> k < cn_tx_att_len c,
           cn_tx_frag_offset := if k < cn_tx_att_len c then k else 0\<rparr>)"
proof -
  let ?b = "cn_tx_buf c" and ?n = "cn_tx_att_len c"
  let ?h = "ll_header (if k = ?n then LLID_DATA_COMPLETE else LLID_DATA_START) c"
  let ?buf = "[?h, of_nat (4 + k)] @ le16 (of_nat ?n) @ le16 (cn_tx_cid c) @ take k (cn_tx_att c) @ drop (6 + k) ?b"
  have ok: "length ?b = 64" "length (cn_tx_att c) = 251" "?n \<le> 251" "k \<le> 58" "k \<le> ?n"
    using assms by (auto simp: conn_ok_def)
  have c2: "copy_slice ([x, y] @ drop 2 ?b) 2 4 v = Some ([x, y] @ v @ drop 4 ?b)" if "length v = 2" for x y v
    using ok that by (simp add: copy_slice_def drop_drop)
  have c4: "copy_slice ([x, y] @ v @ drop 4 ?b) 4 6 w = Some ([x, y] @ v @ w @ drop 6 ?b)"
    if "length v = 2" "length w = 2" for x y v w
    using ok that by (simp add: copy_slice_def drop_drop)
  have c6: "copy_slice ([x, y] @ v @ w @ drop 6 ?b) 6 (6 + k) z = Some ([x, y] @ v @ w @ z @ drop (6 + k) ?b)"
    if "length v = 2" "length w = 2" "length z = k" for x y v w z
    using ok that drop_append [of "6 + k" "[x, y] @ v @ w" "drop 6 ?b"] take_append [of 6 "[x, y] @ v @ w" "drop 6 ?b"]
    by (simp add: copy_slice_def drop_drop add.commute)
  have "tx_fragment c = Some (6 + k, c\<lparr>cn_tx_buf := ?buf, cn_tx_pending := cn_tx_pending c \<and> k < ?n,
           cn_tx_frag_offset := if k < ?n then k else 0\<rparr>)"
  proof -
    have k: "min (?n - 0) (cn_tx_pdu_max c - 4) = k" by (simp add: k_def)
    have p: "put ?b 0 x = Some (?b[0 := x])" "put (?b[0 := x]) 1 y = Some ([x, y] @ drop 2 ?b)" for x y
      using ok put_header [of ?b x y] by simp_all
    have sl: "slice (cn_tx_att c) 0 (0 + k) = Some (take k (cn_tx_att c))" using ok by simp
    have le: "length (le16 w) = 2" "length (take k (cn_tx_att c)) = k" for w using ok by simp_all
    show ?thesis
      unfolding tx_fragment_def Let_def assms(2)
      by (simp only: k p sl c2 c4 c6 le bind.bind_lunit le0 if_True simp_thms refl)
        (auto simp: not_less)
  qed
  moreover have "take (4 + k) (drop 2 ?buf) = le16 (of_nat ?n) @ le16 (cn_tx_cid c) @ take k (queued c)"
    using ok by (simp add: queued_def min_absorb1)
  moreover have "length (queued c) = ?n" using ok by (simp add: queued_def)
  ultimately show ?thesis using ok by (intro exI [of _ ?buf]) simp
qed

lemma tx_fragment_next:
  assumes "conn_ok c" and "0 < cn_tx_frag_offset c" and "cn_tx_frag_offset c < cn_tx_att_len c" and "cn_tx_pdu_max c \<le> 62"
  defines "k \<equiv> min (cn_tx_att_len c - cn_tx_frag_offset c) (cn_tx_pdu_max c)"
  shows "\<exists>buf. length buf = 64 \<and> buf ! 0 = ll_header LLID_DATA_CONTINUATION_OR_COMPLETE c \<and>
    take k (drop 2 buf) = take k (drop (cn_tx_frag_offset c) (queued c)) \<and>
    tx_fragment c = Some (2 + k, c\<lparr>cn_tx_buf := buf,
           cn_tx_pending := cn_tx_pending c \<and> cn_tx_frag_offset c + k < cn_tx_att_len c,
           cn_tx_frag_offset := if cn_tx_frag_offset c + k < cn_tx_att_len c then cn_tx_frag_offset c + k else 0\<rparr>)"
proof -
  let ?b = "cn_tx_buf c" and ?n = "cn_tx_att_len c" and ?o = "cn_tx_frag_offset c"
  let ?z = "take k (drop ?o (cn_tx_att c))"
  let ?buf = "[ll_header LLID_DATA_CONTINUATION_OR_COMPLETE c, of_nat k] @ ?z @ drop (2 + k) ?b"
  have ok: "length ?b = 64" "length (cn_tx_att c) = 251" "?n \<le> 251" "k \<le> 62" "?o + k \<le> ?n"
    using assms by (auto simp: conn_ok_def)
  have c2: "copy_slice ([x, y] @ drop 2 ?b) 2 (2 + k) z = Some ([x, y] @ z @ drop (2 + k) ?b)" if "length z = k" for x y z
    using ok that by (simp add: copy_slice_def drop_drop add.commute)
  have "tx_fragment c = Some (2 + k, c\<lparr>cn_tx_buf := ?buf, cn_tx_pending := cn_tx_pending c \<and> ?o + k < ?n,
           cn_tx_frag_offset := if ?o + k < ?n then ?o + k else 0\<rparr>)"
  proof -
    have p: "put ?b 0 x = Some (?b[0 := x])" "put (?b[0 := x]) 1 y = Some ([x, y] @ drop 2 ?b)" for x y
      using ok put_header [of ?b x y] by simp_all
    have sl: "slice (cn_tx_att c) ?o (?o + k) = Some ?z" using ok by simp
    have le: "length ?z = k" "?o \<noteq> 0" "?o \<le> ?n" using ok assms(2,3) by auto
    show ?thesis
      unfolding tx_fragment_def Let_def
      by (simp only: k_def [symmetric] p sl c2 le bind.bind_lunit if_True if_False simp_thms refl)
        (auto simp: not_less)
  qed
  moreover have "take k (drop 2 ?buf) = take k (drop ?o (queued c))"
    using ok by (simp add: queued_def drop_take min_absorb1)
  moreover have "length (queued c) = ?n" using ok by (simp add: queued_def)
  ultimately show ?thesis using ok by (intro exI [of _ ?buf]) simp
qed

lemma conn_ok_tx_update:
  "conn_ok c \<Longrightarrow> length b = 64 \<Longrightarrow> conn_ok (c\<lparr>cn_tx_buf := b, cn_tx_pending := p, cn_tx_frag_offset := off\<rparr>)"
  by (simp add: conn_ok_def)

lemma length_queued: "conn_ok c \<Longrightarrow> length (queued c) = cn_tx_att_len c"
  by (simp add: conn_ok_def queued_def)

lemma send_all_next:
  assumes "conn_ok c" and "cn_tx_pending c" and "0 < cn_tx_frag_offset c" and "cn_tx_frag_offset c < cn_tx_att_len c"
    and "0 < cn_tx_pdu_max c" and "cn_tx_pdu_max c \<le> 62" and "cn_tx_att_len c - cn_tx_frag_offset c \<le> fuel"
  shows "\<exists>c'. send_all fuel c =
      Some (map (Pair LLID_DATA_CONTINUATION_OR_COMPLETE) (chunks (cn_tx_pdu_max c) (drop (cn_tx_frag_offset c) (queued c))), c') \<and>
    \<not> cn_tx_pending c' \<and> conn_ok c'"
  using assms
proof (induction fuel arbitrary: c)
  case (Suc fuel)
  let ?o = "cn_tx_frag_offset c" and ?m = "cn_tx_pdu_max c" and ?n = "cn_tx_att_len c"
  let ?l = "LLID_DATA_CONTINUATION_OR_COMPLETE"
  define k where "k = min (?n - ?o) ?m"
  obtain buf where buf: "length buf = 64" "buf ! 0 = ll_header ?l c" "take k (drop 2 buf) = take k (drop ?o (queued c))"
    "tx_fragment c = Some (2 + k, c\<lparr>cn_tx_buf := buf, cn_tx_pending := cn_tx_pending c \<and> ?o + k < ?n,
       cn_tx_frag_offset := if ?o + k < ?n then ?o + k else 0\<rparr>)"
    using tx_fragment_next [OF Suc.prems(1,3,4,6)] unfolding k_def by blast
  let ?c = "c\<lparr>cn_tx_buf := buf, cn_tx_pending := cn_tx_pending c \<and> ?o + k < ?n,
       cn_tx_frag_offset := if ?o + k < ?n then ?o + k else 0\<rparr>"
  have hd: "buf ! 0 AND 3 = ?l" unfolding buf(2) by (rule ll_header_llid) (simp add: llids)
  have ok: "conn_ok ?c" using Suc.prems(1) buf(1) by (rule conn_ok_tx_update)
  have len: "length (queued c) = ?n" using Suc.prems(1) by (rule length_queued)
  have chunk: "chunks ?m (drop ?o (queued c)) = take k (drop ?o (queued c)) # chunks ?m (drop (?o + k) (queued c))"
    using Suc.prems(4,5) len by (subst chunks.simps) (auto simp: k_def min_def drop_drop add.commute)
  show ?case
  proof (cases "?o + k < ?n")
    case True
    let ?d = "c\<lparr>cn_tx_buf := buf, cn_tx_pending := True, cn_tx_frag_offset := ?o + k\<rparr>"
    have d: "?c = ?d" using True Suc.prems(2) by simp
    have "0 < k" using Suc.prems(4,5) by (simp add: k_def)
    then have "?n - (?o + k) \<le> fuel" using Suc.prems(7) by linarith
    then obtain c' where
      "send_all fuel ?c = Some (map (Pair ?l) (chunks ?m (drop (?o + k) (queued c))), c')" "\<not> cn_tx_pending c'" "conn_ok c'"
      using Suc.IH [of ?d] Suc.prems(3,5,6) True ok unfolding d by (auto simp: queued_def)
    with Suc.prems(2) buf(3,4) hd chunk show ?thesis by simp
  next
    case False
    then have "drop (?o + k) (queued c) = []" using len by simp
    then have "chunks ?m (drop ?o (queued c)) = [take k (drop ?o (queued c))]"
      using chunk by (simp add: chunks.simps [of ?m "[]"])
    moreover have "send_all fuel ?c = Some ([], ?c)" using False by (cases fuel) simp_all
    ultimately show ?thesis using Suc.prems(2) buf(3,4) hd ok False by simp
  qed
qed simp

text \<open>The fragments of the queued message: the first carries the L2CAP header.\<close>

definition fragments_of :: "nat \<Rightarrow> u16 \<Rightarrow> bytes \<Rightarrow> (u8 \<times> bytes) list" where
  "fragments_of m cid msg =
     (if length msg \<le> m - 4 then LLID_DATA_COMPLETE else LLID_DATA_START,
      le16 (of_nat (length msg)) @ le16 cid @ take (m - 4) msg) #
     map (Pair LLID_DATA_CONTINUATION_OR_COMPLETE) (chunks m (drop (m - 4) msg))"

lemma send_all_fragments:
  assumes "conn_ok c" and "cn_tx_pending c" and "cn_tx_frag_offset c = 0" and "5 \<le> cn_tx_pdu_max c"
    and "cn_tx_pdu_max c \<le> 62 \<or> cn_tx_att_len c \<le> 58" and "cn_tx_att_len c < fuel"
  shows "\<exists>c'. send_all fuel c = Some (fragments_of (cn_tx_pdu_max c) (cn_tx_cid c) (queued c), c') \<and>
    \<not> cn_tx_pending c' \<and> conn_ok c'"
proof -
  let ?m = "cn_tx_pdu_max c" and ?n = "cn_tx_att_len c"
  define k where "k = min ?n (?m - 4)"
  obtain fuel' where fuel: "fuel = Suc fuel'" using assms(6) by (cases fuel) auto
  have len: "length (queued c) = ?n" using assms(1) by (rule length_queued)
  let ?l = "if k = ?n then LLID_DATA_COMPLETE else LLID_DATA_START"
  obtain buf where buf: "length buf = 64" "buf ! 0 = ll_header ?l c"
    "take (4 + k) (drop 2 buf) = le16 (of_nat ?n) @ le16 (cn_tx_cid c) @ take k (queued c)"
    "tx_fragment c = Some (6 + k, c\<lparr>cn_tx_buf := buf, cn_tx_pending := cn_tx_pending c \<and> k < ?n,
       cn_tx_frag_offset := if k < ?n then k else 0\<rparr>)"
    using tx_fragment_first [OF assms(1,3,5)] unfolding k_def by blast
  let ?c = "c\<lparr>cn_tx_buf := buf, cn_tx_pending := cn_tx_pending c \<and> k < ?n, cn_tx_frag_offset := if k < ?n then k else 0\<rparr>"
  have hd: "buf ! 0 AND 3 = ?l" unfolding buf(2) by (rule ll_header_llid) (simp add: llids)
  have ok: "conn_ok ?c" using assms(1) buf(1) by (rule conn_ok_tx_update)
  have k: "take k (queued c) = take (?m - 4) (queued c)" "(k = ?n) = (length (queued c) \<le> ?m - 4)"
    using len by (auto simp: k_def min_def)
  show ?thesis
  proof (cases "k < ?n")
    case True
    then have km: "k = ?m - 4" "?m \<le> 62" using assms(5) by (auto simp: k_def)
    have "\<exists>c'. send_all fuel' ?c = Some (map (Pair LLID_DATA_CONTINUATION_OR_COMPLETE) (chunks ?m (drop k (queued c))), c') \<and>
        \<not> cn_tx_pending c' \<and> conn_ok c'"
      using send_all_next [OF ok, of fuel'] True assms km fuel by (auto simp: queued_def)
    then show ?thesis
      using assms(2) buf(3,4) hd km k len fuel True by (auto simp: fragments_of_def)
  next
    case False
    then have "drop (?m - 4) (queued c) = []" using len by (auto simp: k_def)
    moreover have "send_all fuel' ?c = Some ([], ?c)" using False by (cases fuel') simp_all
    ultimately show ?thesis
      using assms(2) buf(3,4) hd k len fuel False ok by (auto simp: fragments_of_def chunks.simps [of ?m "[]"] k_def)
  qed
qed

text \<open>Outside these bounds the sender fails: a first fragment above 58 octets does not fit the
  64-octet \<open>tx_buf\<close>, and a negotiated size that leaves no room behind the L2CAP header never
  moves the offset.\<close>

lemma tx_fragment_overrun:
  assumes "conn_ok c" and "cn_tx_frag_offset c = 0" and "62 < cn_tx_pdu_max c" and "58 < cn_tx_att_len c"
  shows "tx_fragment c = None"
proof -
  define k where "k = min (cn_tx_att_len c) (cn_tx_pdu_max c - 4)"
  let ?b = "cn_tx_buf c"
  have k: "58 < k" "min (cn_tx_att_len c - 0) (cn_tx_pdu_max c - 4) = k" using assms(3,4) by (auto simp: k_def)
  have ok: "length ?b = 64" "length (cn_tx_att c) = 251" "k \<le> 251"
    using assms(1) by (auto simp: conn_ok_def k_def)
  have p: "put ?b 0 x = Some (?b[0 := x])" "put (?b[0 := x]) 1 y = Some ([x, y] @ drop 2 ?b)" for x y
    using ok put_header [of ?b x y] by simp_all
  have sl: "slice (cn_tx_att c) 0 (0 + k) = Some (take k (cn_tx_att c))" using ok by simp
  have le: "length (le16 w) = 2" for w by simp
  have c2: "copy_slice ([x, y] @ drop 2 ?b) 2 4 v = Some ([x, y] @ v @ drop 4 ?b)" if "length v = 2" for x y v
    using ok that by (simp add: copy_slice_def drop_drop)
  have c4: "copy_slice ([x, y] @ v @ drop 4 ?b) 4 6 w = Some ([x, y] @ v @ w @ drop 6 ?b)"
    if "length v = 2" "length w = 2" for x y v w
    using ok that by (simp add: copy_slice_def drop_drop)
  have c6: "copy_slice ([x, y] @ v @ w @ drop 6 ?b) 6 (6 + k) z = None" if "length v = 2" "length w = 2" for x y v w z
    using ok that k(1) by (simp add: copy_slice_def)
  show ?thesis
    unfolding tx_fragment_def Let_def assms(2)
    by (simp only: k(2) p sl c2 c4 c6 le bind.bind_lunit bind.bind_lzero le0 if_True simp_thms refl)
qed

lemma send_all_stuck:
  assumes "conn_ok c" and "cn_tx_pending c" and "cn_tx_frag_offset c = 0" and "cn_tx_pdu_max c \<le> 4" and "0 < cn_tx_att_len c"
  shows "send_all fuel c = None"
  using assms
proof (induction fuel arbitrary: c)
  case (Suc fuel)
  obtain buf where buf: "length buf = 64"
    "tx_fragment c = Some (6, c\<lparr>cn_tx_buf := buf, cn_tx_pending := True, cn_tx_frag_offset := 0\<rparr>)"
    using tx_fragment_first [OF Suc.prems(1,3)] Suc.prems(2,4,5) by auto
  then have "send_all fuel (c\<lparr>cn_tx_buf := buf, cn_tx_pending := True, cn_tx_frag_offset := 0\<rparr>) = None"
    using Suc.prems conn_ok_tx_update [OF Suc.prems(1) buf(1)] by (intro Suc.IH) simp_all
  with buf Suc.prems(2) show ?case by simp
qed simp

text \<open>A fresh connection with all channels in use, for the concrete instances.\<close>

definition example_conn :: "conn_role \<Rightarrow> conn" where
  "example_conn role =
     conn_new \<lparr>cr_access_addr = 0x71764129, cr_crc_init = 0x123456, cr_win_size = 1, cr_win_offset = 0,
       cr_interval = 40, cr_latency = 0, cr_timeout = 100, cr_channel_map = replicate 5 0xFF, cr_hop = 7,
       cr_sca = 0\<rparr> 0 0 role"

lemma example_conn_ok: "conn_ok (example_conn role)"
  by (simp add: example_conn_def conn_new_ok)

end
