(* ===== verification/Conn_Att.thy ===== *)
theory Conn_Att
  imports Conn_State
begin

text \<open>The ATT server and the GATT table of the Nordic UART Service in \<^verbatim>\<open>src/hw/conn.rs\<close>:
  \<open>handle_att\<close> and the table functions it calls. Every handler takes the connection and the
  event to report and returns both; a panic on a request too short for its fields is
  \<open>None\<close>.\<close>

section \<open>The attribute table\<close>

definition GATT_UUID_PRIMARY_SERVICE :: u16 where "GATT_UUID_PRIMARY_SERVICE = 0x2800"
definition GATT_UUID_CHARACTERISTIC :: u16 where "GATT_UUID_CHARACTERISTIC = 0x2803"
definition GATT_UUID_CLIENT_CHAR_CFG :: u16 where "GATT_UUID_CLIENT_CHAR_CFG = 0x2902"

lemmas gatt_uuids = GATT_UUID_PRIMARY_SERVICE_def GATT_UUID_CHARACTERISTIC_def GATT_UUID_CLIENT_CHAR_CFG_def

definition NUS_SERVICE_UUID :: bytes where
  "NUS_SERVICE_UUID =
     [0x9E, 0xCA, 0xDC, 0x24, 0x0E, 0xE5, 0xA9, 0xE0, 0x93, 0xF3, 0xA3, 0xB5, 0x01, 0x00, 0x40, 0x6E]"

definition NUS_TX_CHAR_UUID :: bytes where
  "NUS_TX_CHAR_UUID =
     [0x9E, 0xCA, 0xDC, 0x24, 0x0E, 0xE5, 0xA9, 0xE0, 0x93, 0xF3, 0xA3, 0xB5, 0x03, 0x00, 0x40, 0x6E]"

definition NUS_RX_CHAR_UUID :: bytes where
  "NUS_RX_CHAR_UUID =
     [0x9E, 0xCA, 0xDC, 0x24, 0x0E, 0xE5, 0xA9, 0xE0, 0x93, 0xF3, 0xA3, 0xB5, 0x02, 0x00, 0x40, 0x6E]"

lemmas nus_uuids = NUS_SERVICE_UUID_def NUS_TX_CHAR_UUID_def NUS_RX_CHAR_UUID_def

datatype gatt_uuid = Uuid16 u16 | Uuid128 bytes

fun as_u16 :: "gatt_uuid \<Rightarrow> u16 option" where
  "as_u16 (Uuid16 u) = Some u"
| "as_u16 (Uuid128 _) = None"

fun to_128 :: "gatt_uuid \<Rightarrow> bytes" where
  "to_128 (Uuid128 u) = u"
| "to_128 (Uuid16 _) = replicate 16 0"

definition entries :: "u16 \<Rightarrow> u16 \<Rightarrow> (u16 \<times> gatt_uuid) list" where
  "entries start fin =
     filter (\<lambda>(h, u). h \<ge> start \<and> h \<le> fin)
       [(HANDLE_PRIMARY_SERVICE, Uuid128 NUS_SERVICE_UUID),
        (HANDLE_RX_CHAR_DECL, Uuid16 GATT_UUID_CHARACTERISTIC),
        (HANDLE_RX_VALUE, Uuid128 NUS_RX_CHAR_UUID),
        (HANDLE_TX_CHAR_DECL, Uuid16 GATT_UUID_CHARACTERISTIC),
        (HANDLE_TX_VALUE, Uuid128 NUS_TX_CHAR_UUID),
        (HANDLE_TX_CCCD, Uuid16 GATT_UUID_CLIENT_CHAR_CFG)]"

definition by_type :: "u16 \<Rightarrow> u16 \<Rightarrow> u16 \<Rightarrow> (u16 \<times> bytes \<times> nat) list" where
  "by_type start fin uuid =
     (if uuid = GATT_UUID_PRIMARY_SERVICE \<and> HANDLE_PRIMARY_SERVICE \<ge> start \<and> HANDLE_PRIMARY_SERVICE \<le> fin
      then [(HANDLE_PRIMARY_SERVICE, NUS_SERVICE_UUID @ replicate 3 0, 16)] else []) @
     (if uuid = GATT_UUID_CHARACTERISTIC \<and> HANDLE_RX_CHAR_DECL \<ge> start \<and> HANDLE_RX_CHAR_DECL \<le> fin
      then [(HANDLE_RX_CHAR_DECL, [0x08] @ le16 HANDLE_RX_VALUE @ NUS_RX_CHAR_UUID, 19)] else []) @
     (if uuid = GATT_UUID_CHARACTERISTIC \<and> HANDLE_TX_CHAR_DECL \<ge> start \<and> HANDLE_TX_CHAR_DECL \<le> fin
      then [(HANDLE_TX_CHAR_DECL, [0x20] @ le16 HANDLE_TX_VALUE @ NUS_TX_CHAR_UUID, 19)] else []) @
     (if uuid = GATT_UUID_CLIENT_CHAR_CFG \<and> HANDLE_TX_CCCD \<ge> start \<and> HANDLE_TX_CCCD \<le> fin
      then [(HANDLE_TX_CCCD, replicate 19 0, 2)] else [])"

definition primary_services :: "u16 \<Rightarrow> u16 \<Rightarrow> (u16 \<times> bytes) list" where
  "primary_services start fin =
     (if HANDLE_PRIMARY_SERVICE \<ge> start \<and> HANDLE_PRIMARY_SERVICE \<le> fin
      then [(HANDLE_PRIMARY_SERVICE, NUS_SERVICE_UUID)] else [])"

definition gatt_read :: "conn \<Rightarrow> u16 \<Rightarrow> bytes \<Rightarrow> (nat \<times> bytes) option" where
  "gatt_read c handle out =
     (if handle = HANDLE_TX_VALUE then Some (0, out)
      else if handle = HANDLE_TX_CCCD then Some (2, out[0 := cn_nus_cccd c, 1 := 0])
      else None)"

definition gatt_write :: "u16 \<Rightarrow> bytes \<Rightarrow> conn \<times> conn_event \<Rightarrow> (error + unit) \<times> conn \<times> conn_event" where
  "gatt_write handle value ce =
     (case ce of (c, ev) \<Rightarrow>
        if handle = HANDLE_RX_VALUE then
          (let len = min (length value) (length (cn_rx_data c)) in
           (Inr (), c\<lparr>cn_rx_data := set_prefix (cn_rx_data c) (take len value), cn_rx_data_len := len\<rparr>, EvData))
        else if handle = HANDLE_TX_CCCD then
          (Inr (), c\<lparr>cn_nus_cccd := if length value \<ge> 2 \<and> value ! 0 AND 0x01 \<noteq> 0 then 0x01 else 0\<rparr>, ev)
        else (Inl InvalidPdu, c, ev))"

section \<open>Responses\<close>

text \<open>The loops that fill a response: the buffer and the write position go through the entries.\<close>

fun find_info_loop :: "bool \<Rightarrow> (u16 \<times> gatt_uuid) list \<Rightarrow> bytes \<Rightarrow> nat \<Rightarrow> (bytes \<times> nat) option" where
  "find_info_loop uuid16 [] rsp pos = Some (rsp, pos)"
| "find_info_loop uuid16 ((handle, uuid) # es) rsp pos =
     (case as_u16 uuid of
        Some u \<Rightarrow>
          if uuid16 then
            if pos + 4 \<le> length rsp then do {
              rsp \<leftarrow> copy_slice rsp pos (pos + 2) (le16 handle);
              rsp \<leftarrow> copy_slice rsp (pos + 2) (pos + 4) (le16 u);
              find_info_loop uuid16 es rsp (pos + 4)
            } else find_info_loop uuid16 es rsp pos
          else
            let as128 = [0, 0] @ le16 u @ replicate 12 0 in
            if pos + 18 \<le> length rsp then do {
              rsp \<leftarrow> copy_slice rsp pos (pos + 2) (le16 handle);
              rsp \<leftarrow> copy_slice rsp (pos + 2) (pos + 18) as128;
              find_info_loop uuid16 es rsp (pos + 18)
            } else find_info_loop uuid16 es rsp pos
      | None \<Rightarrow>
          if pos + 18 \<le> length rsp then do {
            rsp \<leftarrow> copy_slice rsp pos (pos + 2) (le16 handle);
            rsp \<leftarrow> copy_slice rsp (pos + 2) (pos + 18) (to_128 uuid);
            find_info_loop uuid16 es rsp (pos + 18)
          } else find_info_loop uuid16 es rsp pos)"

definition find_info_rsp :: "u16 \<Rightarrow> u16 \<Rightarrow> bytes option" where
  "find_info_rsp start fin = do {
     let es = entries start fin;
     let uuid16 = list_all (\<lambda>(h, u). as_u16 u \<noteq> None) es;
     (rsp, pos) \<leftarrow> find_info_loop uuid16 es
        ((replicate 64 0)[0 := 0x05, 1 := if uuid16 then 0x01 else 0x02]) 2;
     slice rsp 0 pos
   }"

fun by_type_loop :: "(u16 \<times> bytes \<times> nat) list \<Rightarrow> u8 \<Rightarrow> bytes \<Rightarrow> nat \<Rightarrow> (bytes \<times> nat) option" where
  "by_type_loop [] width rsp pos = Some (rsp, pos)"
| "by_type_loop ((handle, payload, plen) # es) width rsp pos = do {
     let (width, rsp) = (if width = 0 then (2 + of_nat plen, rsp[1 := 2 + of_nat plen]) else (width, rsp));
     if pos + unat width \<le> length rsp then do {
       rsp \<leftarrow> copy_slice rsp pos (pos + 2) (le16 handle);
       src \<leftarrow> slice payload 0 plen;
       rsp \<leftarrow> copy_slice rsp (pos + 2) (pos + 2 + plen) src;
       by_type_loop es width rsp (pos + unat width)
     } else by_type_loop es width rsp pos
   }"

definition read_by_type_rsp :: "u16 \<Rightarrow> u16 \<Rightarrow> u16 \<Rightarrow> bytes option" where
  "read_by_type_rsp start fin uuid = do {
     (rsp, pos) \<leftarrow> by_type_loop (by_type start fin uuid) 0 ((replicate 64 0)[0 := 0x09]) 2;
     if pos = 1 then Some [0x01, 0x0A, 0x00, 0x00, 0x08] else slice rsp 0 pos
   }"

definition read_by_group_rsp :: "u16 \<Rightarrow> u16 \<Rightarrow> u16 \<Rightarrow> bytes option" where
  "read_by_group_rsp start fin uuid =
     (if uuid = GATT_UUID_PRIMARY_SERVICE then do {
        (rsp, pos) \<leftarrow> by_type_loop (map (\<lambda>(h, svc). (h, svc, length svc)) (primary_services start fin)) 0
                       ((replicate 32 0)[0 := 0x11]) 2;
        if pos = 1 then Some [0x01, 0x10, 0x00, 0x00, 0x10] else slice rsp 0 pos
      } else Some [0x01, 0x10, 0x00, 0x00, 0x10])"

section \<open>The request handler\<close>

definition is_response :: "u8 \<Rightarrow> bool" where
  "is_response op \<longleftrightarrow> op \<in> {0x01, 0x03, 0x09, 0x0B, 0x11, 0x13, 0x15, 0x17}"

definition handle_att :: "bytes \<Rightarrow> conn \<times> conn_event \<Rightarrow> (conn \<times> conn_event) option" where
  "handle_att att ce =
     (case ce of (c, ev) \<Rightarrow>
      if att = [] then Some (c, ev)
      else
      let op = att ! 0 in
      if cn_pending_request c \<and> is_response op then
        (let c = (if op = 0x03 \<and> length att \<ge> 3
                  then c\<lparr>cn_att_mtu := max (min (cn_att_mtu c) (of_le16 (att ! 1) (att ! 2))) (of_nat ATT_MTU_DEFAULT)\<rparr>
                  else c);
             n = min (length att) (length (cn_gatt_result c))
         in Some (c\<lparr>cn_pending_request := False,
                    cn_gatt_result := set_prefix (cn_gatt_result c) (take n att), cn_gatt_result_len := n\<rparr>, ev))
      else if op = 0x1B then do {
        handle \<leftarrow> get_le16 att 1;
        let n = min (length att - 3) 20;
        d \<leftarrow> slice att 3 (3 + n);
        Some (c\<lparr>cn_rx_data := set_prefix (cn_rx_data c) d, cn_rx_data_len := n\<rparr>, EvData)
      }
      else if op = 0x02 then Some (queue_att ([0x03] @ le16 (cn_att_mtu c) @ [0, 0]) c, ev)
      else if op = 0x04 then do {
        start \<leftarrow> get_le16 att 1;
        fin \<leftarrow> get_le16 att 3;
        rsp \<leftarrow> find_info_rsp start fin;
        Some (queue_att rsp c, ev)
      }
      else if op = 0x08 then do {
        uuid \<leftarrow> get_le16 att 1;
        start \<leftarrow> get_le16 att 3;
        fin \<leftarrow> get_le16 att 5;
        rsp \<leftarrow> read_by_type_rsp start fin uuid;
        Some (queue_att rsp c, ev)
      }
      else if op = 0x0A then do {
        handle \<leftarrow> get_le16 att 1;
        case gatt_read c handle (replicate 32 0) of
          Some (vlen, value) \<Rightarrow> Some (queue_att ([0x0B] @ take vlen value) c, ev)
        | None \<Rightarrow> Some (queue_att [0x01, 0x0A, 0x00, 0x00, 0x0A] c, ev)
      }
      else if op = 0x0C then do {
        handle \<leftarrow> get_le16 att 1;
        offs \<leftarrow> get_le16 att 3;
        case gatt_read c handle (replicate 32 0) of
          Some (vlen, value) \<Rightarrow>
            if unat offs < vlen
            then Some (queue_att ([0x0D] @ drop (unat offs) (take vlen value)) c, ev)
            else Some (queue_att [0x01, 0x0C, 0x00, 0x00, 0x0A] c, ev)
        | None \<Rightarrow> Some (queue_att [0x01, 0x0C, 0x00, 0x00, 0x0A] c, ev)
      }
      else if op = 0x10 then do {
        uuid \<leftarrow> get_le16 att 1;
        start \<leftarrow> get_le16 att 3;
        fin \<leftarrow> get_le16 att 5;
        rsp \<leftarrow> read_by_group_rsp start fin uuid;
        Some (queue_att rsp c, ev)
      }
      else if op = 0x12 then do {
        handle \<leftarrow> get_le16 att 1;
        value \<leftarrow> slice att 3 (length att);
        (case gatt_write handle value (c, ev) of
           (Inr _, c, ev) \<Rightarrow> Some (queue_att [0x13] c, ev)
         | (Inl _, c, ev) \<Rightarrow> Some (queue_att [0x01, 0x12, 0x00, 0x00, 0x12] c, ev))
      }
      else if op = 0x52 then do {
        handle \<leftarrow> get_le16 att 1;
        value \<leftarrow> slice att 3 (length att);
        Some (snd (gatt_write handle value (c, ev)))
      }
      else Some (queue_att [0x01, op, 0x00, 0x00, 0x06] c, ev))"

section \<open>Responses always fit their buffers\<close>

lemma copy_pair:
  assumes "p + 2 + length b = q" and "q \<le> length rsp" and "length v = 2"
  shows "Option.bind (copy_slice rsp p (p + 2) v) (\<lambda>r. Option.bind (copy_slice r (p + 2) q b) f) =
    f (take p rsp @ v @ b @ drop q rsp)"
  using assms by (auto simp: copy_slice_def)

lemma length_spliced: "p + 2 + length b = q \<Longrightarrow> q \<le> length rsp \<Longrightarrow> length v = 2 \<Longrightarrow>
   length (take p rsp @ v @ b @ drop q rsp) = length rsp"
  by simp

lemma find_info_loop_total:
  assumes "\<forall>(h, u) \<in> set es. length (to_128 u) = 16" and "pos \<le> length rsp" and "0 < pos"
  shows "\<exists>rsp' pos'. find_info_loop b es rsp pos = Some (rsp', pos') \<and> length rsp' = length rsp \<and>
    pos \<le> pos' \<and> pos' \<le> length rsp \<and> rsp' ! 0 = rsp ! 0"
  using assms
proof (induction es arbitrary: rsp pos)
  case (Cons e es)
  obtain h u where e: "e = (h, u)" by (cases e)
  define body where "body = (case u of Uuid16 w \<Rightarrow> if b then le16 w else [0, 0] @ le16 w @ replicate 12 0 | Uuid128 w \<Rightarrow> w)"
  define q where "q = pos + 2 + length body"
  have q: "q = pos + (if b \<and> as_u16 u \<noteq> None then 4 else 18)"
    using Cons.prems by (auto simp: q_def body_def e split: gatt_uuid.split)
  have "find_info_loop b (e # es) rsp pos =
    (if q \<le> length rsp
     then Option.bind (copy_slice rsp pos (pos + 2) (le16 h))
       (\<lambda>r. Option.bind (copy_slice r (pos + 2) q body) (\<lambda>r. find_info_loop b es r q))
     else find_info_loop b es rsp pos)"
    by (cases u; cases b) (simp_all add: e body_def q Let_def del: copy_slice_Some)
  then have "find_info_loop b (e # es) rsp pos =
    (if q \<le> length rsp then find_info_loop b es (take pos rsp @ le16 h @ body @ drop q rsp) q
     else find_info_loop b es rsp pos)"
    using copy_pair [of pos body q rsp "le16 h" "\<lambda>r. find_info_loop b es r q"] by (simp add: q_def del: copy_slice_Some)
  moreover have "length (take pos rsp @ le16 h @ body @ drop q rsp) = length rsp"
    "(take pos rsp @ le16 h @ body @ drop q rsp) ! 0 = rsp ! 0" if "q \<le> length rsp"
    using that Cons.prems by (simp_all add: q_def nth_append)
  moreover have "pos \<le> q" by (simp add: q_def)
  ultimately show ?case
    using Cons.IH [of pos rsp] Cons.IH [of q "take pos rsp @ le16 h @ body @ drop q rsp"] Cons.prems
    by (force simp: e)
qed simp

lemma find_info_rsp_total: "\<exists>rsp. find_info_rsp start fin = Some rsp \<and> 2 \<le> length rsp \<and> length rsp \<le> 64 \<and> rsp ! 0 = 0x05"
proof -
  have ok: "\<forall>(h, u) \<in> set (entries start fin). length (to_128 u) = 16"
    by (auto simp: entries_def nus_uuids split: if_splits)
  show ?thesis
    using find_info_loop_total [OF ok, of 2 "(replicate 64 0)[0 := 0x05, 1 := if list_all (\<lambda>(h, u). as_u16 u \<noteq> None) (entries start fin) then 0x01 else 0x02]"
        "list_all (\<lambda>(h, u). as_u16 u \<noteq> None) (entries start fin)"]
    by (auto simp: find_info_rsp_def Let_def)
qed

lemma unat_width: "w \<le> 200 \<Longrightarrow> unat (2 + of_nat w :: u8) = 2 + w"
  using unat_of_nat [where ?'a = 8, of "2 + w"] by simp

lemma by_type_loop_total:
  assumes "\<forall>(h, p, l) \<in> set es. l = w \<and> w \<le> length p" and "w \<le> 200" and "width = 0 \<or> width = 2 + of_nat w"
    and "pos \<le> length rsp" and "0 < pos"
  shows "\<exists>rsp' pos'. by_type_loop es width rsp pos = Some (rsp', pos') \<and> length rsp' = length rsp \<and>
    pos \<le> pos' \<and> pos' \<le> length rsp \<and> rsp' ! 0 = rsp ! 0"
  using assms
proof (induction es arbitrary: width rsp pos)
  case (Cons e es)
  obtain h p l where e: "e = (h, p, l)" by (cases e)
  with Cons.prems have l: "l = w" "w \<le> length p" by auto
  have nz: "2 + of_nat w \<noteq> (0 :: u8)" using unat_width [OF assms(2)] by auto
  let ?wd = "2 + of_nat w :: u8"
  define rsp1 where "rsp1 = (if width = 0 then rsp[1 := ?wd] else rsp)"
  have r1: "length rsp1 = length rsp" "rsp1 ! 0 = rsp ! 0" by (simp_all add: rsp1_def)
  have step: "by_type_loop (e # es) width rsp pos =
    (if pos + (2 + w) \<le> length rsp
     then by_type_loop es ?wd (take pos rsp1 @ le16 h @ take w p @ drop (pos + 2 + w) rsp1) (pos + (2 + w))
     else by_type_loop es ?wd rsp1 pos)"
    using Cons.prems(3) nz l r1
      copy_pair [of pos "take w p" "pos + 2 + w" rsp1 "le16 h" "\<lambda>r. by_type_loop es ?wd r (pos + (2 + w))"]
    by (cases "width = 0") (simp_all add: e rsp1_def unat_width [OF assms(2)])
  show ?case
    unfolding step
    using Cons.IH [of ?wd pos rsp1] Cons.IH [of ?wd "pos + (2 + w)" "take pos rsp1 @ le16 h @ take w p @ drop (pos + 2 + w) rsp1"]
      Cons.prems l r1 by (force simp: e nth_append)
qed simp

lemma read_by_type_rsp_total: "\<exists>rsp. read_by_type_rsp start fin uuid = Some rsp \<and> 2 \<le> length rsp \<and> length rsp \<le> 64 \<and> rsp ! 0 = 0x09"
proof -
  have "\<exists>w. (\<forall>(h, p, l) \<in> set (by_type start fin uuid). l = w \<and> w \<le> length p) \<and> w \<le> 200"
    by (rule exI [of _ "if uuid = GATT_UUID_PRIMARY_SERVICE then 16 else if uuid = GATT_UUID_CHARACTERISTIC then 19 else 2"])
      (auto simp: by_type_def nus_uuids gatt_uuids)
  then obtain w where w: "\<forall>(h, p, l) \<in> set (by_type start fin uuid). l = w \<and> w \<le> length p" "w \<le> 200" by blast
  show ?thesis
    using by_type_loop_total [OF w, of 0 2 "(replicate 64 0)[0 := 0x09]"] by (auto simp: read_by_type_rsp_def)
qed

lemma read_by_group_rsp_total: "\<exists>rsp. read_by_group_rsp start fin uuid = Some rsp \<and> 2 \<le> length rsp \<and> length rsp \<le> 32 \<and>
    (rsp ! 0 = 0x11 \<or> rsp = [0x01, 0x10, 0x00, 0x00, 0x10])"
proof -
  have w: "\<forall>(h, p, l) \<in> set (map (\<lambda>(h, svc). (h, svc, length svc)) (primary_services start fin)). l = 16 \<and> 16 \<le> length p"
    by (auto simp: primary_services_def nus_uuids)
  show ?thesis
    using by_type_loop_total [OF w, of 0 2 "(replicate 32 0)[0 := 0x11]"] by (auto simp: read_by_group_rsp_def)
qed

section \<open>The handler\<close>

definition att_need :: "u8 \<Rightarrow> nat" where
  "att_need op =
     (if op \<in> {0x1B, 0x0A, 0x12, 0x52} then 3 else if op \<in> {0x04, 0x0C} then 5
      else if op \<in> {0x08, 0x10} then 7 else 1)"

lemma gatt_read_cases:
  "gatt_read c h (replicate 32 0) = None \<or>
   (\<exists>v. gatt_read c h (replicate 32 0) = Some v \<and> (v = (0, replicate 32 0) \<or> v = (2, [cn_nus_cccd c, 0] @ replicate 30 0)))"
  by (simp add: gatt_read_def numeral_eq_Suc)

lemma gatt_write_ok: "conn_ok c \<Longrightarrow> conn_ok (fst (snd (gatt_write h v (c, ev))))"
  by (auto simp: gatt_write_def conn_ok_def Let_def)

lemma gatt_write_queue:
  "cn_tx_att (fst (snd (gatt_write h v (c, ev)))) = cn_tx_att c"
  "cn_tx_att_len (fst (snd (gatt_write h v (c, ev)))) = cn_tx_att_len c"
  "cn_tx_pending (fst (snd (gatt_write h v (c, ev)))) = cn_tx_pending c"
  by (simp_all add: gatt_write_def Let_def)

lemma att_op_cases:
  obtains "op = 0x1B" | "op = 0x02" | "op = 0x04" | "op = 0x08" | "op = 0x0A" | "op = 0x0C" | "op = 0x10" | "op = 0x12"
    | "op = 0x52" | "op \<notin> {0x1B, 0x02, 0x04, 0x08, 0x0A, 0x0C, 0x10, 0x12, 0x52 :: u8}"
  by blast

text \<open>The handler on a request that is long enough: which response it queues, if any.\<close>

definition att_answer :: "conn \<Rightarrow> bytes \<Rightarrow> bytes option" where
  "att_answer c att =
     (let op = att ! 0; w = (\<lambda>i. of_le16 (att ! i) (att ! Suc i)) in
      if op = 0x02 then Some ([0x03] @ le16 (cn_att_mtu c) @ [0, 0])
      else if op = 0x04 then find_info_rsp (w 1) (w 3)
      else if op = 0x08 then read_by_type_rsp (w 3) (w 5) (w 1)
      else if op = 0x0A then
        Some (case gatt_read c (w 1) (replicate 32 0) of
                Some (vlen, value) \<Rightarrow> [0x0B] @ take vlen value
              | None \<Rightarrow> [0x01, 0x0A, 0x00, 0x00, 0x0A])
      else if op = 0x0C then
        Some (case gatt_read c (w 1) (replicate 32 0) of
                Some (vlen, value) \<Rightarrow> if unat (w 3) < vlen then [0x0D] @ drop (unat (w 3)) (take vlen value)
                  else [0x01, 0x0C, 0x00, 0x00, 0x0A]
              | None \<Rightarrow> [0x01, 0x0C, 0x00, 0x00, 0x0A])
      else if op = 0x10 then read_by_group_rsp (w 3) (w 5) (w 1)
      else if op = 0x12 then
        Some (if w 1 \<in> {HANDLE_RX_VALUE, HANDLE_TX_CCCD} then [0x13] else [0x01, 0x12, 0x00, 0x00, 0x12])
      else Some [0x01, op, 0x00, 0x00, 0x06])"

lemma handle_att_request:
  assumes "att \<noteq> []" and "\<not> (cn_pending_request c \<and> is_response (att ! 0))" and "att_need (att ! 0) \<le> length att"
  shows "handle_att att (c, ev) =
    (if att ! 0 = 0x1B then
       Some (c\<lparr>cn_rx_data := set_prefix (cn_rx_data c) (take 20 (drop 3 att)), cn_rx_data_len := min (length att - 3) 20\<rparr>, EvData)
     else if att ! 0 = 0x52 then Some (snd (gatt_write (of_le16 (att ! 1) (att ! 2)) (drop 3 att) (c, ev)))
     else if att ! 0 = 0x12 then
       (case gatt_write (of_le16 (att ! 1) (att ! 2)) (drop 3 att) (c, ev) of
          (r, c', ev') \<Rightarrow> Some (queue_att (the (att_answer c att)) c', ev'))
     else map_option (\<lambda>rsp. (queue_att rsp c, ev)) (att_answer c att))"
proof -
  note is_response_def [simp]
  have g: "get_le16 att 1 = Some (of_le16 (att ! 1) (att ! 2))" if "3 \<le> length att"
    using that get_le16_Some [of 1 att] by (simp add: numeral_eq_Suc)
  have g3: "get_le16 att 3 = Some (of_le16 (att ! 3) (att ! 4))" if "5 \<le> length att"
    using that get_le16_Some [of 3 att] by simp
  have g5: "get_le16 att 5 = Some (of_le16 (att ! 5) (att ! 6))" if "7 \<le> length att"
    using that get_le16_Some [of 5 att] by simp
  show ?thesis
    using assms
  proof (cases rule: att_op_cases [of "att ! 0"])
    case 1
    with assms g show ?thesis by (simp add: handle_att_def att_need_def Let_def min_def is_response_def)
  next
    case 5
    with assms g gatt_read_cases [of c "of_le16 (att ! 1) (att ! 2)"] show ?thesis
      by (auto simp: handle_att_def att_need_def att_answer_def Let_def)
  next
    case 6
    with assms g g3 gatt_read_cases [of c "of_le16 (att ! 1) (att ! 2)"] show ?thesis
      by (auto simp: handle_att_def att_need_def att_answer_def Let_def)
  next
    case 8
    with assms g show ?thesis
      by (simp add: handle_att_def att_need_def att_answer_def gatt_write_def Let_def)
  next
    case 9
    with assms g show ?thesis by (simp add: handle_att_def att_need_def Let_def)
  next
    case 10
    with assms show ?thesis by (auto simp: handle_att_def att_answer_def Let_def)
  qed (use assms g g3 g5 in \<open>simp_all add: handle_att_def att_need_def att_answer_def Let_def
      split: option.split bind_splits\<close>)
qed

lemma queue_att_message:
  "length m \<le> length (cn_tx_att c) \<Longrightarrow> take (cn_tx_att_len (queue_att m c)) (cn_tx_att (queue_att m c)) = m"
  by (simp add: queue_att_def Let_def set_prefix_def)

lemma handle_att_short:
  assumes "att \<noteq> []" and "\<not> (cn_pending_request c \<and> is_response (att ! 0))" and "length att < att_need (att ! 0)"
  shows "handle_att att (c, ev) = None"
proof -
  have g: "get_le16 att 1 = None \<or> get_le16 att 3 = None \<and> att_need (att ! 0) \<noteq> 3 \<or> get_le16 att 5 = None \<and> att_need (att ! 0) = 7"
    using assms(3) by (auto simp: att_need_def split: if_splits)
  show ?thesis
  proof (cases rule: att_op_cases [of "att ! 0"])
    case 2
    with assms show ?thesis by (simp add: att_need_def)
  next
    case 10
    with assms show ?thesis by (simp add: att_need_def)
  qed (use assms g in \<open>auto simp: handle_att_def att_need_def Let_def is_response_def split: bind_splits\<close>)
qed

lemma att_answer_total:
  "\<exists>rsp. att_answer c att = Some rsp \<and> 0 < length rsp \<and> length rsp \<le> 64 \<and>
     (rsp ! 0 = att ! 0 + 1 \<or> length rsp = 5 \<and> rsp ! 0 = 0x01 \<and> rsp ! 1 = att ! 0)"
proof -
  let ?w = "\<lambda>i. of_le16 (att ! i) (att ! Suc i)"
  show ?thesis
  proof (cases rule: att_op_cases [of "att ! 0"])
    case 3
    then show ?thesis
      using find_info_rsp_total [of "?w 1" "?w 3"] by (auto simp: att_answer_def Let_def)
  next
    case 4
    then show ?thesis
      using read_by_type_rsp_total [of "?w 3" "?w 5" "?w 1"] by (auto simp: att_answer_def Let_def)
  next
    case 5
    then show ?thesis
      using gatt_read_cases [of c "?w 1"] by (auto simp: att_answer_def Let_def)
  next
    case 6
    then show ?thesis
      using gatt_read_cases [of c "?w 1"] by (auto simp: att_answer_def Let_def split: if_splits)
  next
    case 7
    then show ?thesis
      using read_by_group_rsp_total [of "?w 3" "?w 5" "?w 1"] by (auto simp: att_answer_def Let_def)
  qed (simp_all add: att_answer_def Let_def)
qed

lemma handle_att_ok:
  assumes "handle_att att (c, ev) = Some (c', ev')" and "conn_ok c"
  shows "conn_ok c'"
proof -
  consider "att = []" | "att \<noteq> []" "cn_pending_request c \<and> is_response (att ! 0)"
    | "att \<noteq> []" "\<not> (cn_pending_request c \<and> is_response (att ! 0))" by blast
  then show ?thesis
  proof cases
    case 1
    with assms show ?thesis by (simp add: handle_att_def)
  next
    case 2
    have m: "23 \<le> unat (max m (of_nat ATT_MTU_DEFAULT) :: u16)" for m
      by (simp add: max_def ATT_MTU_DEFAULT_def word_le_nat_alt)
    let ?c = "if att ! 0 = 0x03 \<and> length att \<ge> 3
      then c\<lparr>cn_att_mtu := max (min (cn_att_mtu c) (of_le16 (att ! 1) (att ! 2))) (of_nat ATT_MTU_DEFAULT)\<rparr> else c"
    have "conn_ok ?c" using assms(2) m conn_ok_set(14) by auto
    moreover from this have "length (cn_gatt_result ?c) = 64" by (rule conn_ok_lengths)
    moreover have "c' = ?c\<lparr>cn_pending_request := False,
        cn_gatt_result := set_prefix (cn_gatt_result ?c) (take (min (length att) (length (cn_gatt_result ?c))) att),
        cn_gatt_result_len := min (length att) (length (cn_gatt_result ?c))\<rparr>"
      using 2 assms(1) unfolding handle_att_def Let_def by simp
    ultimately show ?thesis by (simp only:) (intro conn_ok_set; simp)
  next
    case 3
    show ?thesis
    proof (cases "att_need (att ! 0) \<le> length att")
      case True
      show ?thesis
        using assms gatt_write_ok [OF assms(2), of "of_le16 (att ! 1) (att ! 2)" "drop 3 att" ev]
        unfolding handle_att_request [OF 3 True]
        by (auto simp: conn_ok_set conn_ok_lengths split: if_splits prod.splits)
    next
      case False
      with 3 assms show ?thesis by (simp add: handle_att_short)
    qed
  qed
qed

section \<open>Properties\<close>

text \<open>C21. The ATT server never gets stuck on a complete request: \<open>handle_att\<close> panics exactly on
  a PDU that is too short for the fields of its opcode (and not taken as the response to an
  own request); otherwise it returns, keeps the connection's buffers within their bounds, and
  answers: an opcode other than a notification or a write command gets exactly one queued
  response, which is that opcode's response or an error response naming it, while a
  notification and a write command leave the transmit queue alone.\<close>

theorem handle_att_answers:
  assumes "conn_ok c" and "att \<noteq> []" and "\<not> (cn_pending_request c \<and> is_response (att ! 0))"
  shows "if length att < att_need (att ! 0) then handle_att att (c, ev) = None
    else \<exists>c' ev'. handle_att att (c, ev) = Some (c', ev') \<and> conn_ok c' \<and>
      (if att ! 0 \<in> {0x1B, 0x52}
       then cn_tx_att c' = cn_tx_att c \<and> cn_tx_att_len c' = cn_tx_att_len c \<and> cn_tx_pending c' = cn_tx_pending c
       else cn_tx_pending c' \<and> 0 < cn_tx_att_len c' \<and> cn_tx_att_len c' \<le> 64 \<and>
         (cn_tx_att c' ! 0 = att ! 0 + 1 \<or> take 2 (cn_tx_att c') = [0x01, att ! 0] \<and> cn_tx_att_len c' = 5))"
proof (cases "length att < att_need (att ! 0)")
  case True
  then show ?thesis using handle_att_short assms by simp
next
  case False
  obtain rsp where rsp: "att_answer c att = Some rsp" "0 < length rsp" "length rsp \<le> 64"
      "rsp ! 0 = att ! 0 + 1 \<or> length rsp = 5 \<and> rsp ! 0 = 0x01 \<and> rsp ! 1 = att ! 0"
    using att_answer_total by blast
  have q: "cn_tx_pending (queue_att rsp c') \<and> 0 < cn_tx_att_len (queue_att rsp c') \<and> cn_tx_att_len (queue_att rsp c') \<le> 64 \<and>
      (cn_tx_att (queue_att rsp c') ! 0 = att ! 0 + 1 \<or>
       take 2 (cn_tx_att (queue_att rsp c')) = [0x01, att ! 0] \<and> cn_tx_att_len (queue_att rsp c') = 5)"
    if "length (cn_tx_att c') = 251" for c'
    using rsp(2-4) that
    by (auto simp: queue_att_def Let_def set_prefix_def nth_append take_Suc_conv_app_nth numeral_2_eq_2)
  have len: "length (cn_tx_att c) = 251" using assms(1) by (simp add: conn_ok_def)
  have nd: "length (cn_rx_data c) = 244" using assms(1) by (simp add: conn_ok_def)
  note req = handle_att_request [OF assms(2,3), of ev]
  show ?thesis
  proof (cases "att ! 0 = 0x1B")
    case True
    with False req assms(1) nd show ?thesis by (simp add: conn_ok_def)
  next
    case n1: False
    show ?thesis
    proof (cases "att ! 0 = 0x52 \<or> att ! 0 = 0x12")
      case True
      obtain r c' ev' where w: "gatt_write (of_le16 (att ! 1) (att ! 2)) (drop 3 att) (c, ev) = (r, c', ev')"
        by (cases "gatt_write (of_le16 (att ! 1) (att ! 2)) (drop 3 att) (c, ev)") auto
      with gatt_write_ok [OF assms(1)] gatt_write_queue [of "of_le16 (att ! 1) (att ! 2)" "drop 3 att" c ev]
      have "conn_ok c'" "cn_tx_att c' = cn_tx_att c" "cn_tx_att_len c' = cn_tx_att_len c" "cn_tx_pending c' = cn_tx_pending c"
        by (metis fst_conv snd_conv)+
      with True False n1 req w rsp(1) q [of c'] len show ?thesis by auto
    next
      case n2: False
      with False n1 req rsp(1) q [of c] len assms(1) show ?thesis by simp
    qed
  qed
qed

theorem handle_att_answers_witness:
  "\<exists>c' ev'. handle_att [0x0A, 6, 0] (example_conn Slave, EvIdle) = Some (c', ev') \<and> conn_ok c' \<and> cn_tx_pending c'"
  using handle_att_answers [OF example_conn_ok, of "[0x0A, 6, 0]" Slave EvIdle]
  by (auto simp: att_need_def is_response_def)

text \<open>The client configuration descriptor is stored and read back: after a write request of
  two bytes to its handle, a read request of the handle is answered with the notification bit
  of the written value, and the write request itself with a write response; a write to the
  receive characteristic delivers the bytes to the application, cut to the buffer.\<close>

lemma nus_write_read:
  assumes "conn_ok c"
  shows "(\<exists>c1 c2. handle_att [0x12, 6, 0, v, w] (c, ev) = Some (c1, ev) \<and>
      take (cn_tx_att_len c1) (cn_tx_att c1) = [0x13] \<and>
      handle_att [0x0A, 6, 0] (c1, ev) = Some (c2, ev) \<and>
      take (cn_tx_att_len c2) (cn_tx_att c2) = [0x0B, v AND 1, 0]) \<and>
    (\<exists>c'. handle_att ([0x12, 3, 0] @ d) (c, ev) = Some (c', EvData) \<and>
      take (cn_rx_data_len c') (cn_rx_data c') = take 244 d)"
proof (intro conjI)
  have len: "length (cn_tx_att c) = 251" "length (cn_rx_data c) = 244" using assms by (simp_all add: conn_ok_def)
  have h: "of_le16 6 0 = HANDLE_TX_CCCD" "of_le16 3 0 = HANDLE_RX_VALUE" "HANDLE_TX_CCCD \<noteq> HANDLE_RX_VALUE"
      "HANDLE_TX_CCCD \<noteq> HANDLE_TX_VALUE"
    by (simp_all add: of_le16_def handles)
  let ?c1 = "queue_att [0x13] (c\<lparr>cn_nus_cccd := v AND 1\<rparr>)"
  have cccd: "(if v AND 1 \<noteq> 0 then 1 else 0) = v AND 1" by (simp add: and_one_eq)
  have "handle_att [0x12, 6, 0, v, w] (c, ev) = Some (?c1, ev)"
    using handle_att_request [of "[0x12, 6, 0, v, w]" c ev] cccd
    by (simp add: is_response_def att_need_def gatt_write_def h att_answer_def Let_def split: if_splits)
  moreover have "take (cn_tx_att_len ?c1) (cn_tx_att ?c1) = [0x13]"
    by (rule queue_att_message) (use len in simp)
  moreover have "\<exists>c2. handle_att [0x0A, 6, 0] (?c1, ev) = Some (c2, ev) \<and>
      take (cn_tx_att_len c2) (cn_tx_att c2) = [0x0B, v AND 1, 0]"
  proof -
    have "att_answer ?c1 [0x0A, 6, 0] = Some [0x0B, v AND 1, 0]"
      by (simp add: att_answer_def Let_def gatt_read_def h take_2_update queue_att_def)
    then have "handle_att [0x0A, 6, 0] (?c1, ev) = Some (queue_att [0x0B, v AND 1, 0] ?c1, ev)"
      using handle_att_request [of "[0x0A, 6, 0]" ?c1 ev] by (simp add: is_response_def att_need_def)
    moreover have "length (cn_tx_att ?c1) = 251" using len by (simp add: queue_att_def Let_def)
    ultimately show ?thesis using queue_att_message [of "[0x0B, v AND 1, 0]" ?c1] by simp
  qed
  ultimately show "\<exists>c1 c2. handle_att [0x12, 6, 0, v, w] (c, ev) = Some (c1, ev) \<and>
      take (cn_tx_att_len c1) (cn_tx_att c1) = [0x13] \<and>
      handle_att [0x0A, 6, 0] (c1, ev) = Some (c2, ev) \<and>
      take (cn_tx_att_len c2) (cn_tx_att c2) = [0x0B, v AND 1, 0]" by blast
  show "\<exists>c'. handle_att ([0x12, 3, 0] @ d) (c, ev) = Some (c', EvData) \<and>
      take (cn_rx_data_len c') (cn_rx_data c') = take 244 d"
    using handle_att_request [of "[0x12, 3, 0] @ d" c ev] len
    by (simp add: is_response_def att_need_def gatt_write_def h Let_def queue_att_def set_prefix_def min_def)
qed

end
