(* ===== verification/Conn_L2cap.thy ===== *)
theory Conn_L2cap
  imports Conn_Att
begin

text \<open>L2CAP in \<^verbatim>\<open>src/hw/conn.rs\<close>: LE signaling and the credit-based channel, the dispatch of
  Security Manager messages, and the reassembly of data channel payloads into ATT messages
  (\<open>handle_l2cap\<close>). The cryptographic functions are those of \<open>Smp\<close>.\<close>

section \<open>Signaling and the credit-based channel\<close>

definition handle_le_signaling :: "bytes \<Rightarrow> conn \<Rightarrow> conn option" where
  "handle_le_signaling body c =
     (if length body < 4 then Some c
      else
      let code = body ! 0 in
      if code = LE_CREDIT_BASED_CONNECTION_REQ then
        if length body < 12 then Some c
        else do {
          psm \<leftarrow> get_le16 body 2;
          peer_cid \<leftarrow> get_le16 body 4;
          mtu \<leftarrow> get_le16 body 6;
          mps \<leftarrow> get_le16 body 8;
          credits \<leftarrow> get_le16 body 10;
          let k = (coc_new psm)\<lparr>coc_peer_cid := peer_cid, coc_mtu := min mtu COC_MTU, coc_mps := min mps COC_MPS,
                    coc_credits := credits\<rparr>;
          let c = c\<lparr>cn_coc := Some k\<rparr>;
          let rsp = [LE_CREDIT_BASED_CONNECTION_RSP, 0] @ le16 peer_cid @ le16 COC_MTU @ le16 COC_MPS @
                    le16 COC_CREDITS @ le16 0;
          Some (queue_signaling rsp c)
        }
      else if code = LE_CREDIT_BASED_CONNECTION_RSP then
        (case cn_coc c of
           None \<Rightarrow> Some c
         | Some k \<Rightarrow> do {
             peer_cid \<leftarrow> get_le16 body 2;
             mtu \<leftarrow> get_le16 body 4;
             mps \<leftarrow> get_le16 body 6;
             credits \<leftarrow> get_le16 body 8;
             res \<leftarrow> get_le16 body 10;
             Some (c\<lparr>cn_coc := if res = 0
                then Some (k\<lparr>coc_peer_cid := peer_cid, coc_mtu := min (coc_mtu k) mtu,
                             coc_mps := min (coc_mps k) mps, coc_peer_credits := credits\<rparr>)
                else None\<rparr>)
           })
      else if code = LE_FLOW_CONTROL_CREDIT then
        (case cn_coc c of
           None \<Rightarrow> Some c
         | Some k \<Rightarrow>
             if length body \<ge> 6 then do {
               cid \<leftarrow> get_le16 body 2;
               credits \<leftarrow> get_le16 body 4;
               if cid = coc_local_cid k \<or> cid = coc_peer_cid k
               then Some (c\<lparr>cn_coc := Some (k\<lparr>coc_credits := saturating_add (coc_credits k) credits\<rparr>)\<rparr>)
               else Some c
             } else Some c)
      else if code = LE_CREDIT_BASED_CONNECTION_END then
        (case cn_coc c of
           None \<Rightarrow> Some c
         | Some k \<Rightarrow> do {
             cid \<leftarrow> get_le16 body 2;
             if cid = coc_local_cid k \<or> cid = coc_peer_cid k then Some (c\<lparr>cn_coc := None\<rparr>) else Some c
           })
      else Some c)"

definition l2cap_connect :: "u16 \<Rightarrow> conn \<Rightarrow> conn" where
  "l2cap_connect psm c =
     (if cn_coc c \<noteq> None then c
      else
        let c = c\<lparr>cn_coc := Some (coc_new psm)\<rparr>;
            req = [LE_CREDIT_BASED_CONNECTION_REQ, 0] @ le16 psm @ le16 COC_LOCAL_CID @ le16 COC_MTU @
                  le16 COC_MPS @ le16 COC_CREDITS
        in queue_signaling req c)"

definition l2cap_send :: "bytes \<Rightarrow> conn \<Rightarrow> (error + unit) \<times> conn" where
  "l2cap_send data c =
     (case cn_coc c of
        None \<Rightarrow> (Inl NotRunning, c)
      | Some k \<Rightarrow>
          if length data > unat (coc_mtu k) \<or> length data + 2 > length (cn_tx_att c) then (Inl InvalidLength, c)
          else if coc_credits k = 0 then (Inl NotRunning, c)
          else
            let total = length data + 2 in
            (Inr (), c\<lparr>cn_coc := Some (k\<lparr>coc_credits := coc_credits k - 1\<rparr>),
                       cn_tx_att := set_prefix (cn_tx_att c) (le16 (of_nat (length data)) @ data),
                       cn_tx_att_len := total, cn_tx_cid := coc_local_cid k, cn_tx_frag_offset := 0,
                       cn_tx_pending := True\<rparr>))"

text \<open>A part of an SDU is put behind what has been received of it; the first part carries the
  length of the whole.\<close>

definition coc_put :: "bytes \<Rightarrow> coc \<Rightarrow> coc option" where
  "coc_put body k =
     (if coc_rx_sdu_len k = 0 then do {
        total \<leftarrow> get_le16 body 0;
        let chunk = drop 2 body;
        let n = min (length chunk) (length (coc_rx_sdu k));
        sdu \<leftarrow> copy_slice (coc_rx_sdu k) 0 n (take n chunk);
        Some (k\<lparr>coc_rx_sdu_total := unat total, coc_rx_sdu := sdu, coc_rx_sdu_len := n\<rparr>)
      } else do {
        let n = min (length body) (length (coc_rx_sdu k) - coc_rx_sdu_len k);
        sdu \<leftarrow> copy_slice (coc_rx_sdu k) (coc_rx_sdu_len k) (coc_rx_sdu_len k + n) (take n body);
        Some (k\<lparr>coc_rx_sdu := sdu, coc_rx_sdu_len := coc_rx_sdu_len k + n\<rparr>)
      })"

text \<open>A complete SDU is handed over and its credit returned.\<close>

definition coc_complete :: "coc \<Rightarrow> conn \<Rightarrow> conn option" where
  "coc_complete k c = do {
     let total = min (coc_rx_sdu_total k) 256;
     sdu \<leftarrow> slice (coc_rx_sdu k) 0 total;
     let k = k\<lparr>coc_rx_sdu_len := 0, coc_rx_sdu_total := 0\<rparr>;
     let c = c\<lparr>cn_coc := Some k\<rparr>;
     let c = queue_signaling ([LE_FLOW_CONTROL_CREDIT, 0] @ le16 (coc_peer_cid k) @ le16 1) c;
     let n = min total (length (cn_rx_data c));
     Some (c\<lparr>cn_rx_data := set_prefix (cn_rx_data c) (take n sdu), cn_rx_data_len := n\<rparr>)
   }"

definition rx_coc_sdu :: "bytes \<Rightarrow> conn \<times> conn_event \<Rightarrow> (conn \<times> conn_event) option" where
  "rx_coc_sdu body ce =
     (case ce of (c, ev) \<Rightarrow>
      case cn_coc c of
        None \<Rightarrow> Some (c, ev)
      | Some k \<Rightarrow>
          if coc_rx_sdu_len k = 0 \<and> length body < 2 then Some (c, ev)
          else do {
            k \<leftarrow> coc_put body k;
            if coc_rx_sdu_len k \<ge> coc_rx_sdu_total k then map_option (\<lambda>c. (c, EvData)) (coc_complete k c)
            else Some (c\<lparr>cn_coc := Some k\<rparr>, ev)
          })"

section \<open>Security Manager messages\<close>

definition handle_smp :: "crypto \<Rightarrow> bytes \<Rightarrow> conn \<Rightarrow> conn" where
  "handle_smp cx body c =
     (if body = [] then c
      else
      let op = body ! 0;
          reply = (\<lambda>msg c. queue_l2cap (le16 (of_nat (length msg)) @ le16 L2CAP_SMP_CID @ msg) L2CAP_SMP_CID c) in
      if op = SMP_PAIRING_FAILED then c\<lparr>cn_pairing_in_progress := False\<rparr>
      else if op = SMP_ENCRYPTION_INFORMATION \<or> op = SMP_MASTER_IDENTIFICATION then c
      else if op = SMP_SECURITY_REQUEST then
        (let (req, s) = build_pairing_request (cn_smp c) in reply req (c\<lparr>cn_smp := s\<rparr>))
      else if op = SMP_PAIRING_REQUEST then
        (case handle_pairing_request (take 7 body) (cn_smp c) of
           (Inr rsp, s) \<Rightarrow> reply rsp (c\<lparr>cn_smp := s, cn_pairing_in_progress := True\<rparr>)
         | (Inl _, s) \<Rightarrow> c\<lparr>cn_smp := s\<rparr>)
      else if op = SMP_PAIRING_RESPONSE then
        (case handle_pairing_response (take 7 body) (cn_smp c) of
           (Inr _, s) \<Rightarrow> c\<lparr>cn_smp := s, cn_pairing_in_progress := True\<rparr>
         | (Inl _, s) \<Rightarrow> c\<lparr>cn_smp := s\<rparr>)
      else if op = SMP_PAIRING_CONFIRM then
        (case handle_confirm (take 17 body) (cn_smp c) of
           (Inr _, s) \<Rightarrow>
             (let (out, s) = build_confirm cx (sm_iat s) (sm_ia s) (sm_ra s) s in reply out (c\<lparr>cn_smp := s\<rparr>))
         | (Inl _, s) \<Rightarrow> c\<lparr>cn_smp := s\<rparr>)
      else if op = SMP_PAIRING_RANDOM then
        (case handle_random cx (take 17 body) (cn_smp c) of
           (Inr rnd, s) \<Rightarrow>
             (let c = reply rnd (c\<lparr>cn_smp := s\<rparr>);
                  c = c\<lparr>cn_pairing_in_progress := False\<rparr>
              in if cn_role c = Master then queue_encrypt_req c else c)
         | (Inl _, s) \<Rightarrow>
             (reply (build_failed (sm_pairing_failed s)) (c\<lparr>cn_smp := s\<rparr>))\<lparr>cn_pairing_in_progress := False\<rparr>)
      else c)"

section \<open>Reassembly\<close>

text \<open>Appending a fragment to the reassembly buffer, and handing a complete message to the ATT
  server.\<close>

definition l2cap_append :: "bytes \<Rightarrow> conn \<times> conn_event \<Rightarrow> (conn \<times> conn_event) option" where
  "l2cap_append body ce =
     (case ce of (c, ev) \<Rightarrow> do {
        let cap = length (cn_rx_l2cap c);
        let n = min (length body) (cap - cn_rx_l2cap_len c);
        buf \<leftarrow> copy_slice (cn_rx_l2cap c) (cn_rx_l2cap_len c) (cn_rx_l2cap_len c + n) (take n body);
        let c = c\<lparr>cn_rx_l2cap := buf, cn_rx_l2cap_len := cn_rx_l2cap_len c + n\<rparr>;
        let msg_len = min (cn_rx_l2cap_msg_len c) cap;
        if cn_rx_l2cap_len c \<ge> msg_len then do {
          att \<leftarrow> slice (cn_rx_l2cap c) 0 msg_len;
          (c, ev) \<leftarrow> handle_att att (c, ev);
          Some (c\<lparr>cn_rx_l2cap_len := 0\<rparr>, ev)
        } else Some (c, ev)
      })"

definition handle_l2cap :: "crypto \<Rightarrow> bytes \<Rightarrow> u8 \<Rightarrow> conn \<times> conn_event \<Rightarrow> (conn \<times> conn_event) option" where
  "handle_l2cap cx payload llid ce =
     (case ce of (c, ev) \<Rightarrow>
      let is_first = (llid \<noteq> LLID_DATA_CONTINUATION_OR_COMPLETE \<or> cn_rx_l2cap_len c = 0) in
      if is_first then
        if length payload < 4 then Some (c, ev)
        else do {
          msg_len \<leftarrow> get_le16 payload 0;
          cid \<leftarrow> get_le16 payload 2;
          let c = c\<lparr>cn_rx_l2cap_len := 0, cn_rx_l2cap_msg_len := unat msg_len, cn_rx_l2cap_cid := cid\<rparr>;
          let body = drop 4 payload;
          if cid = L2CAP_SMP_CID_LOCAL then Some ((handle_smp cx body c)\<lparr>cn_rx_l2cap_len := 0\<rparr>, ev)
          else if cid = L2CAP_SIGNALING_CID then
            map_option (\<lambda>c. (c\<lparr>cn_rx_l2cap_len := 0\<rparr>, ev)) (handle_le_signaling body c)
          else if cid \<noteq> L2CAP_ATT_CID then
            if (case cn_coc c of Some k \<Rightarrow> coc_peer_cid k = cid \<or> coc_local_cid k = cid | None \<Rightarrow> False)
            then rx_coc_sdu body (c, ev)
            else Some (c, EvL2cap cid)
          else l2cap_append body (c, ev)
        }
      else l2cap_append payload (c, ev))"

section \<open>The invariant is kept\<close>

lemma min_u16_le: "unat b \<le> n \<Longrightarrow> unat (min a b :: u16) \<le> n" "unat a \<le> n \<Longrightarrow> unat (min a b :: u16) \<le> n"
  by (auto simp: min_def word_le_nat_alt)

lemma handle_le_signaling_ok:
  assumes "handle_le_signaling body c = Some c'" and "conn_ok c"
  shows "conn_ok c'"
  using assms conn_ok_lengths(6) [OF assms(2)] 
    by (auto simp: handle_le_signaling_def Let_def bind_eq_Some_conv coc_ok_def min_u16_le coc_new_def COC_MTU_def
        intro!: conn_ok_set queue_ok split: if_splits option.splits)

lemma coc_put_ok:
  assumes "coc_put body k = Some k'" and "coc_ok k"
  shows "coc_ok k'"
  using assms by (auto simp: coc_put_def coc_ok_def Let_def bind_eq_Some_conv dest: copy_slice_length split: if_splits)

lemma coc_complete_ok:
  assumes "coc_complete k c = Some c'" and "coc_ok k" and "conn_ok c"
  shows "conn_ok c'"
proof -
  let ?c = "queue_signaling ([LE_FLOW_CONTROL_CREDIT, 0] @ le16 (coc_peer_cid k) @ le16 1)
    (c\<lparr>cn_coc := Some (k\<lparr>coc_rx_sdu_len := 0, coc_rx_sdu_total := 0\<rparr>)\<rparr>)"
  have "conn_ok ?c" using assms(2,3) by (intro queue_ok conn_ok_set) (auto simp: coc_ok_def)
  then show ?thesis
    using assms(1) conn_ok_lengths(7) [OF \<open>conn_ok ?c\<close>]
    by (auto simp: coc_complete_def Let_def bind_eq_Some_conv intro!: conn_ok_set)
qed

lemma rx_coc_sdu_ok:
  assumes "rx_coc_sdu body (c, ev) = Some (c', ev')" and "conn_ok c"
  shows "conn_ok c'"
  using assms conn_ok_lengths(6) [OF assms(2)]
  by (auto simp: rx_coc_sdu_def bind_eq_Some_conv intro!: conn_ok_set dest: coc_put_ok coc_complete_ok
      split: option.splits if_splits)

lemma conn_ok_cases:
  "(b \<Longrightarrow> conn_ok x) \<Longrightarrow> (\<not> b \<Longrightarrow> conn_ok y) \<Longrightarrow> conn_ok (if b then x else y)"
  "(\<And>u s. p = (Inl u, s) \<Longrightarrow> conn_ok (f u s)) \<Longrightarrow> (\<And>v s. p = (Inr v, s) \<Longrightarrow> conn_ok (g v s)) \<Longrightarrow>
     conn_ok (case p of (Inr v, s) \<Rightarrow> g v s | (Inl u, s) \<Rightarrow> f u s)"
  "(\<And>u s. q = (u, s) \<Longrightarrow> conn_ok (h u s)) \<Longrightarrow> conn_ok (case q of (u, s) \<Rightarrow> h u s)"
  by (auto split: prod.splits sum.splits)

lemma handle_smp_ok: 
  assumes "crypto_ok cx" and "conn_ok c"
  shows "conn_ok (handle_smp cx body c)"
proof -
  have s: "smp_wf (cn_smp c)" using assms(2) by (rule conn_ok_lengths)
  have addr: "length (sm_ia s) = 6" "length (sm_ra s) = 6" if "smp_wf s" for s
    using that by (simp_all add: smp_wf_def)
  have c: "build_confirm cx (sm_iat s) (sm_ia s) (sm_ra s) s = (r, s') \<Longrightarrow> smp_wf s \<Longrightarrow> smp_wf s'" for r s s'
    using smp_step_wf [OF smp_step.confirm [of "sm_ia s" "sm_ra s" cx s "sm_iat s"] assms(1)] addr by (metis snd_conv)
  have q: "build_pairing_request s = (r, s') \<Longrightarrow> smp_wf s \<Longrightarrow> smp_wf s'" for r s s'
    using smp_step_wf [OF smp_step.request assms(1)] by (metis snd_conv)
  have h: "handle_pairing_request d s = (r1, s') \<Longrightarrow> smp_wf s \<Longrightarrow> smp_wf s'"
    "handle_pairing_response d s = (r2, s') \<Longrightarrow> smp_wf s \<Longrightarrow> smp_wf s'"
    "handle_confirm d s = (r2, s') \<Longrightarrow> smp_wf s \<Longrightarrow> smp_wf s'"
    "handle_random cx d s = (r1, s') \<Longrightarrow> smp_wf s \<Longrightarrow> smp_wf s'" for d s s' r1 r2
    using smp_step_wf [OF smp_step.on_request assms(1), of s d] smp_step_wf [OF smp_step.on_response assms(1), of s d]
      smp_step_wf [OF smp_step.on_confirm assms(1), of s d] smp_step_wf [OF smp_step.on_random assms(1), of s d]
    by simp_all
  note wf = c q h
  show ?thesis
    using assms s unfolding handle_smp_def Let_def
    by (intro conn_ok_cases conn_ok_set queue_ok) (auto intro!: queue_ok conn_ok_set intro: wf)
qed

lemma l2cap_append_ok:
  assumes "l2cap_append body (c, ev) = Some (c', ev')" and "conn_ok c"
  shows "conn_ok c'"
proof -
  let ?n = "min (length body) (256 - cn_rx_l2cap_len c)"
  obtain buf where buf: "copy_slice (cn_rx_l2cap c) (cn_rx_l2cap_len c) (cn_rx_l2cap_len c + ?n) (take ?n body) = Some buf"
    using assms(1) conn_ok_lengths(2) [OF assms(2)] by (auto simp: l2cap_append_def Let_def bind_eq_Some_conv)
  let ?c = "c\<lparr>cn_rx_l2cap := buf, cn_rx_l2cap_len := cn_rx_l2cap_len c + ?n\<rparr>"
  have ok: "conn_ok ?c"
    using assms(2) copy_slice_length [OF buf] conn_ok_lengths(2,3) [OF assms(2)] by (intro conn_ok_set) auto
  then show ?thesis
    using assms(1) buf conn_ok_lengths(2) [OF assms(2)]
    by (auto simp: l2cap_append_def Let_def bind_eq_Some_conv intro!: conn_ok_set dest: handle_att_ok split: if_splits)
qed

lemma handle_l2cap_ok:
  assumes "handle_l2cap cx payload llid (c, ev) = Some (c', ev')" and "conn_ok c" and "crypto_ok cx"
  shows "conn_ok c'"
proof -
  have upd: "conn_ok (c\<lparr>cn_rx_l2cap_len := 0, cn_rx_l2cap_msg_len := n, cn_rx_l2cap_cid := cid\<rparr>)" for n cid
    using assms(2) by (simp add: conn_ok_set)
  show ?thesis
    using assms upd
    by (auto simp: handle_l2cap_def Let_def bind_eq_Some_conv intro!: conn_ok_set
        intro: handle_smp_ok dest: handle_le_signaling_ok rx_coc_sdu_ok l2cap_append_ok split: if_splits option.splits)
qed

section \<open>Reassembly of a fragmented message\<close>

fun feed :: "crypto \<Rightarrow> (u8 \<times> bytes) list \<Rightarrow> conn \<times> conn_event \<Rightarrow> (conn \<times> conn_event) option" where
  "feed cx [] ce = Some ce"
| "feed cx ((llid, f) # fs) ce = do { ce \<leftarrow> handle_l2cap cx f llid ce; feed cx fs ce }"

text \<open>Handing over a message \<open>msg\<close> that sits in the reassembly buffer \<open>buf\<close>.\<close>

definition deliver :: "bytes \<Rightarrow> bytes \<Rightarrow> conn \<Rightarrow> conn_event \<Rightarrow> (conn \<times> conn_event) option" where
  "deliver buf msg c ev =
     map_option (\<lambda>(c, ev). (c\<lparr>cn_rx_l2cap_len := 0\<rparr>, ev))
       (handle_att msg (c\<lparr>cn_rx_l2cap := buf, cn_rx_l2cap_len := length msg, cn_rx_l2cap_msg_len := length msg,
          cn_rx_l2cap_cid := L2CAP_ATT_CID\<rparr>, ev))"

lemma concat_chunks: "0 < m \<Longrightarrow> concat (chunks m xs) = xs"
  by (induction m xs rule: chunks.induct) (subst chunks.simps, auto)

lemma chunks_bounds: "0 < m \<Longrightarrow> x \<in> set (chunks m xs) \<Longrightarrow> x \<noteq> [] \<and> length x \<le> m"
  by (induction m xs rule: chunks.induct) (subst (asm) (2) chunks.simps, auto split: if_splits)

lemma l2cap_append_step:
  assumes "length (cn_rx_l2cap c) = 256" and "cn_rx_l2cap_msg_len c = n" and "n \<le> 256"
    and "cn_rx_l2cap_len c = length got" and "take (length got) (cn_rx_l2cap c) = got" and "length got + length body \<le> n"
  shows "\<exists>buf. length buf = 256 \<and> take (length got + length body) buf = got @ body \<and>
    l2cap_append body (c, ev) =
      (let c' = c\<lparr>cn_rx_l2cap := buf, cn_rx_l2cap_len := length got + length body\<rparr> in
       if length got + length body = n
       then map_option (\<lambda>(c, ev). (c\<lparr>cn_rx_l2cap_len := 0\<rparr>, ev)) (handle_att (got @ body) (c', ev))
       else Some (c', ev))"
proof -
  let ?buf = "take (length got) (cn_rx_l2cap c) @ body @ drop (length got + length body) (cn_rx_l2cap c)"
  have buf: "length ?buf = 256" "take (length got + length body) ?buf = got @ body"
    using assms by auto
  have "l2cap_append body (c, ev) =
      (let c' = c\<lparr>cn_rx_l2cap := ?buf, cn_rx_l2cap_len := length got + length body\<rparr> in
       if length got + length body = n
       then map_option (\<lambda>(c, ev). (c\<lparr>cn_rx_l2cap_len := 0\<rparr>, ev)) (handle_att (got @ body) (c', ev))
       else Some (c', ev))"
    using assms buf
    by (auto simp: l2cap_append_def Let_def map_option_case split: bind_splits option.splits)
  with buf show ?thesis by blast
qed

lemma handle_l2cap_continuation:
  "0 < cn_rx_l2cap_len c \<Longrightarrow> handle_l2cap cx f LLID_DATA_CONTINUATION_OR_COMPLETE (c, ev) = l2cap_append f (c, ev)"
  by (simp add: handle_l2cap_def)

lemma feed_Nil_bind: "Option.bind x (feed cx []) = x"
  by (cases x) simp_all

lemma reassembly_order:
  "c\<lparr>cn_rx_l2cap_msg_len := n, cn_rx_l2cap_cid := cid, cn_rx_l2cap := buf, cn_rx_l2cap_len := k\<rparr> =
   c\<lparr>cn_rx_l2cap := buf, cn_rx_l2cap_len := k, cn_rx_l2cap_msg_len := n, cn_rx_l2cap_cid := cid\<rparr>"
  by (cases c) simp

lemma reassembly_fields:
  "cn_rx_l2cap_msg_len c = n \<Longrightarrow> cn_rx_l2cap_cid c = cid \<Longrightarrow>
   c\<lparr>cn_rx_l2cap := buf, cn_rx_l2cap_len := k, cn_rx_l2cap_msg_len := n, cn_rx_l2cap_cid := cid\<rparr> =
   c\<lparr>cn_rx_l2cap := buf, cn_rx_l2cap_len := k\<rparr>"
  by (cases c) simp

lemma feed_continuations:
  assumes "length (cn_rx_l2cap c) = 256" and "cn_rx_l2cap_msg_len c = length msg" and "length msg \<le> 256"
    and "cn_rx_l2cap_cid c = L2CAP_ATT_CID" and "cn_rx_l2cap_len c = length got"
    and "take (length got) (cn_rx_l2cap c) = got" and "got \<noteq> []" and "parts \<noteq> []" and "[] \<notin> set parts"
    and "got @ concat parts = msg"
  shows "\<exists>buf. length buf = 256 \<and>
    feed cx (map (Pair LLID_DATA_CONTINUATION_OR_COMPLETE) parts) (c, ev) = deliver buf msg c ev"
  using assms
proof (induction parts arbitrary: c got)
  case (Cons f fs)
  let ?got = "got @ f"
  have le: "length got + length f \<le> length msg" using Cons.prems(10) by auto
  obtain buf where buf: "length buf = 256" "take (length got + length f) buf = ?got" and
    app: "l2cap_append f (c, ev) =
      (let c' = c\<lparr>cn_rx_l2cap := buf, cn_rx_l2cap_len := length got + length f\<rparr> in
       if length got + length f = length msg
       then map_option (\<lambda>(c, ev). (c\<lparr>cn_rx_l2cap_len := 0\<rparr>, ev)) (handle_att ?got (c', ev))
       else Some (c', ev))"
    using l2cap_append_step [OF Cons.prems(1,2,3,5,6) le] by blast
  have hd: "handle_l2cap cx f LLID_DATA_CONTINUATION_OR_COMPLETE (c, ev) = l2cap_append f (c, ev)"
    using Cons.prems(5,7) by (intro handle_l2cap_continuation) simp
  show ?case
  proof (cases "fs = []")
    case True
    then have "?got = msg" using Cons.prems(10) by simp
    then have "feed cx (map (Pair LLID_DATA_CONTINUATION_OR_COMPLETE) (f # fs)) (c, ev) = deliver buf msg c ev"
      unfolding deliver_def reassembly_fields [OF Cons.prems(2,4)]
      using True hd app by (simp add: Let_def feed_Nil_bind flip: length_append)
    with buf show ?thesis by blast
  next
    case False
    let ?c = "c\<lparr>cn_rx_l2cap := buf, cn_rx_l2cap_len := length got + length f\<rparr>"
    from False Cons.prems(9,10) have "length got + length f < length msg"
      by (cases fs) auto
    then have "handle_l2cap cx f LLID_DATA_CONTINUATION_OR_COMPLETE (c, ev) = Some (?c, ev)"
      using hd app by simp
    moreover obtain buf' where "length buf' = 256"
      "feed cx (map (Pair LLID_DATA_CONTINUATION_OR_COMPLETE) fs) (?c, ev) = deliver buf' msg ?c ev"
    proof -
      have "\<exists>buf. length buf = 256 \<and>
          feed cx (map (Pair LLID_DATA_CONTINUATION_OR_COMPLETE) fs) (?c, ev) = deliver buf msg ?c ev"
        by (rule Cons.IH [of ?c ?got]) (use False Cons.prems(2-4,7,9,10) buf in simp_all)
      then show thesis using that by blast
    qed
    ultimately show ?thesis by (auto simp: deliver_def)
  qed
qed simp

lemma feed_fragments:
  assumes "conn_ok c" and "length msg \<le> 251" and "5 \<le> m"
  shows "\<exists>buf. length buf = 256 \<and> feed cx (fragments_of m L2CAP_ATT_CID msg) (c, ev) = deliver buf msg c ev"
proof -
  let ?n = "length msg" and ?f = "take (m - 4) msg"
  let ?llid = "if ?n \<le> m - 4 then LLID_DATA_COMPLETE else LLID_DATA_START"
  let ?c0 = "c\<lparr>cn_rx_l2cap_len := 0, cn_rx_l2cap_msg_len := ?n, cn_rx_l2cap_cid := L2CAP_ATT_CID\<rparr>"
  have n: "unat (of_nat ?n :: u16) = ?n" using assms(2) by (simp add: unat_of_nat)
  have first: "handle_l2cap cx (le16 (of_nat ?n) @ le16 L2CAP_ATT_CID @ ?f) ?llid (c, ev) = l2cap_append ?f (?c0, ev)"
  proof -
    have "LLID_DATA_COMPLETE \<noteq> LLID_DATA_CONTINUATION_OR_COMPLETE" "LLID_DATA_START \<noteq> LLID_DATA_CONTINUATION_OR_COMPLETE"
      "L2CAP_ATT_CID \<noteq> L2CAP_SMP_CID_LOCAL" "L2CAP_ATT_CID \<noteq> L2CAP_SIGNALING_CID"
      by (simp_all add: llids L2CAP_ATT_CID_def L2CAP_SMP_CID_LOCAL_def L2CAP_SIGNALING_CID_def)
    then show ?thesis
      using n by (simp add: handle_l2cap_def Let_def le16_def)
  qed
  have c0: "length (cn_rx_l2cap ?c0) = 256" using assms(1) by (simp add: conn_ok_def)
  obtain buf where buf: "length buf = 256" "take (length ?f) buf = ?f" and
    app: "l2cap_append ?f (?c0, ev) =
      (let c' = ?c0\<lparr>cn_rx_l2cap := buf, cn_rx_l2cap_len := length ?f\<rparr> in
       if length ?f = ?n then map_option (\<lambda>(c, ev). (c\<lparr>cn_rx_l2cap_len := 0\<rparr>, ev)) (handle_att ?f (c', ev))
       else Some (c', ev))"
  proof -
    have "\<exists>buf. length buf = 256 \<and> take (length ([] :: bytes) + length ?f) buf = [] @ ?f \<and>
        l2cap_append ?f (?c0, ev) =
          (let c' = ?c0\<lparr>cn_rx_l2cap := buf, cn_rx_l2cap_len := length ([] :: bytes) + length ?f\<rparr> in
           if length ([] :: bytes) + length ?f = ?n
           then map_option (\<lambda>(c, ev). (c\<lparr>cn_rx_l2cap_len := 0\<rparr>, ev)) (handle_att ([] @ ?f) (c', ev))
           else Some (c', ev))"
      by (rule l2cap_append_step [OF c0, where got = "[]" and n = ?n]) (use assms(2) in simp_all)
    then show thesis using that by (simp only: append_Nil list.size(3) add_0) blast
  qed
  show ?thesis
  proof (cases "?n \<le> m - 4")
    case True
    then have "feed cx (fragments_of m L2CAP_ATT_CID msg) (c, ev) = deliver buf msg c ev"
      using first app
      by (simp add: fragments_of_def deliver_def chunks.simps [of m "[]"] Let_def feed_Nil_bind reassembly_order)
    with buf show ?thesis by blast
  next
    case False
    let ?c1 = "?c0\<lparr>cn_rx_l2cap := buf, cn_rx_l2cap_len := length ?f\<rparr>"
    have parts: "concat (chunks m (drop (m - 4) msg)) = drop (m - 4) msg"
      using assms(3) by (intro concat_chunks) simp
    then have "?f @ concat (chunks m (drop (m - 4) msg)) = msg" "chunks m (drop (m - 4) msg) \<noteq> []"
      using False by auto
    moreover have "[] \<notin> set (chunks m (drop (m - 4) msg))"
      using chunks_bounds [of m "[]" "drop (m - 4) msg"] assms(3) by auto
    moreover have "?f \<noteq> []" using False assms(3) by auto
    ultimately have "\<exists>buf'. length buf' = 256 \<and>
      feed cx (map (Pair LLID_DATA_CONTINUATION_OR_COMPLETE) (chunks m (drop (m - 4) msg))) (?c1, ev) = deliver buf' msg ?c1 ev"
      by (intro feed_continuations [of ?c1 msg ?f]) (use buf assms(2) in simp_all)
    then obtain buf' where b: "length buf' = 256"
      "feed cx (map (Pair LLID_DATA_CONTINUATION_OR_COMPLETE) (chunks m (drop (m - 4) msg))) (?c1, ev) = deliver buf' msg ?c1 ev"
      by blast
    have "feed cx (fragments_of m L2CAP_ATT_CID msg) (c, ev) = deliver buf' msg ?c1 ev"
      using first app False b by (simp add: fragments_of_def min_def)
    with b(1) show ?thesis by (auto simp: deliver_def)
  qed
qed

section \<open>Packets\<close>

text \<open>The same with whole packets: what \<open>tx_fragment\<close> leaves in the transmit buffer, header
  included, and a receiver that reads it with \<open>DataPdu::decode\<close>. What is left out between the two
  is the radio (\<open>receive_poll\<close>), which on an unencrypted link reads another length
  (\<open>Conn_Reception\<close>).\<close>

fun send_packets :: "nat \<Rightarrow> conn \<Rightarrow> (bytes list \<times> conn) option" where
  "send_packets 0 c = (if cn_tx_pending c then None else Some ([], c))"
| "send_packets (Suc fuel) c =
     (if cn_tx_pending c then do {
        (total, c) \<leftarrow> tx_fragment c;
        (ps, c') \<leftarrow> send_packets fuel c;
        Some (take total (cn_tx_buf c) # ps, c')
      } else Some ([], c))"

fun feed_packets :: "crypto \<Rightarrow> bytes list \<Rightarrow> conn \<times> conn_event \<Rightarrow> (conn \<times> conn_event) option" where
  "feed_packets cx [] ce = Some ce"
| "feed_packets cx (p # ps) ce =
     (case data_pdu_decode p of
        Inl _ \<Rightarrow> None
      | Inr d \<Rightarrow> do { ce \<leftarrow> handle_l2cap cx (dp_payload d) (dp_llid d) ce; feed_packets cx ps ce })"

lemma copy_slice_keeps_header:
  assumes "copy_slice xs a b ys = Some zs" and "2 \<le> a"
  shows "length zs = length xs \<and> b \<le> length xs \<and> take 2 zs = take 2 xs"
  using assms by (auto simp: copy_slice_def min_def split: if_splits)

lemma data_pdu_decode_sized:
  assumes "length b = 64" and "take 2 b = [h, of_nat k]" and "k \<le> 62"
  shows "\<exists>d. data_pdu_decode (take (2 + k) b) = Inr d \<and> dp_llid d = b ! 0 AND 3 \<and> dp_payload d = take k (drop 2 b)"
proof -
  from assms(1,2) obtain r where b: "b = [h, of_nat k] @ r" by (metis append_take_drop_id)
  have "unat (of_nat k AND 0x3F :: u8) = k" using unat_and_3F [of k] assms(3) by simp
  with b assms(1,3) show ?thesis by (simp add: data_pdu_decode_def Let_def)
qed

lemma tx_fragment_decoded:
  assumes "tx_fragment c = Some (n, c')" and "length (cn_tx_buf c) = 64"
  shows "length (cn_tx_buf c') = 64 \<and> (\<exists>d. data_pdu_decode (take n (cn_tx_buf c')) = Inr d \<and>
    dp_llid d = cn_tx_buf c' ! 0 AND 3 \<and> dp_payload d = take (n - 2) (drop 2 (cn_tx_buf c')))"
proof -
  let ?first = "cn_tx_frag_offset c = 0"
  define chunk where "chunk = min (if cn_tx_frag_offset c \<le> cn_tx_att_len c then cn_tx_att_len c - cn_tx_frag_offset c
    else cn_tx_att_len c + 2 ^ 32 - cn_tx_frag_offset c) (if ?first then cn_tx_pdu_max c - 4 else cn_tx_pdu_max c)"
  define k where "k = (if ?first then 4 + chunk else chunk)"
  obtain h b0 b1 src b where steps: "put (cn_tx_buf c) 0 h = Some b0" "put b0 1 (of_nat k) = Some b1"
      "(if ?first then do {
          buf \<leftarrow> copy_slice b1 2 4 (le16 (of_nat (cn_tx_att_len c)));
          buf \<leftarrow> copy_slice buf 4 6 (le16 (cn_tx_cid c));
          copy_slice buf 6 (6 + chunk) src
        } else copy_slice b1 2 (2 + chunk) src) = Some b"
      and fin: "n = 2 + k" "cn_tx_buf c' = b"
  proof -
    show thesis
      using assms(1) unfolding tx_fragment_def Let_def chunk_def [symmetric] k_def [symmetric] bind_eq_Some_conv option.inject prod.inject
      by (elim exE conjE) (rule that, assumption+, auto)
  qed
  have b1: "length b1 = 64" "take 2 b1 = [h, of_nat k]"
    using steps(1,2) assms(2) put_header [of "cn_tx_buf c" h "of_nat k"] by (auto split: if_splits)
  have "length b = 64 \<and> k \<le> 62 \<and> take 2 b = [h, of_nat k]"
  proof (cases ?first)
    case True
    then obtain b2 b3 where "copy_slice b1 2 4 (le16 (of_nat (cn_tx_att_len c))) = Some b2"
        "copy_slice b2 4 6 (le16 (cn_tx_cid c)) = Some b3" "copy_slice b3 6 (6 + chunk) src = Some b"
      using steps(3) by (auto simp: bind_eq_Some_conv)
    from this [THEN copy_slice_keeps_header] b1 True show ?thesis by (simp add: k_def)
  next
    case False
    then have "copy_slice b1 2 (2 + chunk) src = Some b" using steps(3) by simp
    from copy_slice_keeps_header [OF this] b1 False show ?thesis by (simp add: k_def)
  qed
  then show ?thesis using data_pdu_decode_sized [of b h k] fin by auto
qed

lemma send_packets_decoded:
  assumes "send_all fuel c = Some (fs, c')" and "length (cn_tx_buf c) = 64"
  shows "\<exists>ps. send_packets fuel c = Some (ps, c') \<and> feed_packets cx ps = feed cx fs"
  using assms
proof (induction fuel arbitrary: c fs)
  case 0
  then show ?case by (auto simp: fun_eq_iff split: if_splits)
next
  case (Suc fuel c fs)
  show ?case
  proof (cases "cn_tx_pending c")
    case True
    with Suc.prems obtain n c1 gs where t: "tx_fragment c = Some (n, c1)" "send_all fuel c1 = Some (gs, c')"
        "fs = (cn_tx_buf c1 ! 0 AND 3, take (n - 2) (drop 2 (cn_tx_buf c1))) # gs"
      by (auto simp: bind_eq_Some_conv)
    obtain d where d: "length (cn_tx_buf c1) = 64" "data_pdu_decode (take n (cn_tx_buf c1)) = Inr d"
        "dp_llid d = cn_tx_buf c1 ! 0 AND 3" "dp_payload d = take (n - 2) (drop 2 (cn_tx_buf c1))"
      using tx_fragment_decoded [OF t(1) Suc.prems(2)] by blast
    obtain ps where ps: "send_packets fuel c1 = Some (ps, c')" "feed_packets cx ps = feed cx gs"
      using Suc.IH [OF t(2) d(1)] by blast
    show ?thesis
      by (intro exI [of _ "take n (cn_tx_buf c1) # ps"] conjI ext) (simp_all add: True t(1,3) d ps)
  next
    case False
    with Suc.prems show ?thesis by (auto simp: fun_eq_iff)
  qed
qed

section \<open>Properties\<close>

text \<open>C5. A message queued on the ATT channel arrives whole at the peer's ATT server when the
  negotiated payload size is at least 5 and a fragment fits the 64-octet transmit buffer (the
  size is at most 62, or the message at most 58 bytes): the fragmenter ends after at most as many
  rounds as the message has bytes, no fragment exceeds the negotiated size, the queue is empty
  again, and a peer that handles the fragments in order hands exactly the queued message to
  \<open>handle_att\<close>, once, in its otherwise unchanged state. Outside these bounds it fails: a longer
  message at a size above 62 panics in \<open>tx_fragment\<close>, and at a size of 4 or less a message that is
  not empty is never sent, however many rounds the loop is given.\<close>

theorem l2cap_fragmentation_roundtrip:
  assumes "conn_ok c" and "cn_tx_pending c" and "cn_tx_frag_offset c = 0" and "cn_tx_cid c = L2CAP_ATT_CID" and "conn_ok peer"
  shows "if cn_tx_pdu_max c < 5 then cn_tx_att_len c = 0 \<or> (\<forall>fuel. send_all fuel c = None)
    else if 62 < cn_tx_pdu_max c \<and> 58 < cn_tx_att_len c then tx_fragment c = None
    else \<exists>fs c' buf. send_all (Suc (cn_tx_att_len c)) c = Some (fs, c') \<and> \<not> cn_tx_pending c' \<and> conn_ok c' \<and>
      (\<forall>f \<in> set fs. length (snd f) \<le> cn_tx_pdu_max c) \<and> length buf = 256 \<and>
      feed cx fs (peer, ev) =
        map_option (\<lambda>(p, ev). (p\<lparr>cn_rx_l2cap_len := 0\<rparr>, ev))
          (handle_att (queued c) (peer\<lparr>cn_rx_l2cap := buf, cn_rx_l2cap_len := length (queued c),
             cn_rx_l2cap_msg_len := length (queued c), cn_rx_l2cap_cid := L2CAP_ATT_CID\<rparr>, ev))"
proof -
  consider "cn_tx_pdu_max c < 5" | "\<not> cn_tx_pdu_max c < 5" "62 < cn_tx_pdu_max c \<and> 58 < cn_tx_att_len c"
    | (fits) "5 \<le> cn_tx_pdu_max c" "cn_tx_pdu_max c \<le> 62 \<or> cn_tx_att_len c \<le> 58" by linarith
  then show ?thesis
  proof cases
    case 1
    then show ?thesis using send_all_stuck [OF assms(1-3)] by auto
  next
    case 2
    then show ?thesis using tx_fragment_overrun [OF assms(1,3)] by simp
  next
    case fits
    let ?fs = "fragments_of (cn_tx_pdu_max c) L2CAP_ATT_CID (queued c)"
    obtain c' where "send_all (Suc (cn_tx_att_len c)) c = Some (?fs, c')" "\<not> cn_tx_pending c'" "conn_ok c'"
      using send_all_fragments [OF assms(1-3) fits, of "Suc (cn_tx_att_len c)"] assms(4) by auto
    moreover have "\<forall>f \<in> set ?fs. length (snd f) \<le> cn_tx_pdu_max c"
      using fits(1) chunks_bounds [of "cn_tx_pdu_max c"] by (auto simp: fragments_of_def)
    moreover have "length (queued c) \<le> 251" using length_queued [OF assms(1)] assms(1) by (simp add: conn_ok_def)
    then obtain buf where "length buf = 256" "feed cx ?fs (peer, ev) = deliver buf (queued c) peer ev"
      using feed_fragments [OF assms(5) _ fits(1)] by blast
    moreover have "\<not> cn_tx_pdu_max c < 5" "\<not> (62 < cn_tx_pdu_max c \<and> 58 < cn_tx_att_len c)" using fits by linarith+
    ultimately show ?thesis unfolding deliver_def by (simp only: if_False) blast
  qed
qed

theorem l2cap_fragmentation_roundtrip_witness:
  "\<exists>fs c' buf. send_all 31 (queue_att ([0x12, 3, 0] @ replicate 27 7) (example_conn Master)) = Some (fs, c') \<and>
     feed example_crypto fs (example_conn Slave, EvIdle) =
       map_option (\<lambda>(p, ev). (p\<lparr>cn_rx_l2cap_len := 0\<rparr>, ev))
         (handle_att ([0x12, 3, 0] @ replicate 27 7) ((example_conn Slave)\<lparr>cn_rx_l2cap := buf, cn_rx_l2cap_len := 30,
            cn_rx_l2cap_msg_len := 30, cn_rx_l2cap_cid := L2CAP_ATT_CID\<rparr>, EvIdle))"
proof -
  let ?m = "[0x12, 3, 0] @ replicate 27 7 :: bytes"
  let ?c = "queue_att ?m (example_conn Master)"
  have len: "length (cn_tx_att (example_conn Master)) = 251"
    using example_conn_ok [of Master] by (simp add: conn_ok_def)
  have q: "queued ?c = ?m" unfolding queued_def by (rule queue_att_message) (simp add: len)
  have n: "cn_tx_att_len ?c = 30" by (simp add: queue_att_def Let_def len)
  have "conn_ok ?c" by (simp add: example_conn_ok)
  moreover have "cn_tx_pending ?c" "cn_tx_frag_offset ?c = 0" "cn_tx_cid ?c = L2CAP_ATT_CID" "cn_tx_pdu_max ?c = 27"
    by (simp_all add: queue_att_def Let_def example_conn_def conn_new_def LL_PDU_PAYLOAD_DEFAULT_def)
  ultimately obtain fs c' buf where r: "send_all (Suc (cn_tx_att_len ?c)) ?c = Some (fs, c')"
    "feed example_crypto fs (example_conn Slave, EvIdle) =
      map_option (\<lambda>(p, ev). (p\<lparr>cn_rx_l2cap_len := 0\<rparr>, ev))
        (handle_att (queued ?c) ((example_conn Slave)\<lparr>cn_rx_l2cap := buf, cn_rx_l2cap_len := length (queued ?c),
           cn_rx_l2cap_msg_len := length (queued ?c), cn_rx_l2cap_cid := L2CAP_ATT_CID\<rparr>, EvIdle))"
    using l2cap_fragmentation_roundtrip [of ?c "example_conn Slave" example_crypto EvIdle] n
      example_conn_ok [of Slave] by auto
  have "length ?m = 30" "Suc 30 = (31::nat)" by simp_all
  with r show ?thesis unfolding q n by metis
qed

end
