(* ===== verification/Conn_Coc.thy ===== *)
theory Conn_Coc
  imports Conn_L2cap
begin

text \<open>
  The credit-based channel of \<^verbatim>\<open>src/hw/conn.rs\<close> from \<open>l2cap_send\<close> on one side through the
  fragmenter to \<open>rx_coc_sdu\<close> on the other, and the credit's way back.
\<close>

section \<open>One SDU, one PDU\<close>

lemma l2cap_send_ok:
  assumes "conn_ok c" and "cn_coc c = Some k" and "length d \<le> unat (coc_mtu k)" and "coc_credits k \<noteq> 0"
  shows "l2cap_send d c = (Inr (), c\<lparr>cn_coc := Some (k\<lparr>coc_credits := coc_credits k - 1\<rparr>),
      cn_tx_att := set_prefix (cn_tx_att c) (le16 (of_nat (length d)) @ d), cn_tx_att_len := length d + 2,
      cn_tx_cid := coc_local_cid k, cn_tx_frag_offset := 0, cn_tx_pending := True\<rparr>)"
  using assms conn_ok_lengths(6) [OF assms(1,2)] conn_ok_lengths(4) [OF assms(1)]
  by (simp add: l2cap_send_def coc_ok_def)

lemma of_le16_length: "n < 65536 \<Longrightarrow> le16 (of_nat n) = [a, b] \<Longrightarrow> unat (of_le16 a b) = n"
proof -
  assume n: "n < 65536" and l: "le16 (of_nat n) = [a, b]"
  then have "of_le16 a b = of_nat n" using of_le16_le16 [of "of_nat n"] by (simp add: le16_def)
  with n show ?thesis by (simp add: unat_of_nat)
qed

text \<open>A whole SDU in one data channel PDU.\<close>

lemma rx_coc_whole:
  assumes "conn_ok c" and "cn_coc c = Some k" and "coc_rx_sdu_len k = 0" and "length d \<le> 244"
  shows "\<exists>c'. rx_coc_sdu (le16 (of_nat (length d)) @ d) (c, ev) = Some (c', EvData) \<and> conn_ok c' \<and>
    take (cn_rx_data_len c') (cn_rx_data c') = d \<and>
    queued c' = [LE_FLOW_CONTROL_CREDIT, 0] @ le16 (coc_peer_cid k) @ [1, 0] \<and> cn_tx_cid c' = L2CAP_SIGNALING_CID \<and> cn_tx_pending c'"
proof -
  let ?n = "length d"
  obtain a b where ab: "le16 (of_nat ?n) = [a, b]" by (simp add: le16_def)
  have t: "unat (of_le16 a b) = ?n" using of_le16_length [OF _ ab] assms(4) by simp
  have k: "length (coc_rx_sdu k) = 256" using conn_ok_lengths(6) [OF assms(1,2)] by (simp add: coc_ok_def)
  let ?k = "k\<lparr>coc_rx_sdu_total := ?n, coc_rx_sdu := set_prefix (coc_rx_sdu k) d, coc_rx_sdu_len := ?n\<rparr>"
  have put: "coc_put (le16 (of_nat ?n) @ d) k = Some ?k"
    using assms(3,4) k t by (simp add: coc_put_def ab set_prefix_def min_def Let_def)
  let ?c = "queue_signaling ([LE_FLOW_CONTROL_CREDIT, 0] @ le16 (coc_peer_cid k) @ le16 1)
    (c\<lparr>cn_coc := Some (?k\<lparr>coc_rx_sdu_len := 0, coc_rx_sdu_total := 0\<rparr>)\<rparr>)"
  let ?c' = "?c\<lparr>cn_rx_data := set_prefix (cn_rx_data ?c) d, cn_rx_data_len := ?n\<rparr>"
  have l: "length (cn_rx_data ?c) = 244" "length (cn_tx_att c) = 251"
    using conn_ok_lengths(4,7) [OF assms(1)] by (simp_all add: queue_signaling_def Let_def)
  have "coc_complete ?k c = Some ?c'"
    using assms(4) k l by (simp add: coc_complete_def Let_def set_prefix_def)
  then have r: "rx_coc_sdu (le16 (of_nat ?n) @ d) (c, ev) = Some (?c', EvData)"
    using assms(2,3) put by (simp add: rx_coc_sdu_def)
  have "le16 1 = [1, 0]" by (simp add: le16_def)
  then have "queued ?c' = [LE_FLOW_CONTROL_CREDIT, 0] @ le16 (coc_peer_cid k) @ [1, 0]" "cn_tx_cid ?c' = L2CAP_SIGNALING_CID" "cn_tx_pending ?c'"
    using l(2) by (simp_all add: queued_def queue_signaling_def Let_def set_prefix_def)
  with r rx_coc_sdu_ok [OF r assms(1)] show ?thesis by (intro exI [of _ ?c']) simp
qed

lemma credit_returned:
  assumes "cn_coc c = Some k" and "cid = coc_local_cid k \<or> cid = coc_peer_cid k"
  shows "handle_le_signaling ([LE_FLOW_CONTROL_CREDIT, 0] @ le16 cid @ [1, 0]) c =
    Some (c\<lparr>cn_coc := Some (k\<lparr>coc_credits := saturating_add (coc_credits k) 1\<rparr>)\<rparr>)"
proof -
  obtain a b where ab: "le16 cid = [a, b]" by (simp add: le16_def)
  then have "of_le16 a b = cid" using of_le16_le16 [of cid] by (simp add: le16_def)
  moreover have "of_le16 1 0 = 1" by (simp add: of_le16_def)
  ultimately show ?thesis
    using assms by (auto simp: handle_le_signaling_def Let_def ab LE_FLOW_CONTROL_CREDIT_def
        LE_CREDIT_BASED_CONNECTION_REQ_def LE_CREDIT_BASED_CONNECTION_RSP_def LE_CREDIT_BASED_CONNECTION_END_def get_le16_def)
qed

lemma saturating_restore: "c \<noteq> 0 \<Longrightarrow> saturating_add (c - 1) 1 = c"
proof -
  assume "c \<noteq> 0"
  then have "unat (c - 1) = unat c - 1" by (simp add: unat_minus_one)
  moreover have "unat c < 2 ^ 16" using unat_u16_less [of c] by simp
  ultimately show ?thesis using \<open>c \<noteq> 0\<close> by (simp add: saturating_add_def unat_gt_0)
qed

lemma handle_l2cap_coc:
  assumes "cn_coc c = Some k" and "coc_local_cid k = COC_LOCAL_CID"
  shows "handle_l2cap cx (le16 n @ le16 COC_LOCAL_CID @ body) LLID_DATA_COMPLETE (c, ev) =
    rx_coc_sdu body (c\<lparr>cn_rx_l2cap_len := 0, cn_rx_l2cap_msg_len := unat n, cn_rx_l2cap_cid := COC_LOCAL_CID\<rparr>, ev)"
proof -
  obtain x y where xy: "le16 n = [x, y]" by (simp add: le16_def)
  then have "of_le16 x y = n" using of_le16_le16 [of n] by (simp add: le16_def)
  moreover have "le16 COC_LOCAL_CID = [0x40, 0]" "of_le16 0x40 0 = COC_LOCAL_CID"
    by (simp_all add: le16_def of_le16_def COC_LOCAL_CID_def)
  ultimately show ?thesis
    using assms xy
    by (simp add: handle_l2cap_def LLID_DATA_COMPLETE_def LLID_DATA_CONTINUATION_OR_COMPLETE_def get_le16_def Let_def
        L2CAP_SMP_CID_LOCAL_def L2CAP_SIGNALING_CID_def L2CAP_ATT_CID_def COC_LOCAL_CID_def)
qed

text \<open>An SDU that fits is sent as one complete PDU.\<close>

lemma coc_send_fragment:
  assumes "conn_ok a" and "cn_coc a = Some k" and "coc_local_cid k = COC_LOCAL_CID" and "coc_credits k \<noteq> 0"
    and "length d \<le> unat (coc_mtu k)" and "length d + 6 \<le> cn_tx_pdu_max a" and "length d \<le> 56"
  shows "\<exists>a1 a2. l2cap_send d a = (Inr (), a1) \<and> cn_coc a1 = Some (k\<lparr>coc_credits := coc_credits k - 1\<rparr>) \<and>
    tx_fragment a1 = Some (8 + length d, a2) \<and> \<not> cn_tx_pending a2 \<and> cn_coc a2 = cn_coc a1 \<and>
    cn_tx_buf a2 ! 0 AND 3 = LLID_DATA_COMPLETE \<and>
    take (6 + length d) (drop 2 (cn_tx_buf a2)) = le16 (of_nat (length d + 2)) @ le16 COC_LOCAL_CID @ le16 (of_nat (length d)) @ d"
proof -
  let ?a1 = "a\<lparr>cn_coc := Some (k\<lparr>coc_credits := coc_credits k - 1\<rparr>),
      cn_tx_att := set_prefix (cn_tx_att a) (le16 (of_nat (length d)) @ d), cn_tx_att_len := length d + 2,
      cn_tx_cid := COC_LOCAL_CID, cn_tx_frag_offset := 0, cn_tx_pending := True\<rparr>"
  have send: "l2cap_send d a = (Inr (), ?a1)" using l2cap_send_ok [OF assms(1,2,5,4)] assms(3) by simp
  note d = assms(7)
  have la: "length (cn_tx_att a) = 251" using assms(1) by (rule conn_ok_lengths)
  have ok1: "conn_ok ?a1"
    using assms(1) la d conn_ok_lengths(6) [OF assms(1,2)] by (auto simp: coc_ok_def intro!: conn_ok_set)
  have q: "queued ?a1 = le16 (of_nat (length d)) @ d" by (simp add: queued_def set_prefix_def)
  have k: "min (cn_tx_att_len ?a1) (cn_tx_pdu_max ?a1 - 4) = length d + 2" using assms(6) by simp
  obtain buf where buf: "buf ! 0 = ll_header LLID_DATA_COMPLETE ?a1"
      "take (4 + (length d + 2)) (drop 2 buf) = le16 (of_nat (length d + 2)) @ le16 COC_LOCAL_CID @ take (length d + 2) (queued ?a1)"
      "tx_fragment ?a1 = Some (6 + (length d + 2), ?a1\<lparr>cn_tx_buf := buf, cn_tx_pending := False, cn_tx_frag_offset := 0\<rparr>)"
    using tx_fragment_first [OF ok1] assms(7) unfolding k by auto
  have "buf ! 0 AND 3 = LLID_DATA_COMPLETE" unfolding buf(1) by (rule ll_header_llid) (simp add: LLID_DATA_COMPLETE_def)
  moreover have "take (6 + length d) (drop 2 buf) = le16 (of_nat (length d + 2)) @ le16 COC_LOCAL_CID @ le16 (of_nat (length d)) @ d"
    using buf(2) unfolding q by (simp add: add.commute)
  ultimately show ?thesis
    using send buf(3)
    by (intro exI [of _ ?a1] exI [of _ "?a1\<lparr>cn_tx_buf := buf, cn_tx_pending := False, cn_tx_frag_offset := 0\<rparr>"]) simp
qed

text \<open>An accepted SDU is queued; one that the transmit buffer cannot hold in its first fragment
  makes the fragmenter panic.\<close>

lemma coc_send_overrun:
  assumes "conn_ok a" and "cn_coc a = Some k" and "coc_credits k \<noteq> 0" and "length d \<le> unat (coc_mtu k)"
    and "62 < cn_tx_pdu_max a" and "56 < length d"
  shows "\<exists>a1. l2cap_send d a = (Inr (), a1) \<and> tx_fragment a1 = None"
proof -
  let ?a1 = "a\<lparr>cn_coc := Some (k\<lparr>coc_credits := coc_credits k - 1\<rparr>),
      cn_tx_att := set_prefix (cn_tx_att a) (le16 (of_nat (length d)) @ d), cn_tx_att_len := length d + 2,
      cn_tx_cid := coc_local_cid k, cn_tx_frag_offset := 0, cn_tx_pending := True\<rparr>"
  have "unat (coc_mtu k) \<le> 247" using conn_ok_lengths(6) [OF assms(1,2)] by (simp add: coc_ok_def)
  then have "conn_ok ?a1"
    using assms(1,4) conn_ok_lengths(4) [OF assms(1)] conn_ok_lengths(6) [OF assms(1,2)]
    by (auto simp: coc_ok_def intro!: conn_ok_set)
  then have "tx_fragment ?a1 = None" by (rule tx_fragment_overrun) (use assms(5,6) in simp_all)
  with l2cap_send_ok [OF assms(1,2,4,3)] show ?thesis by blast
qed

section \<open>Properties\<close>

text \<open>C14. \<open>l2cap_send\<close> on a credit-based channel: without a channel, with an SDU above the
  negotiated size, or without credits it is refused and changes nothing. Otherwise, when the SDU
  fits one data channel PDU of the negotiated size and the transmit buffer (at most 56 bytes), it
  crosses to a peer whose channel is open, and its credit comes back: the send takes exactly one
  credit, the fragmenter emits the SDU as one complete PDU, the receiving side reports data and
  holds exactly the bytes sent, and the flow control message it queues in return restores the
  sender's credits. A longer SDU at a negotiated size above 62 panics in the fragmenter.\<close>

theorem coc_transfer:
  assumes "conn_ok a" and "conn_ok b" and "\<And>ka. cn_coc a = Some ka \<Longrightarrow> coc_local_cid ka = COC_LOCAL_CID" and "cn_coc b = Some kb"
    and "coc_local_cid kb = COC_LOCAL_CID" and "coc_peer_cid kb = COC_LOCAL_CID" and "coc_rx_sdu_len kb = 0"
  shows "case cn_coc a of
      None \<Rightarrow> l2cap_send d a = (Inl NotRunning, a)
    | Some ka \<Rightarrow>
        if length d > unat (coc_mtu ka) then l2cap_send d a = (Inl InvalidLength, a)
        else if coc_credits ka = 0 then l2cap_send d a = (Inl NotRunning, a)
        else
          (length d + 6 \<le> cn_tx_pdu_max a \<and> length d \<le> 56 \<longrightarrow>
            (\<exists>a1 a2 a3 b1. l2cap_send d a = (Inr (), a1) \<and> map_option coc_credits (cn_coc a1) = Some (coc_credits ka - 1) \<and>
              tx_fragment a1 = Some (8 + length d, a2) \<and> \<not> cn_tx_pending a2 \<and>
              handle_l2cap cx (take (6 + length d) (drop 2 (cn_tx_buf a2))) (cn_tx_buf a2 ! 0 AND 3) (b, ev) = Some (b1, EvData) \<and>
              take (cn_rx_data_len b1) (cn_rx_data b1) = d \<and> cn_tx_pending b1 \<and> cn_tx_cid b1 = L2CAP_SIGNALING_CID \<and>
              handle_le_signaling (queued b1) a2 = Some a3 \<and> map_option coc_credits (cn_coc a3) = Some (coc_credits ka))) \<and>
          (62 < cn_tx_pdu_max a \<and> 56 < length d \<longrightarrow> (\<exists>a1. l2cap_send d a = (Inr (), a1) \<and> tx_fragment a1 = None))"
proof (cases "cn_coc a")
  case None
  then show ?thesis by (simp add: l2cap_send_def)
next
  case ka: (Some ka)
  have la: "length (cn_tx_att a) = 251" using assms(1) by (rule conn_ok_lengths)
  have m: "unat (coc_mtu ka) \<le> 247" using conn_ok_lengths(6) [OF assms(1) ka] by (simp add: coc_ok_def)
  show ?thesis
  proof (cases "length d > unat (coc_mtu ka) \<or> coc_credits ka = 0")
    case True
    with ka la m show ?thesis by (auto simp: l2cap_send_def)
  next
    case False
    have "\<exists>a1 a2 a3 b1. l2cap_send d a = (Inr (), a1) \<and> map_option coc_credits (cn_coc a1) = Some (coc_credits ka - 1) \<and>
        tx_fragment a1 = Some (8 + length d, a2) \<and> \<not> cn_tx_pending a2 \<and>
        handle_l2cap cx (take (6 + length d) (drop 2 (cn_tx_buf a2))) (cn_tx_buf a2 ! 0 AND 3) (b, ev) = Some (b1, EvData) \<and>
        take (cn_rx_data_len b1) (cn_rx_data b1) = d \<and> cn_tx_pending b1 \<and> cn_tx_cid b1 = L2CAP_SIGNALING_CID \<and>
        handle_le_signaling (queued b1) a2 = Some a3 \<and> map_option coc_credits (cn_coc a3) = Some (coc_credits ka)"
      if fit: "length d + 6 \<le> cn_tx_pdu_max a" "length d \<le> 56"
    proof -
      obtain a1 a2 where send: "l2cap_send d a = (Inr (), a1)" "cn_coc a1 = Some (ka\<lparr>coc_credits := coc_credits ka - 1\<rparr>)"
          "tx_fragment a1 = Some (8 + length d, a2)" "\<not> cn_tx_pending a2" "cn_coc a2 = cn_coc a1"
          "cn_tx_buf a2 ! 0 AND 3 = LLID_DATA_COMPLETE"
          "take (6 + length d) (drop 2 (cn_tx_buf a2)) = le16 (of_nat (length d + 2)) @ le16 COC_LOCAL_CID @ le16 (of_nat (length d)) @ d"
        using coc_send_fragment [OF assms(1) ka assms(3) [OF ka], of d] False fit by auto
      let ?b = "b\<lparr>cn_rx_l2cap_len := 0, cn_rx_l2cap_msg_len := unat (of_nat (length d + 2) :: u16), cn_rx_l2cap_cid := COC_LOCAL_CID\<rparr>"
      have okb: "conn_ok ?b" "cn_coc ?b = Some kb" using assms(2,4) by (simp_all add: conn_ok_set)
      have "length d \<le> 244" using fit(2) by simp
      then obtain b1 where b1: "rx_coc_sdu (le16 (of_nat (length d)) @ d) (?b, ev) = Some (b1, EvData)"
          "take (cn_rx_data_len b1) (cn_rx_data b1) = d" "cn_tx_cid b1 = L2CAP_SIGNALING_CID" "cn_tx_pending b1"
          "queued b1 = [LE_FLOW_CONTROL_CREDIT, 0] @ le16 (coc_peer_cid kb) @ [1, 0]"
        using rx_coc_whole [OF okb assms(7), of d ev] by auto
      have deliver: "handle_l2cap cx (take (6 + length d) (drop 2 (cn_tx_buf a2))) (cn_tx_buf a2 ! 0 AND 3) (b, ev) = Some (b1, EvData)"
        unfolding send(6,7) handle_l2cap_coc [OF assms(4,5)] by (rule b1(1))
      have credit: "handle_le_signaling (queued b1) a2 = Some (a2\<lparr>cn_coc := Some ka\<rparr>)"
        unfolding b1(5) using False assms(3) [OF ka] assms(6) send(2,5)
        by (subst credit_returned [of _ "ka\<lparr>coc_credits := coc_credits ka - 1\<rparr>"]) (simp_all add: saturating_restore)
      show ?thesis
        by (intro exI [of _ a1] exI [of _ a2] exI [of _ "a2\<lparr>cn_coc := Some ka\<rparr>"] exI [of _ b1])
          (use send deliver credit b1(2-4) in simp)
    qed
    moreover have "\<exists>a1. l2cap_send d a = (Inr (), a1) \<and> tx_fragment a1 = None" if "62 < cn_tx_pdu_max a" "56 < length d"
      using coc_send_overrun [OF assms(1) ka _ _ that] False by simp
    ultimately show ?thesis using False ka by simp
  qed
qed

text \<open>A connection whose channel is open to a like peer.\<close>

definition example_coc :: "conn_role \<Rightarrow> conn" where
  "example_coc r = (example_conn r)\<lparr>cn_coc := Some ((coc_new 0x80)\<lparr>coc_peer_cid := COC_LOCAL_CID, coc_credits := 8\<rparr>)\<rparr>"

theorem coc_transfer_witness:
  "\<exists>a1 a2 b1. l2cap_send [1, 2, 3] (example_coc Master) = (Inr (), a1) \<and> tx_fragment a1 = Some (11, a2) \<and>
     handle_l2cap example_crypto (take 9 (drop 2 (cn_tx_buf a2))) (cn_tx_buf a2 ! 0 AND 3) (example_coc Slave, EvIdle) = Some (b1, EvData) \<and>
     take (cn_rx_data_len b1) (cn_rx_data b1) = [1, 2, 3]"
proof -
  let ?k = "(coc_new 0x80)\<lparr>coc_peer_cid := COC_LOCAL_CID, coc_credits := 8\<rparr>"
  have ok: "conn_ok (example_coc r)" "cn_coc (example_coc r) = Some ?k" for r
    using coc_new_ok [of "0x80"] by (auto simp: example_coc_def example_conn_ok coc_ok_def intro!: conn_ok_set)
  have k: "coc_local_cid ?k = COC_LOCAL_CID" "coc_peer_cid ?k = COC_LOCAL_CID" "coc_rx_sdu_len ?k = 0" "unat (coc_mtu ?k) = 247" "coc_credits ?k \<noteq> 0"
    by (simp_all add: coc_new_def COC_MTU_def)
  have m: "cn_tx_pdu_max (example_coc Master) = 27" by (simp add: example_coc_def example_conn_def conn_new_def LL_PDU_PAYLOAD_DEFAULT_def)
  show ?thesis
    using coc_transfer [OF ok(1) ok(1) _ ok(2) k(1,2,3), of Master "[1, 2, 3]" example_crypto Slave EvIdle] m k(1,4,5) ok(2) [of Master]
    by auto
qed

end
