(* ===== verification/Conn_Link.thy ===== *)
theory Conn_Link
  imports Conn_L2cap
begin

text \<open>
  The link layer of \<^verbatim>\<open>src/hw/conn.rs\<close>: control procedures, the encrypted send and receive
  paths, the answer of a connection event, and the connection event itself in both roles.
  State is the connection with the peripherals of \<open>Peripherals\<close>; the cryptographic functions
  and the CCM engine are parameters. \<open>None\<close> is a call that does not return: a panic, a DMA
  overrun, or a busy-wait whose event never comes.
\<close>

section \<open>Sending and receiving\<close>

definition conn_tx :: "ccm_engine \<Rightarrow> nat \<Rightarrow> conn \<times> world \<Rightarrow> (conn \<times> world) option" where
  "conn_tx eng len cw =
     (case cw of (c, w) \<Rightarrow>
      if cn_encrypted c then do {
        let direction = (case cn_role c of Master \<Rightarrow> LL_NONCE_MASTER_TO_SLAVE | Slave \<Rightarrow> LL_NONCE_SLAVE_TO_MASTER);
        let m = ccm_setup (sm_stk (cn_smp c)) (cn_packet_counter c) direction (cn_ccm c);
        (ok, buf, m, w) \<leftarrow> ccm_process eng False (cn_tx_buf c) m w;
        let c = c\<lparr>cn_tx_buf := buf, cn_ccm := m\<rparr>;
        if \<not> ok then Some (c, w)
        else do {
          pdu \<leftarrow> slice (cn_tx_buf c) 0 (len + LL_MIC_LEN);
          w \<leftarrow> radio_transmit pdu w;
          Some (c, w)
        }
      } else do {
        pdu \<leftarrow> slice (cn_tx_buf c) 0 len;
        w \<leftarrow> radio_transmit pdu w;
        Some (c, w)
      })"

definition conn_rx :: "ccm_engine \<Rightarrow> conn \<times> world \<Rightarrow> (bool \<times> conn \<times> world) option" where
  "conn_rx eng cw =
     (case cw of (c, w) \<Rightarrow>
      if \<not> cn_encrypted c then Some (True, c, w)
      else do {
        let direction = (case cn_role c of Master \<Rightarrow> LL_NONCE_SLAVE_TO_MASTER | Slave \<Rightarrow> LL_NONCE_MASTER_TO_SLAVE);
        let m = ccm_setup (sm_stk (cn_smp c)) (cn_packet_counter c) direction (cn_ccm c);
        (ok, buf, m, w) \<leftarrow> ccm_process eng True (cn_rx_buf c) m w;
        Some (ok, c\<lparr>cn_rx_buf := buf, cn_ccm := m\<rparr>, w)
      })"

text \<open>Header and payload of a control PDU written at the start of the transmit buffer.\<close>

definition put_control :: "bytes \<Rightarrow> conn \<Rightarrow> conn" where
  "put_control payload c =
     c\<lparr>cn_tx_buf := set_prefix (cn_tx_buf c) ([ll_header LLID_CONTROL c, of_nat (length payload)] @ payload)\<rparr>"

definition respond :: "ccm_engine \<Rightarrow> conn \<times> world \<Rightarrow> (conn \<times> world) option" where
  "respond eng cw =
     (case cw of (c, w) \<Rightarrow>
      case cn_pending_control c of
        Some ctrl \<Rightarrow>
          (let plen = 18; c = c\<lparr>cn_pending_control := None\<rparr>
           in conn_tx eng (2 + plen) (put_control (take plen ctrl) c, w))
      | None \<Rightarrow>
          if cn_tx_pending c then do {
            (total, c) \<leftarrow> tx_fragment c;
            let c = c\<lparr>cn_sn := \<not> cn_sn c\<rparr>;
            conn_tx eng total (c, w)
          } else
            conn_tx eng 2 (c\<lparr>cn_tx_buf := set_prefix (cn_tx_buf c) [ll_header LLID_DATA_COMPLETE c, 0]\<rparr>, w))"

section \<open>Control procedures\<close>

definition handle_ll_control ::
  "ccm_engine \<Rightarrow> bytes \<Rightarrow> conn \<times> world \<Rightarrow> ((disconnect_reason + unit) \<times> conn \<times> world) option" where
  "handle_ll_control eng payload cw =
     (case cw of (c, w) \<Rightarrow>
      if payload = [] then Some (Inr (), c, w)
      else
      let op = payload ! 0;
          later = (\<lambda>rsp c. c\<lparr>cn_pending_control := Some (rsp @ replicate (19 - length rsp) 0)\<rparr>) in
      if op = LL_CONTROL_TERMINATE_IND then Some (Inl RemoteTerminate, c, w)
      else if op = LL_CONTROL_VERSION_IND then do {
        let c = put_control [LL_CONTROL_VERSION_IND, 0x0C, 0xFF, 0xFF, 0x00, 0x00] c;
        let c = c\<lparr>cn_tx_buf := (cn_tx_buf c)[1 := 4]\<rparr>;
        w \<leftarrow> radio_transmit (take 8 (cn_tx_buf c)) w;
        Some (Inr (), c\<lparr>cn_peer_version_ok := True\<rparr>, w)
      }
      else if op = LL_CONTROL_FEATURE_REQ \<or> op = LL_CONTROL_FEATURE_RSP then do {
        let c = put_control (LL_CONTROL_FEATURE_RSP # replicate 8 0) c;
        w \<leftarrow> radio_transmit (take 11 (cn_tx_buf c)) w;
        Some (Inr (), c, w)
      }
      else if op = LL_CONTROL_ENCRYPT_REQ then
        Some (Inr (), (later [LL_CONTROL_ENCRYPT_RSP] c)\<lparr>cn_want_encrypt := True\<rparr>, w)
      else if op = LL_CONTROL_ENCRYPT_RSP then Some (Inr (), later [LL_CONTROL_START_ENC_REQ] c, w)
      else if op = LL_CONTROL_START_ENC_REQ then do {
        let c = put_control [LL_CONTROL_START_ENC_RSP, 0] c;
        let c = c\<lparr>cn_tx_buf := (cn_tx_buf c)[1 := 1]\<rparr>;
        (c, w) \<leftarrow> conn_tx eng 3 (c, w);
        Some (Inr (), c\<lparr>cn_encrypted := True, cn_packet_counter := 0\<rparr>, w)
      }
      else if op = LL_CONTROL_START_ENC_RSP then
        Some (Inr (), c\<lparr>cn_encrypted := True, cn_packet_counter := 0\<rparr>, w)
      else if op = LL_CONTROL_LENGTH_REQ then do {
        max_tx \<leftarrow> get_le16 payload 1;
        max_rx \<leftarrow> get_le16 payload 5;
        let rsp = [LL_CONTROL_LENGTH_RSP] @ le16 (of_nat LL_PDU_PAYLOAD_MAX) @ le16 2120 @
                  le16 (of_nat LL_PDU_PAYLOAD_MAX) @ le16 2120;
        Some (Inr (), (later rsp c)\<lparr>cn_tx_pdu_max := min (unat max_tx) LL_PDU_PAYLOAD_MAX,
                                    cn_rx_pdu_max := min (unat max_rx) LL_PDU_PAYLOAD_MAX\<rparr>, w)
      }
      else if op = LL_CONTROL_LENGTH_RSP then do {
        max_tx \<leftarrow> get_le16 payload 1;
        max_rx \<leftarrow> get_le16 payload 5;
        Some (Inr (), c\<lparr>cn_tx_pdu_max := min (unat max_tx) LL_PDU_PAYLOAD_MAX,
                        cn_rx_pdu_max := min (unat max_rx) LL_PDU_PAYLOAD_MAX\<rparr>, w)
      }
      else if op = LL_CONTROL_PING_REQ then Some (Inr (), later [LL_CONTROL_PING_RSP] c, w)
      else if op = LL_CONTROL_PHY_REQ then Some (Inr (), later [LL_CONTROL_PHY_RSP, 0, 0x01, 0x01, 0x01] c, w)
      else if op = LL_CONTROL_CONNECTION_UPDATE_REQ then
        if length payload \<ge> 10 then do {
          interval \<leftarrow> get_le16 payload 3;
          timeout \<leftarrow> get_le16 payload 7;
          instant \<leftarrow> get_le16 payload 9;
          Some (Inr (), c\<lparr>cn_pending_update := Some (interval, timeout), cn_pending_update_instant := instant\<rparr>, w)
        } else Some (Inr (), c, w)
      else Some (Inr (), later [LL_CONTROL_UNKNOWN_RSP, op] c, w))"

section \<open>The connection event\<close>

text \<open>The receive loop of both roles: poll until a packet ends or the listening window is over;
  a timeout and a CRC error cancel the reception and give \<open>None\<close>.\<close>

lemma poll_shrinks:
  assumes "receive_poll buf w = Some (r, buf', w1)" and "timer_now w1 = Some (t, w2)"
  shows "length (w_now w2) < length (w_now w)"
proof -
  have "w_now w = w_now w1" using receive_poll_effect [OF assms(1)] by simp
  with timer_now_SomeD [OF assms(2)] show ?thesis by auto
qed

function poll_loop :: "u32 \<Rightarrow> bytes \<Rightarrow> world \<Rightarrow> (nat option \<times> bytes \<times> world) option" where
  "poll_loop listen_until buf w =
     (case receive_poll buf w of
        None \<Rightarrow> None
      | Some (Inr (Some len), buf, w) \<Rightarrow> Some (Some len, buf, w)
      | Some (Inr None, buf, w) \<Rightarrow>
          (case timer_now w of
             None \<Rightarrow> None
           | Some (t, w) \<Rightarrow>
               if t \<ge> listen_until then do { w \<leftarrow> receive_cancel w; Some (None, buf, w) }
               else poll_loop listen_until buf w)
      | Some (Inl _, buf, w) \<Rightarrow> do { w \<leftarrow> receive_cancel w; Some (None, buf, w) })"
  by pat_completeness auto
termination
  by (relation "measure (\<lambda>(t, buf, w). length (w_now w))") (auto intro: poll_shrinks)

declare poll_loop.simps [simp del]

definition event_begin :: "conn \<Rightarrow> world \<Rightarrow> (error + unit) \<times> conn \<times> world" where
  "event_begin c w =
     (let c = c\<lparr>cn_event_counter := cn_event_counter c + 1\<rparr>;
          c = (if cn_encrypted c then c\<lparr>cn_packet_counter := cn_packet_counter c + 1\<rparr> else c);
          c = (case cn_pending_update c of
                 Some (interval, timeout) \<Rightarrow>
                   if cn_event_counter c = cn_pending_update_instant c
                   then c\<lparr>cn_interval := interval, cn_timeout := timeout, cn_accum := accum_new_125ms\<rparr>
                   else c
               | None \<Rightarrow> c);
          (ticks, accum) = accum_next (cn_accum c) (cn_interval c);
          c = c\<lparr>cn_accum := accum, cn_anchor := cn_anchor c + ticks\<rparr>;
          c = c\<lparr>cn_channel := next_channel (cn_channel c) (cn_hop c) (cn_channel_map c)\<rparr>;
          w = set_access_address (cn_access_addr c) w;
          w = set_crc_init (cn_crc_init c) w;
          (r, w) = set_channel (cn_channel c) w
      in (r, c, w))"

definition terminate_pdu :: "conn \<Rightarrow> conn" where
  "terminate_pdu c = put_control [LL_CONTROL_TERMINATE_IND, 0x13] c"

definition acknowledge :: "data_pdu \<Rightarrow> conn \<Rightarrow> conn" where
  "acknowledge pdu c = (if dp_sn pdu \<noteq> cn_nesn c then c\<lparr>cn_nesn := dp_sn pdu\<rparr> else c)"

text \<open>How a round of the slave's receive loop ends: the event returns early, or the loop is left
  with \<open>received\<close> and the result so far.\<close>

datatype slave_exit = Return "error + conn_event" | Break bool conn_event

text \<open>The body of the round that has received and decoded \<open>pdu\<close>: the result of the event so far,
  or the reason to disconnect.\<close>

definition slave_handle ::
  "crypto \<Rightarrow> ccm_engine \<Rightarrow> data_pdu \<Rightarrow> conn_event \<Rightarrow> conn \<times> world \<Rightarrow>
     ((disconnect_reason + conn_event) \<times> conn \<times> world) option" where
  "slave_handle cx eng pdu result cw =
     (case cw of (c, w) \<Rightarrow>
      let plen = min (length (dp_payload pdu)) 64;
          payload = take plen (dp_payload pdu) in
      if plen = 0 then Some (Inr result, acknowledge pdu c, w)
      else if dp_llid pdu = LLID_CONTROL then do {
        let c = acknowledge pdu c;
        (r, c, w) \<leftarrow> handle_ll_control eng payload (c, w);
        Some (case r of Inr _ \<Rightarrow> Inr (EvControl (payload ! 0)) | Inl reason \<Rightarrow> Inl reason, c, w)
      } else do {
        let c = acknowledge pdu c;
        (c, result) \<leftarrow> handle_l2cap cx payload (dp_llid pdu) (c, result);
        Some (Inr result, c, w)
      })"

text \<open>Listening for one packet: \<open>None\<close> when nothing was received, an error for a packet that is
  no data channel PDU.\<close>

definition slave_receive :: "ccm_engine \<Rightarrow> conn \<Rightarrow> world \<Rightarrow> ((error + data_pdu) option \<times> conn \<times> world) option" where
  "slave_receive eng c w = do {
     (t, w) \<leftarrow> timer_now w;
     let listen_until = t + timeout_ticks 2000;
     let w = set_compare listen_until w;
     w \<leftarrow> receive_start w;
     (got, buf, w) \<leftarrow> poll_loop listen_until (cn_rx_buf c) w;
     let c = c\<lparr>cn_rx_buf := buf\<rparr>;
     case got of
       None \<Rightarrow> Some (None, c, w)
     | Some len \<Rightarrow> do {
         (ok, c, w) \<leftarrow> conn_rx eng (c, w);
         if \<not> ok then do { w \<leftarrow> receive_cancel w; Some (None, c, w) }
         else do {
           pkt \<leftarrow> slice (cn_rx_buf c) 0 len;
           Some (Some (case data_pdu_decode pkt of Inl _ \<Rightarrow> Inl InvalidPdu | Inr pdu \<Rightarrow> Inr pdu), c, w)
         }
       }
   }"

function slave_loop ::
  "crypto \<Rightarrow> ccm_engine \<Rightarrow> nat \<Rightarrow> conn_event \<Rightarrow> conn \<Rightarrow> world \<Rightarrow> (slave_exit \<times> conn \<times> world) option" where
  "slave_loop cx eng handled result c w = do {
     (got, c, w) \<leftarrow> slave_receive eng c w;
     case got of
       None \<Rightarrow> Some (Break False result, c, w)
     | Some (Inl e) \<Rightarrow> Some (Return (Inl e), c, w)
     | Some (Inr pdu) \<Rightarrow> do {
         (t, w) \<leftarrow> timer_now w;
         let c = c\<lparr>cn_last_rx := t\<rparr>;
         (r, c, w) \<leftarrow> slave_handle cx eng pdu result (c, w);
         case r of
           Inl reason \<Rightarrow> Some (Return (Inr (EvDisconnected reason)), c, w)
         | Inr result \<Rightarrow>
             if \<not> dp_md pdu \<or> handled + 1 \<ge> 4 then Some (Break True result, c, w)
             else slave_loop cx eng (handled + 1) result c w
       }
   }"
  by pat_completeness auto
termination
  by (relation "measure (\<lambda>(cx, eng, handled, result, c, w). 4 - handled)") auto

declare slave_loop.simps [simp del]

definition event_slave :: "crypto \<Rightarrow> ccm_engine \<Rightarrow> conn \<Rightarrow> world \<Rightarrow> ((error + conn_event) \<times> conn \<times> world) option" where
  "event_slave cx eng c w = do {
     (exit, c, w) \<leftarrow> slave_loop cx eng 0 EvIdle c w;
     case exit of
       Return r \<Rightarrow> Some (r, c, w)
     | Break received result \<Rightarrow>
         if \<not> received then Some (Inr EvIdle, c, w)
         else if cn_terminate_pending c then do {
           let c = terminate_pdu c;
           w \<leftarrow> radio_transmit (take 4 (cn_tx_buf c)) w;
           Some (Inr (EvDisconnected HostTerminate), c, w)
         } else do {
           (c, w) \<leftarrow> respond eng (c, w);
           Some (Inr result, c, w)
         }
   }"

definition master_handle ::
  "crypto \<Rightarrow> data_pdu \<Rightarrow> conn \<Rightarrow> (conn_event \<times> conn) option" where
  "master_handle cx pdu c =
     (let plen = min (length (dp_payload pdu)) 64;
          payload = take plen (dp_payload pdu);
          c = acknowledge pdu c in
      if plen > 0 then
        if dp_llid pdu = LLID_CONTROL then
          if dp_payload pdu ! 0 = LL_CONTROL_TERMINATE_IND then Some (EvDisconnected RemoteTerminate, c)
          else Some (EvControl (payload ! 0), c)
        else do {
          (c, result) \<leftarrow> handle_l2cap cx payload (dp_llid pdu) (c, EvIdle);
          Some (result, c)
        }
      else Some (EvIdle, c))"

definition event_master :: "crypto \<Rightarrow> ccm_engine \<Rightarrow> conn \<Rightarrow> world \<Rightarrow> ((error + conn_event) \<times> conn \<times> world) option" where
  "event_master cx eng c w =
     (if cn_terminate_pending c then do {
        let c = terminate_pdu c;
        w \<leftarrow> radio_transmit (take 4 (cn_tx_buf c)) w;
        Some (Inr (EvDisconnected HostTerminate), c, w)
      } else do {
        (c, w) \<leftarrow> respond eng (c, w);
        (t, w) \<leftarrow> timer_now w;
        let listen_until = t + timeout_ticks 2000;
        let w = set_compare listen_until w;
        w \<leftarrow> receive_start w;
        (got, buf, w) \<leftarrow> poll_loop listen_until (cn_rx_buf c) w;
        let c = c\<lparr>cn_rx_buf := buf\<rparr>;
        case got of
          None \<Rightarrow> Some (Inr EvIdle, c, w)
        | Some len \<Rightarrow> do {
            (ok, c, w) \<leftarrow> conn_rx eng (c, w);
            if \<not> ok then do { w \<leftarrow> receive_cancel w; Some (Inr EvIdle, c, w) }
            else do {
              (t, w) \<leftarrow> timer_now w;
              let c = c\<lparr>cn_last_rx := t\<rparr>;
              pkt \<leftarrow> slice (cn_rx_buf c) 0 len;
              case data_pdu_decode pkt of
                Inl _ \<Rightarrow> Some (Inr EvIdle, c, w)
              | Inr pdu \<Rightarrow> do {
                  (result, c) \<leftarrow> master_handle cx pdu c;
                  Some (Inr result, c, w)
                }
            }
          }
      })"

definition event :: "crypto \<Rightarrow> ccm_engine \<Rightarrow> conn \<Rightarrow> world \<Rightarrow> ((error + conn_event) \<times> conn \<times> world) option" where
  "event cx eng c w =
     (case event_begin c w of
        (Inl e, c, w) \<Rightarrow> Some (Inl e, c, w)
      | (Inr _, c, w) \<Rightarrow>
          if cn_role c = Master then do {
            w \<leftarrow> wait COMPARE0 (set_compare (cn_anchor c) w);
            event_master cx eng c w
          } else event_slave cx eng c w)"

section \<open>The invariant of a connection event\<close>

text \<open>The CCM engine works in place.\<close>

definition engine_ok :: "ccm_engine \<Rightarrow> bool" where
  "engine_ok eng \<longleftrightarrow> (\<forall>d cfg p. length (fst (eng d cfg p)) = length p)"

lemma tx_fragment_ok:
  assumes "tx_fragment c = Some (n, c')" and "conn_ok c"
  shows "conn_ok c'"
  using assms
  by (auto simp: tx_fragment_def Let_def bind_eq_Some_conv put_def slice_def conn_ok_lengths intro!: conn_ok_set
      dest!: copy_slice_length split: if_splits)

lemma ccm_process_effect:
  assumes "ccm_process eng d p m w = Some (ok, p', m', w')"
  shows "w_tasks w' = w_tasks w \<and> w_air w' = w_air w \<and> w_radio w' = w_radio w \<and> w_dma w' = w_dma w \<and> 2 \<le> length p \<and>
    ccm_cfg m' = take 29 (ccm_cfg m) @ take 2 p @ replicate 14 0 \<and> eng d (ccm_cfg m') p = (p', \<not> ok)"
proof -
  let ?cfg = "take 29 (ccm_cfg m) @ [p ! 0, p ! 1] @ replicate 14 0"
  have l: "2 \<le> length p" using assms by (auto simp: ccm_process_def get_def bind_eq_Some_conv split: if_splits)
  then have two: "take 2 p = [p ! 0, p ! 1]" by (cases p; cases "tl p") auto
  obtain w1 w2 where "wait ENDKSGEN w = Some w1" "wait ENDCRYPT w1 = Some w2"
    "w' = w2" "m' = m\<lparr>ccm_cfg := ?cfg\<rparr>" "eng d ?cfg p = (p', \<not> ok)"
    using assms l
    by (cases "eng d ?cfg p") (auto simp: ccm_process_def ccm_run_def Let_def bind_eq_Some_conv get_def split: if_splits)
  then show ?thesis using l by (auto simp: two dest!: wait_SomeD)
qed

text \<open>What sending changes: at most one packet goes on air, with the registers in force. On an
  encrypted link it is the engine's output under the session key, the packet counter and the
  direction of the role.\<close>

definition nonce_direction :: "conn_role \<Rightarrow> u8" where
  "nonce_direction r = (case r of Master \<Rightarrow> LL_NONCE_MASTER_TO_SLAVE | Slave \<Rightarrow> LL_NONCE_SLAVE_TO_MASTER)"

definition ccm_block :: "conn \<Rightarrow> u8 \<Rightarrow> bytes \<Rightarrow> bytes" where
  "ccm_block c dir buf = sm_stk (cn_smp c) @ [1] @ counter_bytes (cn_packet_counter c) @ [dir] @ replicate 6 0 @ take 2 buf @ replicate 14 0"

lemma conn_tx_effect:
  assumes "conn_tx eng n (c, w) = Some (c', w')" and "conn_ok c"
  shows "(\<exists>b m. c' = c\<lparr>cn_tx_buf := b, cn_ccm := m\<rparr>) \<and> w_radio w' = w_radio w \<and> w_dma w' = w_dma w \<and>
    (if cn_encrypted c
     then (case eng False (ccm_block c (nonce_direction (cn_role c)) (cn_tx_buf c)) (cn_tx_buf c) of (b, err) \<Rightarrow>
        if err then w_air w' = w_air w \<and> w_tasks w' = w_tasks w
        else w_air w' = w_air w @ [(w_radio w, take (n + 4) b)] \<and> w_tasks w' = w_tasks w @ [TXEN, START, DISABLE])
     else w_air w' = w_air w @ [(w_radio w, take n (cn_tx_buf c))] \<and> w_tasks w' = w_tasks w @ [TXEN, START, DISABLE])"
proof (cases "cn_encrypted c")
  case False
  with assms(1) show ?thesis
    by (auto simp: conn_tx_def bind_eq_Some_conv slice_def split: if_splits dest!: radio_transmit_effect)
      (rule exI [of _ "cn_tx_buf c"], rule exI [of _ "cn_ccm c"], simp)
next
  case True
  let ?m = "ccm_setup (sm_stk (cn_smp c)) (cn_packet_counter c) (nonce_direction (cn_role c)) (cn_ccm c)"
  obtain ok b m w1 where p: "ccm_process eng False (cn_tx_buf c) ?m w = Some (ok, b, m, w1)"
    using assms(1) True by (auto simp: conn_tx_def nonce_direction_def bind_eq_Some_conv Let_def)
  have "length (sm_stk (cn_smp c)) = 16" using conn_ok_lengths(10) [OF assms(2)] by (simp add: smp_wf_def)
  then have cfg: "take 29 (ccm_cfg ?m) @ take 2 (cn_tx_buf c) @ replicate 14 0 = ccm_block c (nonce_direction (cn_role c)) (cn_tx_buf c)"
    by (simp add: ccm_setup_def ccm_block_def counter_bytes_def)
  have e: "w_tasks w1 = w_tasks w" "w_air w1 = w_air w" "w_radio w1 = w_radio w" "w_dma w1 = w_dma w"
    "eng False (ccm_block c (nonce_direction (cn_role c)) (cn_tx_buf c)) (cn_tx_buf c) = (b, \<not> ok)"
    using ccm_process_effect [OF p] cfg by metis+
  have r: "conn_tx eng n (c, w) =
    (if ok then map_option (Pair (c\<lparr>cn_tx_buf := b, cn_ccm := m\<rparr>)) (Option.bind (slice b 0 (n + LL_MIC_LEN)) (\<lambda>q. radio_transmit q w1))
     else Some (c\<lparr>cn_tx_buf := b, cn_ccm := m\<rparr>, w1))"
    using True p by (simp add: conn_tx_def nonce_direction_def Let_def map_option_case split: bind_splits option.splits)
  show ?thesis
  proof (cases ok)
    case False
    then have "c' = c\<lparr>cn_tx_buf := b, cn_ccm := m\<rparr>" "w' = w1" using r assms(1) by simp_all
    moreover from this have "\<exists>b m. c' = c\<lparr>cn_tx_buf := b, cn_ccm := m\<rparr>" by blast
    ultimately show ?thesis using True False e by simp
  next
    case ok: True
    then obtain q where q: "slice b 0 (n + 4) = Some q" "radio_transmit q w1 = Some w'" "c' = c\<lparr>cn_tx_buf := b, cn_ccm := m\<rparr>"
      using assms(1) unfolding r by (auto simp: bind_eq_Some_conv LL_MIC_LEN_def)
    then have "q = take (n + 4) b" by (auto simp: slice_def split: if_splits)
    moreover from q have "\<exists>b m. c' = c\<lparr>cn_tx_buf := b, cn_ccm := m\<rparr>" by blast
    ultimately show ?thesis using True ok e radio_transmit_effect [OF q(2)] by simp
  qed
qed

text \<open>\<open>sends w w'\<close>: the radio is still configured as it was, every packet sent in between
  went out that way, and every packet received in between fits the 64-octet receive buffer.\<close>

definition sends :: "world \<Rightarrow> world \<Rightarrow> bool" where
  "sends w w' \<longleftrightarrow> w_radio w' = w_radio w \<and> (\<exists>ps. w_air w' = w_air w @ map (Pair (w_radio w)) ps) \<and>
     (\<exists>rs. w_dma w = rs @ w_dma w' \<and> (\<forall>r \<in> set rs. length r \<le> 64))"

lemma sends_refl: "w_radio w' = w_radio w \<Longrightarrow> w_air w' = w_air w \<Longrightarrow> w_dma w' = w_dma w \<Longrightarrow> sends w w'"
  by (auto simp: sends_def intro: exI [of _ "[]"])

lemma sends_one:
  "w_radio w' = w_radio w \<Longrightarrow> w_air w' = w_air w @ [(w_radio w, p)] \<Longrightarrow> w_dma w' = w_dma w \<Longrightarrow> sends w w'"
  by (auto simp: sends_def intro: exI [of _ "[p]"])

lemma sends_received:
  "w_radio w' = w_radio w \<Longrightarrow> w_air w' = w_air w \<Longrightarrow> w_dma w = r # w_dma w' \<Longrightarrow> length r \<le> 64 \<Longrightarrow> sends w w'"
  by (auto simp: sends_def intro: exI [of _ "[]"] exI [of _ "[r]"])

lemma sends_trans [trans]:
  assumes "sends a b" and "sends b c"
  shows "sends a c"
proof -
  from assms(1) obtain ps rs where a: "w_air b = w_air a @ map (Pair (w_radio a)) ps" "w_radio b = w_radio a"
    "w_dma a = rs @ w_dma b" "\<forall>r \<in> set rs. length r \<le> 64"
    by (auto simp: sends_def)
  from assms(2) obtain qs us where "w_air c = w_air b @ map (Pair (w_radio b)) qs" "w_radio c = w_radio b"
    "w_dma b = us @ w_dma c" "\<forall>r \<in> set us. length r \<le> 64"
    by (auto simp: sends_def)
  with a show ?thesis
    unfolding sends_def by (intro conjI exI [of _ "ps @ qs"] exI [of _ "rs @ us"]) auto
qed

lemma radio_off_cong: "w_tasks w' = w_tasks w \<Longrightarrow> radio_off w' = radio_off w"
  by (simp add: radio_off_def)

lemma radio_off_transmitted: "w_tasks w' = w_tasks w @ [TXEN, START, DISABLE] \<Longrightarrow> radio_off w \<Longrightarrow> radio_off w'"
  by (simp add: radio_off_def radio_after_append)

definition link_ok :: "conn \<Rightarrow> world \<Rightarrow> bool" where
  "link_ok c w \<longleftrightarrow> conn_ok c \<and> radio_off w"

lemma ccm_process_ok:
  assumes "ccm_process eng d p m w = Some (ok, p', m', w')" and "engine_ok eng" and "length (ccm_cfg m) = 45"
  shows "length p' = length p" "length (ccm_cfg m') = 45"
  using ccm_process_effect [OF assms(1)] assms(2,3) by (auto simp: engine_ok_def) (metis fst_conv)

lemma ccm_setup_ok: "conn_ok c \<Longrightarrow> length (ccm_cfg (ccm_setup (sm_stk (cn_smp c)) n d m)) = 45"
  by (drule conn_ok_lengths(10)) (simp add: ccm_setup_def smp_wf_def counter_bytes_def)

lemma conn_tx_ok:
  assumes "conn_tx eng n (c, w) = Some (c', w')" and "engine_ok eng" and "link_ok c w"
  shows "link_ok c' w' \<and> sends w w'"
proof -
  have c: "conn_ok c" using assms(3) by (simp add: link_ok_def)
  have "conn_ok c'"
  proof (cases "cn_encrypted c")
    case False
    with assms(1) c show ?thesis by (auto simp: conn_tx_def bind_eq_Some_conv)
  next
    case True
    let ?m = "ccm_setup (sm_stk (cn_smp c)) (cn_packet_counter c) (nonce_direction (cn_role c)) (cn_ccm c)"
    obtain ok b m w1 where p: "ccm_process eng False (cn_tx_buf c) ?m w = Some (ok, b, m, w1)" "c' = c\<lparr>cn_tx_buf := b, cn_ccm := m\<rparr>"
      using assms(1) True
      by (auto simp: conn_tx_def nonce_direction_def bind_eq_Some_conv Let_def split: if_splits)
    with ccm_process_ok [OF p(1) assms(2) ccm_setup_ok [OF c]] c show ?thesis
      by (simp add: conn_ok_set conn_ok_lengths)
  qed
  moreover have e: "w_radio w' = w_radio w" "w_dma w' = w_dma w"
    "w_air w' = w_air w \<and> w_tasks w' = w_tasks w \<or>
     (\<exists>p. w_air w' = w_air w @ [(w_radio w, p)]) \<and> w_tasks w' = w_tasks w @ [TXEN, START, DISABLE]"
    using conn_tx_effect [OF assms(1) c] by (simp, auto split: if_splits prod.splits)
  moreover have "sends w w'" using e sends_refl sends_one by metis
  moreover have "radio_off w'" using e(3) assms(3) radio_off_cong radio_off_transmitted unfolding link_ok_def by metis
  ultimately show ?thesis by (simp add: link_ok_def)
qed

lemma conn_rx_ok:
  assumes "conn_rx eng (c, w) = Some (ok, c', w')" and "engine_ok eng" and "conn_ok c"
  shows "conn_ok c' \<and> w_tasks w' = w_tasks w \<and> sends w w'"
proof (cases "cn_encrypted c")
  case False
  with assms show ?thesis by (simp add: conn_rx_def sends_refl)
next
  case True
  then obtain d m b where p: "ccm_process eng True (cn_rx_buf c) (ccm_setup (sm_stk (cn_smp c)) (cn_packet_counter c) d (cn_ccm c)) w = Some (ok, b, m, w')"
     "c' = c\<lparr>cn_rx_buf := b, cn_ccm := m\<rparr>"
    using assms(1) by (auto simp: conn_rx_def bind_eq_Some_conv Let_def)
  with ccm_process_ok [OF p(1) assms(2) ccm_setup_ok [OF assms(3)]] ccm_process_effect [OF p(1)] assms(3)
  show ?thesis by (simp add: conn_ok_set conn_ok_lengths sends_refl)
qed

lemma put_control_ok: "conn_ok c \<Longrightarrow> length p \<le> 62 \<Longrightarrow> conn_ok (put_control p c)"
  by (simp add: put_control_def conn_ok_set conn_ok_lengths)

lemma respond_ok:
  assumes "respond eng (c, w) = Some (c', w')" and "engine_ok eng" and "link_ok c w"
  shows "link_ok c' w' \<and> sends w w'"
proof (cases "cn_pending_control c")
  case (Some ctrl)
  have "link_ok (put_control (take 18 ctrl) (c\<lparr>cn_pending_control := None\<rparr>)) w"
    using assms(3) by (auto simp: link_ok_def intro!: put_control_ok conn_ok_set)
  with Some assms show ?thesis by (auto simp: respond_def Let_def dest: conn_tx_ok)
next
  case None
  show ?thesis
  proof (cases "cn_tx_pending c")
    case True
    then obtain n c1 where t: "tx_fragment c = Some (n, c1)" "conn_tx eng n (c1\<lparr>cn_sn := \<not> cn_sn c1\<rparr>, w) = Some (c', w')"
      using None assms(1) by (auto simp: respond_def bind_eq_Some_conv Let_def)
    show ?thesis
      using conn_tx_ok [OF t(2) assms(2)] tx_fragment_ok [OF t(1)] assms(3) by (simp add: link_ok_def)
  next
    case False
    have "link_ok (c\<lparr>cn_tx_buf := set_prefix (cn_tx_buf c) [ll_header LLID_DATA_COMPLETE c, 0]\<rparr>) w"
      using assms(3) by (simp add: link_ok_def conn_ok_set conn_ok_lengths)
    with None False assms show ?thesis by (auto simp: respond_def dest: conn_tx_ok)
  qed
qed

lemma radio_transmit_ok: "radio_transmit p w = Some w' \<Longrightarrow> radio_off w \<Longrightarrow> radio_off w' \<and> sends w w'"
  using radio_transmit_effect [of p w w'] radio_off_transmitted [of w' w] sends_one by auto

lemma handle_ll_control_ok:
  assumes "handle_ll_control eng payload (c, w) = Some (r, c', w')" and "engine_ok eng" and "link_ok c w"
  shows "link_ok c' w' \<and> sends w w'"
proof -
  have c: "conn_ok c" and w: "radio_off w" using assms(3) by (simp_all add: link_ok_def)
  have pc: "conn_ok ((put_control p c)\<lparr>cn_tx_buf := (cn_tx_buf (put_control p c))[1 := x]\<rparr>)"
    "conn_ok (put_control p c)" if "length p \<le> 62" for p x
    using put_control_ok [OF c that] by (simp_all add: conn_ok_set conn_ok_lengths)
  have rt: "sends w w'" "radio_off w'" if "radio_transmit p w = Some w'" for p w'
    using radio_transmit_ok [OF that w] by simp_all
  have tx: "conn_ok c'" "sends w w'" "radio_off w'" if "conn_tx eng n (d, w) = Some (c', w')" "conn_ok d" for n d c' w'
    using conn_tx_ok [OF that(1) assms(2)] that(2) w by (simp_all add: link_ok_def)
  have "sends w w" by (simp add: sends_refl)
  show ?thesis
    using assms(1) c w \<open>sends w w\<close> pc rt tx
    unfolding handle_ll_control_def link_ok_def Let_def
    by (auto simp: bind_eq_Some_conv LL_PDU_PAYLOAD_MAX_def intro!: conn_ok_set split: if_splits)
qed

lemma poll_loop_ok:
  assumes "poll_loop t buf w = Some (got, buf', w')" and "radio_running w" and "length buf = 64"
  shows "radio_off w' \<and> sends w w' \<and> length buf' = length buf"
  using assms
proof (induction t buf w arbitrary: buf' w' rule: poll_loop.induct)
  case (1 t buf w)
  obtain r b w1 where p: "receive_poll buf w = Some (r, b, w1)"
    using "1.prems"(1) by (cases "receive_poll buf w") (auto simp: poll_loop.simps [of t buf w])
  note off = radio_off_steps(4) [OF p "1.prems"(2)] and e = receive_poll_effect [OF p]
  have s: "sends w w1" "length b = length buf"
    using e "1.prems"(3) by (auto simp: sends_refl intro: sends_received split: if_splits)
  have cancel: "radio_off w'" "sends w0 w'" if "receive_cancel w0 = Some w'" "radio_off w0 \<or> radio_running w0" for w0 w'
    using radio_off_steps(3) [OF that] receive_cancel_effect [OF that(1)] by (simp_all add: sends_refl)
  show ?case
  proof (cases r)
    case (Inl err)
    with "1.prems" p off s show ?thesis
      using cancel(1) [of w1] cancel(2) [of w1] sends_trans [of w w1]
      by (auto simp: poll_loop.simps [of t buf w] bind_eq_Some_conv)
  next
    case (Inr x)
    show ?thesis
    proof (cases x)
      case (Some len)
      with Inr "1.prems" p off s show ?thesis by (auto simp: poll_loop.simps [of t buf w])
    next
      case None
      obtain v w2 where n: "timer_now w1 = Some (v, w2)"
        using "1.prems"(1) p Inr None by (cases "timer_now w1") (auto simp: poll_loop.simps [of t buf w])
      have w2: "radio_running w2" "sends w1 w2"
        using off Inr None timer_now_SomeD [OF n] by (auto simp: radio_running_def sends_refl)
      show ?thesis
      proof (cases "t \<le> v")
        case True
        with Inr None "1.prems"(1) p n have r: "receive_cancel w2 = Some w'" "buf' = b"
          by (auto simp: poll_loop.simps [of t buf w] bind_eq_Some_conv)
        have "sends w w'" using s(1) w2(2) cancel(2) [OF r(1)] w2(1) by (blast intro: sends_trans)
        with cancel(1) [OF r(1)] w2(1) s(2) r(2) show ?thesis by simp
      next
        case False
        with Inr None "1.prems" p n have "poll_loop t b w2 = Some (got, buf', w')"
          by (simp add: poll_loop.simps [of t buf w])
        with "1.IH" [OF p] False Inr None n w2 have "radio_off w' \<and> sends w2 w' \<and> length buf' = length b"
          using s(2) "1.prems"(3) by simp
        with s w2(2) show ?thesis by (metis sends_trans)
      qed
    qed
  qed
qed

lemma listen_ok:
  assumes "timer_now w = Some (t, w1)" and "receive_start (set_compare u w1) = Some w2"
    and "poll_loop u buf w2 = Some (got, buf', w3)" and "radio_off w" and "length buf = 64"
  shows "radio_off w3 \<and> sends w w3 \<and> length buf' = length buf"
proof -
  have w1: "w_tasks w1 = w_tasks w" "sends w (set_compare u w1)"
    using timer_now_SomeD [OF assms(1)] by (auto simp: set_compare_def sends_refl)
  have w2: "radio_running w2" "sends (set_compare u w1) w2"
    using radio_off_steps(2) [OF assms(2)] receive_start_effect [OF assms(2)] assms(4) w1(1)
    by (simp_all add: radio_off_def set_compare_def sends_refl)
  with poll_loop_ok [OF assms(3) _ assms(5)] w1(2) show ?thesis by (blast intro: sends_trans)
qed

lemma receive_cancel_ok: "receive_cancel w = Some w' \<Longrightarrow> radio_off w \<Longrightarrow> radio_off w' \<and> sends w w'"
  using receive_cancel_effect [of w w'] radio_off_steps(3) [of w w'] by (simp add: sends_refl)

lemma timer_now_ok: "timer_now w = Some (t, w') \<Longrightarrow> w_tasks w' = w_tasks w \<and> sends w w'"
  by (auto dest!: timer_now_SomeD simp: sends_refl)

lemma acknowledge_ok [simp]: "conn_ok (acknowledge pdu c) = conn_ok c"
  by (simp add: acknowledge_def)

lemma slave_handle_ok:
  assumes "slave_handle cx eng pdu ev (c, w) = Some (r, c', w')" and "engine_ok eng" and "crypto_ok cx" and "link_ok c w"
  shows "link_ok c' w' \<and> sends w w'"
proof -
  have a: "link_ok (acknowledge pdu c) w" using assms(4) by (simp add: link_ok_def)
  show ?thesis
    using assms(1,2,3,4) a
    by (auto simp: slave_handle_def Let_def bind_eq_Some_conv sends_refl split: if_splits
        dest!: handle_ll_control_ok [OF _ assms(2) a]) (auto simp: link_ok_def dest: handle_l2cap_ok)
qed

lemma received_ok:
  assumes "(do {
         (ok, c, w) \<leftarrow> conn_rx eng (c, w);
         if \<not> ok then do { w \<leftarrow> receive_cancel w; Some (x, c, w) }
         else f c w
       }) = Some (r, c', w')" and "engine_ok eng" and "link_ok c w"
    and "\<And>c1 w1. f c1 w1 = Some (r, c', w') \<Longrightarrow> link_ok c1 w1 \<Longrightarrow> link_ok c' w' \<and> sends w1 w'"
  shows "link_ok c' w' \<and> sends w w'"
proof -
  obtain ok c1 w1 where rx: "conn_rx eng (c, w) = Some (ok, c1, w1)"
    using assms(1) by (auto simp: bind_eq_Some_conv)
  have "link_ok c1 w1" "sends w w1"
    using conn_rx_ok [OF rx assms(2)] assms(3) radio_off_cong [of w1 w] by (simp_all add: link_ok_def)
  moreover from this have "link_ok c' w' \<and> sends w1 w'"
    using assms(1,4) rx by (auto simp: bind_eq_Some_conv link_ok_def split: if_splits dest: receive_cancel_ok)
  ultimately show ?thesis by (blast intro: sends_trans)
qed

lemma slave_receive_ok:
  assumes "slave_receive eng c w = Some (r, c', w')" and "engine_ok eng" and "link_ok c w"
  shows "link_ok c' w' \<and> sends w w'"
proof -
  obtain t w1 u w2 got buf w3 where l: "timer_now w = Some (t, w1)" "receive_start (set_compare u w1) = Some w2"
      "poll_loop u (cn_rx_buf c) w2 = Some (got, buf, w3)" "u = t + timeout_ticks 2000"
    using assms(1) by (auto simp: slave_receive_def bind_eq_Some_conv Let_def)
  have ok: "link_ok (c\<lparr>cn_rx_buf := buf\<rparr>) w3" "sends w w3"
    using listen_ok [OF l(1-3)] assms(3) by (simp_all add: link_ok_def conn_ok_set conn_ok_lengths)
  have "link_ok c' w' \<and> sends w3 w'"
  proof (cases got)
    case None
    with assms(1) l ok show ?thesis by (auto simp: slave_receive_def sends_refl)
  next
    case (Some len)
    show ?thesis
      by (rule received_ok [OF _ assms(2) ok(1), of None
            "\<lambda>c w. do { pkt \<leftarrow> slice (cn_rx_buf c) 0 len;
               Some (Some (case data_pdu_decode pkt of Inl _ \<Rightarrow> Inl InvalidPdu | Inr pdu \<Rightarrow> Inr pdu), c, w) }" r])
        (use assms(1) l Some in \<open>auto simp: slave_receive_def bind_eq_Some_conv sends_refl\<close>)
  qed
  with ok(2) show ?thesis by (blast intro: sends_trans)
qed

lemma slave_loop_ok:
  assumes "slave_loop cx eng handled ev c w = Some (x, c', w')" and "engine_ok eng" and "crypto_ok cx" and "link_ok c w"
  shows "link_ok c' w' \<and> sends w w'"
  using assms(1,4)
proof (induction "4 - handled" arbitrary: handled ev c w rule: less_induct)
  case less
  obtain got c1 w1 where g: "slave_receive eng c w = Some (got, c1, w1)"
    using less.prems(1) by (subst (asm) slave_loop.simps) (auto simp: bind_eq_Some_conv)
  have l1: "link_ok c1 w1" "sends w w1" using slave_receive_ok [OF g assms(2) less.prems(2)] by simp_all
  consider "got = None" | e where "got = Some (Inl e)" | pdu where "got = Some (Inr pdu)"
    by (cases got; cases "the got") auto
  then have "link_ok c' w' \<and> sends w1 w'"
  proof cases
    case (3 pdu)
    obtain t w2 r c3 w3 where n: "timer_now w1 = Some (t, w2)"
        "slave_handle cx eng pdu ev (c1\<lparr>cn_last_rx := t\<rparr>, w2) = Some (r, c3, w3)"
      using less.prems(1) g 3 by (subst (asm) slave_loop.simps) (auto simp: bind_eq_Some_conv)
    have "link_ok (c1\<lparr>cn_last_rx := t\<rparr>) w2" "sends w1 w2"
      using timer_now_ok [OF n(1)] l1(1) radio_off_cong [of w2 w1] by (simp_all add: link_ok_def)
    with slave_handle_ok [OF n(2) assms(2,3)] have l3: "link_ok c3 w3" "sends w1 w3" by (auto intro: sends_trans)
    have "link_ok c' w' \<and> sends w3 w'"
    proof (cases "\<exists>res. r = Inr res \<and> dp_md pdu \<and> handled + 1 < 4")
      case True
      then obtain res where r: "r = Inr res" "dp_md pdu" "handled + 1 < 4" by blast
      with less.prems(1) g 3 n have "slave_loop cx eng (handled + 1) res c3 w3 = Some (x, c', w')"
        by (subst (asm) slave_loop.simps) simp
      then show ?thesis using less.hyps [of "handled + 1" res c3 w3] r(3) l3(1) by simp
    next
      case False
      with less.prems(1) g 3 n l3(1) show ?thesis
        by (subst (asm) slave_loop.simps) (auto simp: sends_refl split: sum.splits if_splits)
    qed
    with l3(2) show ?thesis by (blast intro: sends_trans)
  qed (use less.prems(1) g l1(1) in \<open>(subst (asm) slave_loop.simps, simp add: sends_refl)+\<close>)
  with l1(2) show ?case by (blast intro: sends_trans)
qed

lemma terminate_pdu_ok: "conn_ok c \<Longrightarrow> conn_ok (terminate_pdu c)"
  by (simp add: terminate_pdu_def put_control_ok)

lemma event_slave_ok:
  assumes "event_slave cx eng c w = Some (r, c', w')" and "engine_ok eng" and "crypto_ok cx" and "link_ok c w"
  shows "link_ok c' w' \<and> sends w w'"
proof -
  obtain x c1 w1 where l: "slave_loop cx eng 0 EvIdle c w = Some (x, c1, w1)"
    using assms(1) by (auto simp: event_slave_def bind_eq_Some_conv)
  have ok: "link_ok c1 w1" "sends w w1" using slave_loop_ok [OF l assms(2-4)] by simp_all
  have tr: "link_ok (terminate_pdu c1) w2 \<and> sends w1 w2" if "radio_transmit p w1 = Some w2" for p w2
    using radio_transmit_ok [OF that] ok(1) by (simp add: link_ok_def terminate_pdu_ok)
  have re: "link_ok c2 w2 \<and> sends w1 w2" if "respond eng (c1, w1) = Some (c2, w2)" for c2 w2
    using respond_ok [OF that assms(2) ok(1)] .
  have "link_ok c' w' \<and> sends w1 w'"
  proof (cases x)
    case (Return y)
    with assms(1) l ok(1) show ?thesis by (simp add: event_slave_def sends_refl)
  next
    case (Break received result)
    with assms(1) l ok(1) tr re show ?thesis
      by (auto simp: event_slave_def sends_refl bind_eq_Some_conv Let_def split: if_splits)
  qed
  with ok(2) show ?thesis by (blast intro: sends_trans)
qed

lemma master_handle_ok: "master_handle cx pdu c = Some (ev, c') \<Longrightarrow> crypto_ok cx \<Longrightarrow> conn_ok c \<Longrightarrow> conn_ok c'"
  by (auto simp: master_handle_def Let_def bind_eq_Some_conv split: if_splits dest: handle_l2cap_ok)

lemma event_master_ok:
  assumes "event_master cx eng c w = Some (r, c', w')" and "engine_ok eng" and "crypto_ok cx" and "link_ok c w"
  shows "link_ok c' w' \<and> sends w w'"
proof (cases "cn_terminate_pending c")
  case True
  with assms(1,4) show ?thesis
    by (auto simp: event_master_def bind_eq_Some_conv link_ok_def terminate_pdu_ok Let_def dest: radio_transmit_ok)
next
  case False
  obtain c0 w0 t w1 u w2 got buf w3 where l: "respond eng (c, w) = Some (c0, w0)" "timer_now w0 = Some (t, w1)"
      "receive_start (set_compare u w1) = Some w2" "poll_loop u (cn_rx_buf c0) w2 = Some (got, buf, w3)"
      "u = t + timeout_ticks 2000"
    using assms(1) False by (auto simp: event_master_def bind_eq_Some_conv Let_def)
  have ok0: "link_ok c0 w0" "sends w w0" using respond_ok [OF l(1) assms(2,4)] by simp_all
  then have ok: "link_ok (c0\<lparr>cn_rx_buf := buf\<rparr>) w3" "sends w w3"
    using listen_ok [OF l(2-4)] by (auto simp: link_ok_def conn_ok_set conn_ok_lengths intro: sends_trans)
  have "link_ok c' w' \<and> sends w3 w'"
  proof (cases got)
    case None
    with False assms(1) l ok show ?thesis by (auto simp: event_master_def sends_refl)
  next
    case (Some len)
    define f where "f = (\<lambda>c w. do {
              (t, w) \<leftarrow> timer_now w;
              let c = c\<lparr>cn_last_rx := t\<rparr>;
              pkt \<leftarrow> slice (cn_rx_buf c) 0 len;
              case data_pdu_decode pkt of
                Inl _ \<Rightarrow> Some (Inr EvIdle :: error + conn_event, c, w)
              | Inr pdu \<Rightarrow> do {
                  (result, c) \<leftarrow> master_handle cx pdu c;
                  Some (Inr result, c, w)
                }
            })"
    have "(do { (ok, c, w) \<leftarrow> conn_rx eng (c0\<lparr>cn_rx_buf := buf\<rparr>, w3);
           if \<not> ok then do { w \<leftarrow> receive_cancel w; Some (Inr EvIdle, c, w) } else f c w }) = Some (r, c', w')"
      using False assms(1) l Some unfolding f_def by (simp add: event_master_def)
    then show ?thesis
    proof (rule received_ok [OF _ assms(2) ok(1)])
      fix c1 w1
      assume f: "f c1 w1 = Some (r, c', w')" and ok1: "link_ok c1 w1"
      obtain t w4 where n: "timer_now w1 = Some (t, w4)" using f by (auto simp: f_def bind_eq_Some_conv)
      have "link_ok (c1\<lparr>cn_last_rx := t\<rparr>) w4" "sends w1 w4"
        using timer_now_ok [OF n] ok1 radio_off_cong [of w4 w1] by (simp_all add: link_ok_def)
      moreover obtain pkt where "slice (cn_rx_buf c1) 0 len = Some pkt"
        using f n by (auto simp: f_def Let_def bind_eq_Some_conv)
      ultimately show "link_ok c' w' \<and> sends w1 w'"
        using f n by (cases "data_pdu_decode pkt")
          (auto simp: f_def Let_def bind_eq_Some_conv link_ok_def dest: master_handle_ok [OF _ assms(3)])
    qed
  qed
  with ok(2) show ?thesis by (blast intro: sends_trans)
qed

section \<open>The schedule\<close>

lemma next_channel_loop_data: "ch < 37 \<Longrightarrow> next_channel_loop n m ch < 37"
  by (induction n arbitrary: ch) (auto simp: word_less_nat_alt unat_mod)

lemma next_channel_data: "next_channel cur hop m < 37"
  unfolding next_channel_def by (rule next_channel_loop_data) (simp add: word_less_nat_alt unat_mod)

text \<open>The connection parameters in force for the next event: a pending update is adopted at its
  instant.\<close>

definition due_update :: "conn \<Rightarrow> (u16 \<times> u16) option" where
  "due_update c = (if cn_event_counter c + 1 = cn_pending_update_instant c then cn_pending_update c else None)"

lemma event_begin_effect:
  obtains c1 w1 where "event_begin c w = (Inr (), c1, w1)"
    "cn_event_counter c1 = cn_event_counter c + 1"
    "cn_channel c1 = next_channel (cn_channel c) (cn_hop c) (cn_channel_map c)"
    "conn_ok c1 = conn_ok c" "cn_role c1 = cn_role c"
    "w_tasks w1 = w_tasks w" "w_air w1 = w_air w" "w_dma w1 = w_dma w"
    "on_air_address (w_radio w1) = cn_access_addr c" "rg_crcinit (w_radio w1) = cn_crc_init c"
    "rg_datawhiteiv (w_radio w1) = whitening_init (cn_channel c1)"
    "channel_frequency (cn_channel c1) = Inr (2400 + ucast (rg_frequency (w_radio w1)))"
proof -
  let ?ch = "next_channel (cn_channel c) (cn_hop c) (cn_channel_map c)"
  have "?ch < 40" using next_channel_data [of "cn_channel c" "cn_hop c" "cn_channel_map c"] by (simp add: word_less_nat_alt)
  then obtain f where f: "channel_frequency ?ch = Inr f" "2400 + ucast (ucast (f - 2400) :: u8) = f"
    using channel_frequency_offset by blast
  show ?thesis
  proof (rule that)
    show "event_begin c w = (Inr (), fst (snd (event_begin c w)), snd (snd (event_begin c w)))"
      using f by (simp add: event_begin_def Let_def set_channel_def split: prod.split option.split)
  qed (use f base_prefix_spells [of "cn_access_addr c"] in \<open>simp_all add: event_begin_def Let_def set_channel_def set_radio_def set_crc_init_def set_access_address_def
        on_air_address_def whitening_init_def split: prod.split option.split\<close>)
qed

lemma event_ok:
  assumes "event cx eng c w = Some (r, c', w')" and "link_ok c w" and "engine_ok eng" and "crypto_ok cx"
    and "event_begin c w = (Inr (), c0, w1)" and "conn_ok c0" and "w_tasks w1 = w_tasks w"
  shows "link_ok c' w' \<and> sends w1 w'"
proof (cases "cn_role c0 = Master")
  case True
  with assms(1,5) obtain w2 where m: "wait COMPARE0 (set_compare (cn_anchor c0) w1) = Some w2"
      "event_master cx eng c0 w2 = Some (r, c', w')"
    by (auto simp: event_def bind_eq_Some_conv)
  then have w2: "w_tasks w2 = w_tasks w" "sends w1 w2"
    using wait_SomeD [OF m(1)] assms(7) by (auto simp: set_compare_def sends_refl)
  then have "link_ok c0 w2" using assms(2,6) radio_off_cong [of w2 w] by (simp add: link_ok_def)
  with event_master_ok [OF m(2) assms(3,4)] w2(2) show ?thesis by (blast intro: sends_trans)
next
  case False
  have "link_ok c0 w1" using assms(2,6,7) radio_off_cong [of w1 w] by (simp add: link_ok_def)
  with event_slave_ok [OF _ assms(3,4)] False assms(1,5) show ?thesis by (simp add: event_def)
qed

section \<open>Properties\<close>

text \<open>C1. A connection event that completes, without a panic and without a packet that overruns
  the receive buffer, keeps the connection well formed and the radio under control, whatever the
  peer sends and whichever way it returns: every stored length is within its buffer again; the
  radio has only been given tasks that its state accepts and is disabled at the end; every packet
  the event has put on air went out with the connection's access address and CRC start value, on
  the frequency and with the whitening of the channel that the hop gives; and every packet it has
  received has at most the 64 octets of \<open>rx_buf\<close>. The last is not the code's merit: the radio is
  set up for 255 octets, and an event that receives a longer packet overruns the buffer and is
  not covered.\<close>

theorem event_keeps_link:
  assumes "event cx eng c w = Some (r, c', w')" and "conn_ok c" and "radio_off w" and "engine_ok eng" and "crypto_ok cx"
  shows "conn_ok c' \<and> radio_off w' \<and>
    (\<exists>sent. w_air w' = w_air w @ sent \<and>
      (\<forall>(rg, p) \<in> set sent. on_air_address rg = cn_access_addr c \<and> rg_crcinit rg = cn_crc_init c \<and>
         (let ch = next_channel (cn_channel c) (cn_hop c) (cn_channel_map c) in
          rg_datawhiteiv rg = whitening_init ch \<and> channel_frequency ch = Inr (2400 + ucast (rg_frequency rg))))) \<and>
    (\<exists>received. w_dma w = received @ w_dma w' \<and> (\<forall>p \<in> set received. length p \<le> 64))"
proof -
  obtain c1 w1 where b: "event_begin c w = (Inr (), c1, w1)" "conn_ok c1" "w_tasks w1 = w_tasks w" "w_air w1 = w_air w"
      "w_dma w1 = w_dma w" "cn_channel c1 = next_channel (cn_channel c) (cn_hop c) (cn_channel_map c)"
      "on_air_address (w_radio w1) = cn_access_addr c" "rg_crcinit (w_radio w1) = cn_crc_init c"
      "rg_datawhiteiv (w_radio w1) = whitening_init (cn_channel c1)"
      "channel_frequency (cn_channel c1) = Inr (2400 + ucast (rg_frequency (w_radio w1)))"
    using event_begin_effect [of c w] assms(2) by metis
  have l: "link_ok c w" using assms(2,3) by (simp add: link_ok_def)
  have "link_ok c' w'" "sends w1 w'" using event_ok [OF assms(1) l assms(4,5) b(1-3)] by simp_all
  then obtain ps where "w_air w' = w_air w @ map (Pair (w_radio w1)) ps"
      "\<exists>rs. w_dma w = rs @ w_dma w' \<and> (\<forall>r \<in> set rs. length r \<le> 64)"
    using b(4,5) by (auto simp: sends_def)
  with \<open>link_ok c' w'\<close> b(6-) show ?thesis
    unfolding link_ok_def Let_def by (intro conjI exI [of _ "map (Pair (w_radio w1)) ps"]) auto
qed

text \<open>The first poll that finds a packet above 64 octets has no result.\<close>

lemma receive_poll_overrun:
  assumes "w_dma w = p # ps" and "length buf < length p" and "read_flag END w = Some (e, w')" and "e \<noteq> 0"
  shows "receive_poll buf w = None"
  using assms by (auto simp: receive_poll_def dest!: read_flag_SomeD)

definition example_engine :: ccm_engine where
  "example_engine d cfg p = (p, False)"

lemma example_engine_ok: "engine_ok example_engine"
  by (simp add: engine_ok_def example_engine_def)

theorem event_keeps_link_witness:
  "\<exists>r c' w'. event example_crypto example_engine (example_conn Slave) (example_world [0, 5] [[1, 0]]) = Some (r, c', w') \<and>
     conn_ok c' \<and> radio_off w'"
proof -
  have "event example_crypto example_engine (example_conn Slave) (example_world [0, 5] [[1, 0]]) \<noteq> None" by code_simp
  then obtain r c' w' where e: "event example_crypto example_engine (example_conn Slave) (example_world [0, 5] [[1, 0]]) = Some (r, c', w')"
    by auto
  have "radio_off (example_world [0, 5] [[1, 0]])" by (simp add: radio_off_def example_world_def)
  from event_keeps_link [OF e example_conn_ok this example_engine_ok example_crypto_ok] e show ?thesis by blast
qed

end
