(* ===== verification/Conn_Control.thy ===== *)
theory Conn_Control
  imports Conn_Link
begin

text \<open>
  The control procedures of \<^verbatim>\<open>src/hw/conn.rs\<close>: how \<open>handle_ll_control\<close> and \<open>respond\<close> answer a
  request, and what an encrypted link puts on air.
\<close>

section \<open>Answers to control requests\<close>

lemma put_control_buf:
  "conn_ok c \<Longrightarrow> length p \<le> 62 \<Longrightarrow>
    cn_tx_buf (put_control p c) = [ll_header LLID_CONTROL c, of_nat (length p)] @ p @ drop (2 + length p) (cn_tx_buf c)"
  by (simp add: put_control_def set_prefix_def)

text \<open>The response that a control PDU leaves for \<open>respond\<close>, if any: its opcode and parameters.\<close>

definition control_response :: "bytes \<Rightarrow> bytes option" where
  "control_response p =
     (let op = p ! 0 in
      if op = LL_CONTROL_ENCRYPT_REQ then Some [LL_CONTROL_ENCRYPT_RSP]
      else if op = LL_CONTROL_ENCRYPT_RSP then Some [LL_CONTROL_START_ENC_REQ]
      else if op = LL_CONTROL_LENGTH_REQ then Some [LL_CONTROL_LENGTH_RSP, 251, 0, 0x48, 0x08, 251, 0, 0x48, 0x08]
      else if op = LL_CONTROL_PING_REQ then Some [LL_CONTROL_PING_RSP]
      else if op = LL_CONTROL_PHY_REQ then Some [LL_CONTROL_PHY_RSP, 0, 1, 1, 1]
      else if op \<in> {LL_CONTROL_TERMINATE_IND, LL_CONTROL_VERSION_IND, LL_CONTROL_FEATURE_REQ, LL_CONTROL_FEATURE_RSP,
          LL_CONTROL_START_ENC_REQ, LL_CONTROL_START_ENC_RSP, LL_CONTROL_LENGTH_RSP, LL_CONTROL_CONNECTION_UPDATE_REQ}
        then None
      else Some [LL_CONTROL_UNKNOWN_RSP, op])"

lemma le16_consts: "le16 251 = [251, 0]" "le16 2120 = [0x48, 0x08]"
  by (simp_all add: le16_def)

text \<open>What the encryption of a packet depends on.\<close>

definition same_session :: "conn \<Rightarrow> conn \<Rightarrow> bool" where
  "same_session d c \<longleftrightarrow> cn_encrypted d = cn_encrypted c \<and> cn_role d = cn_role c \<and> cn_smp d = cn_smp c \<and>
     cn_packet_counter d = cn_packet_counter c"

lemma handle_ll_control_response:
  assumes "p \<noteq> []" and "control_response p = Some rsp" and "p ! 0 = LL_CONTROL_LENGTH_REQ \<longrightarrow> 7 \<le> length p"
  shows "\<exists>c'. handle_ll_control eng p (c, w) = Some (Inr (), c', w) \<and>
    cn_pending_control c' = Some (rsp @ replicate (19 - length rsp) 0) \<and> length rsp \<le> 9 \<and>
    cn_tx_buf c' = cn_tx_buf c \<and> same_session c' c \<and> (conn_ok c \<longrightarrow> conn_ok c') \<and> cn_sn c' = cn_sn c \<and> cn_nesn c' = cn_nesn c"
proof -
  let ?op = "p ! 0"
  consider "?op = LL_CONTROL_ENCRYPT_REQ" | "?op = LL_CONTROL_ENCRYPT_RSP" | "?op = LL_CONTROL_LENGTH_REQ"
    | "?op = LL_CONTROL_PING_REQ" | "?op = LL_CONTROL_PHY_REQ"
    | "?op \<notin> {LL_CONTROL_ENCRYPT_REQ, LL_CONTROL_ENCRYPT_RSP, LL_CONTROL_LENGTH_REQ, LL_CONTROL_PING_REQ, LL_CONTROL_PHY_REQ}"
    by blast
  then show ?thesis
  proof cases
    case 3
    with assms(3) obtain x y where "get_le16 p 1 = Some x" "get_le16 p 5 = Some y" by simp
    with 3 assms show ?thesis
      by (auto simp: handle_ll_control_def control_response_def Let_def ll_opcodes LL_PDU_PAYLOAD_MAX_def le16_consts same_session_def
          intro!: conn_ok_set)
  next
    case 6
    with assms show ?thesis
      by (auto simp: handle_ll_control_def control_response_def Let_def same_session_def intro!: conn_ok_set split: if_splits)
  qed (use assms in \<open>auto simp: handle_ll_control_def control_response_def Let_def ll_opcodes same_session_def intro!: conn_ok_set\<close>)
qed

section \<open>Packets of a session\<close>

text \<open>Sending returns when the script answers every busy-wait.\<close>

lemma conn_tx_total:
  assumes "conn_ok c" and "engine_ok eng" and "n \<le> 60"
    and "\<And>f. f \<in> {READY, END, DISABLED, ENDKSGEN, ENDCRYPT} \<Longrightarrow> 0 < answers f w"
  shows "\<exists>c' w'. conn_tx eng n (c, w) = Some (c', w')"
proof (cases "cn_encrypted c")
  case False
  obtain w' where "radio_transmit (take n (cn_tx_buf c)) w = Some w'"
    using radio_transmit_total [OF assms(4) assms(4) assms(4), of "take n (cn_tx_buf c)"] by auto
  with False show ?thesis using assms(3) conn_ok_lengths(8) [OF assms(1)] by (simp add: conn_tx_def slice_def)
next
  case True
  obtain w1 where w1: "wait ENDKSGEN w = Some w1" "\<And>g. answers g w1 = answers g w - of_bool (g = ENDKSGEN)"
    using wait_total [of ENDKSGEN w] assms(4) [of ENDKSGEN] by auto
  obtain w2 where w2: "wait ENDCRYPT w1 = Some w2" "\<And>g. answers g w2 = answers g w1 - of_bool (g = ENDCRYPT)"
    using wait_total [of ENDCRYPT w1] assms(4) [of ENDCRYPT] w1(2) by auto
  let ?b = "cn_tx_buf c"
  let ?m = "ccm_setup (sm_stk (cn_smp c)) (cn_packet_counter c) (nonce_direction (cn_role c)) (cn_ccm c)"
  let ?m' = "?m\<lparr>ccm_cfg := take 29 (ccm_cfg ?m) @ [?b ! 0, ?b ! 1] @ replicate 14 0\<rparr>"
  obtain out err where e: "eng False (ccm_cfg ?m') ?b = (out, err)" by fastforce
  have l: "length ?b = 64" using assms(1) by (rule conn_ok_lengths)
  moreover have "length out = 64" using assms(2) e l unfolding engine_ok_def by (metis fst_conv)
  moreover obtain w' where "radio_transmit (take (n + 4) out) w2 = Some w'"
    using radio_transmit_total [of w2 "take (n + 4) out"] assms(4) [of READY] assms(4) [of END] assms(4) [of DISABLED] w1(2) w2(2)
    by auto
  moreover have "ccm_process eng False ?b ?m w = Some (\<not> err, out, ?m', w2)"
    using l e w1(1) w2(1) by (simp add: ccm_process_def ccm_run_def get_def Let_def)
  ultimately show ?thesis
    using True assms(3) by (cases err) (simp_all add: conn_tx_def nonce_direction_def slice_def LL_MIC_LEN_def Let_def)
qed

lemma respond_sends:
  assumes "respond eng (c, w) = Some (c', w')" and "conn_ok c"
  shows "\<exists>n d. conn_tx eng n (d, w) = Some (c', w') \<and> conn_ok d \<and> same_session d c"
proof (cases "cn_pending_control c")
  case (Some ctrl)
  let ?d = "put_control (take 18 ctrl) (c\<lparr>cn_pending_control := None\<rparr>)"
  have "conn_ok ?d" using assms(2) by (auto intro!: put_control_ok conn_ok_set)
  with Some assms(1) show ?thesis
    by (intro exI [of _ 20] exI [of _ ?d]) (simp add: respond_def Let_def same_session_def put_control_def)
next
  case None
  show ?thesis
  proof (cases "cn_tx_pending c")
    case True
    then obtain n c1 where t: "tx_fragment c = Some (n, c1)" "conn_tx eng n (c1\<lparr>cn_sn := \<not> cn_sn c1\<rparr>, w) = Some (c', w')"
      using None assms(1) by (auto simp: respond_def bind_eq_Some_conv Let_def)
    have "same_session c1 c" using t(1) by (auto simp: tx_fragment_def Let_def bind_eq_Some_conv same_session_def split: if_splits)
    with t tx_fragment_ok [OF t(1) assms(2)] show ?thesis
      by (intro exI [of _ n] exI [of _ "c1\<lparr>cn_sn := \<not> cn_sn c1\<rparr>"]) (simp add: same_session_def)
  next
    case False
    let ?d = "c\<lparr>cn_tx_buf := set_prefix (cn_tx_buf c) [ll_header LLID_DATA_COMPLETE c, 0]\<rparr>"
    have "conn_ok ?d" using assms(2) by (simp add: conn_ok_set conn_ok_lengths)
    with None False assms(1) show ?thesis
      by (intro exI [of _ 2] exI [of _ ?d]) (simp add: respond_def same_session_def)
  qed
qed

section \<open>Properties\<close>



text \<open>C9. What an encrypted link puts on air: a packet sent by \<open>respond\<close> is a prefix of what the
  CCM engine makes of the transmit buffer, run with the session key, the packet counter and
  the direction of the role, and nothing is sent when the engine reports an error; whereas
  the answers to \<open>VERSION_IND\<close> and \<open>FEATURE_REQ\<close> leave the radio unencrypted even then.\<close>

theorem encrypted_link_on_air:
  assumes "conn_ok c" and "cn_encrypted c"
  shows "(respond eng (c, w) = Some (c', w') \<longrightarrow>
      (\<exists>buf n. length buf = 64 \<and> (case eng False (ccm_block c (nonce_direction (cn_role c)) buf) buf of (out, err) \<Rightarrow>
        w_air w' = w_air w @ (if err then [] else [(w_radio w, take n out)])))) \<and>
    (handle_ll_control eng [LL_CONTROL_VERSION_IND] (c, w) = Some (x, c', w') \<longrightarrow>
      w_air w' = w_air w @ [(w_radio w, [ll_header LLID_CONTROL c, 4, LL_CONTROL_VERSION_IND, 0x0C, 0xFF, 0xFF, 0, 0])]) \<and>
    (handle_ll_control eng [LL_CONTROL_FEATURE_REQ] (c, w) = Some (y, c', w') \<longrightarrow>
      w_air w' = w_air w @ [(w_radio w, [ll_header LLID_CONTROL c, 9, LL_CONTROL_FEATURE_RSP] @ replicate 8 0)])"
proof (intro conjI impI)
  assume r: "respond eng (c, w) = Some (c', w')"
  obtain n d where d: "conn_tx eng n (d, w) = Some (c', w')" "conn_ok d" "same_session d c"
    using respond_sends [OF r assms(1)] by blast
  show "\<exists>buf n. length buf = 64 \<and> (case eng False (ccm_block c (nonce_direction (cn_role c)) buf) buf of (out, err) \<Rightarrow>
        w_air w' = w_air w @ (if err then [] else [(w_radio w, take n out)]))"
    using conn_tx_effect [OF d(1,2)] d(3) assms(2) conn_ok_lengths(8) [OF d(2)]
    by (intro exI [of _ "cn_tx_buf d"] exI [of _ "n + 4"])
      (auto simp: same_session_def ccm_block_def split: prod.splits if_splits)
next
  assume "handle_ll_control eng [LL_CONTROL_VERSION_IND] (c, w) = Some (x, c', w')"
  then show "w_air w' = w_air w @ [(w_radio w, [ll_header LLID_CONTROL c, 4, LL_CONTROL_VERSION_IND, 0x0C, 0xFF, 0xFF, 0, 0])]"
    by (auto simp: handle_ll_control_def ll_opcodes put_control_def set_prefix_def bind_eq_Some_conv Let_def dest!: radio_transmit_effect)
next
  assume "handle_ll_control eng [LL_CONTROL_FEATURE_REQ] (c, w) = Some (y, c', w')"
  then show "w_air w' = w_air w @ [(w_radio w, [ll_header LLID_CONTROL c, 9, LL_CONTROL_FEATURE_RSP] @ replicate 8 0)]"
    by (auto simp: handle_ll_control_def ll_opcodes put_control_def set_prefix_def bind_eq_Some_conv Let_def dest!: radio_transmit_effect)
qed

theorem encrypted_link_on_air_witness:
  "\<exists>c' w' buf n. respond example_engine ((example_conn Slave)\<lparr>cn_encrypted := True\<rparr>, example_world [] []) = Some (c', w') \<and>
     (case example_engine False (ccm_block ((example_conn Slave)\<lparr>cn_encrypted := True\<rparr>) 0 buf) buf of (out, err) \<Rightarrow>
        w_air w' = w_air (example_world [] []) @ (if err then [] else [(example_regs, take n out)]))"
proof -
  let ?c = "(example_conn Slave)\<lparr>cn_encrypted := True\<rparr>" and ?w = "example_world [] []"
  have "respond example_engine (?c, ?w) \<noteq> None" by code_simp
  then obtain c' w' where r: "respond example_engine (?c, ?w) = Some (c', w')" by auto
  have ok: "conn_ok ?c" "cn_encrypted ?c" by (simp_all add: example_conn_ok)
  have "nonce_direction (cn_role ?c) = 0" "w_radio ?w = example_regs"
    by (simp_all add: example_conn_def conn_new_def nonce_direction_def LL_NONCE_SLAVE_TO_MASTER_def example_world_def)
  then obtain buf n where "case example_engine False (ccm_block ?c 0 buf) buf of (out, err) \<Rightarrow>
      w_air w' = w_air ?w @ (if err then [] else [(example_regs, take n out)])"
    using encrypted_link_on_air [OF ok, THEN conjunct1, rule_format, OF r] by metis
  with r show ?thesis by (intro exI [of _ c'] exI [of _ w'] exI [of _ buf] exI [of _ n]) simp
qed

end
