(* ===== verification/Conn_Reception.thy ===== *)
theory Conn_Reception
  imports Conn_Link
begin

text \<open>
  What a connection event can report: the length that \<open>receive_poll\<close> of \<^verbatim>\<open>src/hw/radio.rs\<close>
  gives a packet against the length that \<open>DataPdu::decode\<close> of \<^verbatim>\<open>src/ll/pdu.rs\<close> expects, and what
  follows for \<open>Conn::event\<close> of \<^verbatim>\<open>src/hw/conn.rs\<close>.
\<close>

section \<open>Only empty packets decode\<close>

text \<open>The length field that \<open>receive_poll\<close> reads against the one that \<open>DataPdu::decode\<close> reads.\<close>

lemma length_fields_agree:
  fixes b :: u8
  assumes "drop_bit 1 b AND 0x3F = b AND 0x3F"
  shows "b AND 0x7F = 0 \<or> unat (drop_bit 1 b AND 0x3F) = 63"
proof -
  have eq: "bit b (Suc n) = bit b n" if "n < 6" for n
  proof -
    have "bit (drop_bit 1 b AND 0x3F) n = bit (b AND 0x3F) n" using assms by simp
    then show ?thesis using that by (simp add: and_3F bit_simps)
  qed
  have all: "bit b n = bit b 0" if "n < 7" for n
    using that by (induction n) (use eq in auto)
  have m7: "w AND 0x7F = take_bit 7 w" for w :: u8 by (simp add: take_bit_eq_mask mask_eq_exp_minus_1)
  show ?thesis
  proof (cases "bit b 0")
    case False
    with all have "take_bit 7 b = 0" by (intro bit_word_eqI) (auto simp: bit_simps)
    then show ?thesis by (simp add: m7)
  next
    case True
    have "drop_bit 1 b AND 0x3F = 63"
    proof (rule bit_word_eqI)
      fix n
      assume "n < LENGTH(8)"
      have "bit (63::u8) n = (n < 6)" using bit_mask_iff [where ?'a = "8 word", of 6 n] \<open>n < LENGTH(8)\<close> by (auto simp: mask_eq_exp_minus_1)
      with all [of "Suc n"] True show "bit (drop_bit 1 b AND 0x3F) n = bit (63::u8) n" by (auto simp: and_3F bit_simps)
    qed
    then show ?thesis by simp
  qed
qed

lemma polled_length:
  assumes "poll_loop t buf w = Some (got, buf', w')"
  shows "length buf' = length buf \<and> (\<forall>n. got = Some n \<longrightarrow> n = 2 + unat (drop_bit 1 (buf' ! 1) AND 0x3F))"
  using assms
proof (induction t buf w rule: poll_loop.induct)
  case (1 t buf w)
  from "1.prems" [unfolded poll_loop.simps [of t buf w]] "1.IH" show ?case
    by (auto split: option.splits sum.splits if_splits simp: bind_eq_Some_conv dest!: receive_poll_effect)
qed

lemma only_empty_decodes:
  assumes "poll_loop t buf w = Some (Some n, buf', w')" and "length buf = 64"
    and "slice buf' 0 n = Some pkt" and "data_pdu_decode pkt = Inr pdu"
  shows "dp_payload pdu = []"
proof -
  have n: "n = 2 + unat (drop_bit 1 (buf' ! 1) AND 0x3F)" and l: "length buf' = 64"
    using polled_length [OF assms(1)] assms(2) by auto
  then have pkt: "pkt = take n buf'" "n \<le> 64" using assms(3) by (auto simp: slice_def split: if_splits)
  with n have "pkt ! 1 = buf' ! 1" "length pkt = n" using l by simp_all
  with assms(4) n have d: "dp_payload pdu = drop 2 pkt" "n - 2 = unat (buf' ! 1 AND 0x3F)"
    by (auto simp: data_pdu_decode_def Let_def split: if_splits)
  then have "drop_bit 1 (buf' ! 1) AND 0x3F = buf' ! 1 AND 0x3F" using n by (simp add: word_unat_eq_iff)
  from length_fields_agree [OF this] have z: "buf' ! 1 AND 0x7F = 0" using n pkt(2) by auto
  have "(buf' ! 1 AND 0x7F) AND 0x3F = buf' ! 1 AND 0x3F" by (simp add: and.assoc)
  with z d n \<open>length pkt = n\<close> show ?thesis by simp
qed

lemma slave_receive_empty:
  assumes "slave_receive eng c w = Some (got, c', w')" and "length (cn_rx_buf c) = 64" and "\<not> cn_encrypted c"
  shows "length (cn_rx_buf c') = 64 \<and> \<not> cn_encrypted c' \<and> (\<forall>e. got = Some (Inl e) \<longrightarrow> e = InvalidPdu) \<and>
    (\<forall>pdu. got = Some (Inr pdu) \<longrightarrow> dp_payload pdu = [])"
proof -
  obtain t w1 u w2 n buf w3 where l: "timer_now w = Some (t, w1)" "receive_start (set_compare u w1) = Some w2"
      "poll_loop u (cn_rx_buf c) w2 = Some (n, buf, w3)" "u = t + timeout_ticks 2000"
    using assms(1) by (auto simp: slave_receive_def bind_eq_Some_conv Let_def)
  have b: "length buf = 64" using polled_length [OF l(3)] assms(2) by simp
  show ?thesis
  proof (cases n)
    case None
    with assms l b show ?thesis by (auto simp: slave_receive_def)
  next
    case (Some len)
    then obtain pkt where p: "slice buf 0 len = Some pkt"
      using assms l by (auto simp: slave_receive_def conn_rx_def bind_eq_Some_conv)
    have "\<forall>pdu. data_pdu_decode pkt = Inr pdu \<longrightarrow> dp_payload pdu = []"
      using only_empty_decodes [OF l(3) [unfolded Some] assms(2) p] by simp
    with assms l b Some p show ?thesis
      by (auto simp: slave_receive_def conn_rx_def split: sum.splits)
  qed
qed

lemma slave_loop_deaf:
  assumes "slave_loop cx eng n EvIdle c w = Some (x, c', w')" and "length (cn_rx_buf c) = 64" and "\<not> cn_encrypted c"
  shows "x = Return (Inl InvalidPdu) \<or> (\<exists>b. x = Break b EvIdle)"
  using assms
proof (induction "4 - n" arbitrary: n c w rule: less_induct)
  case less
  obtain got c1 w1 where g: "slave_receive eng c w = Some (got, c1, w1)"
    using less.prems(1) by (subst (asm) slave_loop.simps) (auto simp: bind_eq_Some_conv)
  note e = slave_receive_empty [OF g less.prems(2,3)]
  show ?case
  proof (cases "\<exists>pdu. got = Some (Inr pdu)")
    case False
    with less.prems(1) g e show ?thesis
      by (subst (asm) slave_loop.simps) (auto split: option.splits sum.splits)
  next
    case True
    then obtain pdu where p: "got = Some (Inr pdu)" ..
    obtain t w2 where n: "timer_now w1 = Some (t, w2)"
      using less.prems(1) g p by (subst (asm) slave_loop.simps) (auto simp: bind_eq_Some_conv)
    have "slave_handle cx eng pdu EvIdle (c1\<lparr>cn_last_rx := t\<rparr>, w2) = Some (Inr EvIdle, acknowledge pdu (c1\<lparr>cn_last_rx := t\<rparr>), w2)"
      using e p by (simp add: slave_handle_def)
    with less.prems(1) g p n e less.hyps [of "n + 1" "acknowledge pdu (c1\<lparr>cn_last_rx := t\<rparr>)" w2] show ?thesis
      by (subst (asm) slave_loop.simps) (auto simp: acknowledge_def split: if_splits)
  qed
qed

lemma master_handle_empty: "dp_payload pdu = [] \<Longrightarrow> master_handle cx pdu c = Some (EvIdle, acknowledge pdu c)"
  by (simp add: master_handle_def)

lemma respond_keeps: "respond eng (c, w) = Some (c', w') \<Longrightarrow> \<not> cn_encrypted c \<Longrightarrow> cn_rx_buf c' = cn_rx_buf c \<and> \<not> cn_encrypted c'"
  by (auto simp: respond_def conn_tx_def put_control_def tx_fragment_def Let_def bind_eq_Some_conv split: if_splits option.splits)

lemma event_master_deaf:
  assumes "event_master cx eng c w = Some (r, c', w')" and "length (cn_rx_buf c) = 64" and "\<not> cn_encrypted c"
  shows "r \<in> {Inr EvIdle, Inr (EvDisconnected HostTerminate)}"
proof (cases "cn_terminate_pending c")
  case True
  with assms show ?thesis by (auto simp: event_master_def Let_def bind_eq_Some_conv)
next
  case False
  obtain c0 w0 t w1 u w2 got buf w3 where l: "respond eng (c, w) = Some (c0, w0)" "timer_now w0 = Some (t, w1)"
      "receive_start (set_compare u w1) = Some w2" "poll_loop u (cn_rx_buf c0) w2 = Some (got, buf, w3)"
      "u = t + timeout_ticks 2000"
    using assms False by (auto simp: event_master_def bind_eq_Some_conv Let_def)
  have c0: "length (cn_rx_buf c0) = 64" "\<not> cn_encrypted c0" using respond_keeps [OF l(1) assms(3)] assms(2) by simp_all
  show ?thesis
  proof (cases got)
    case None
    with assms False l show ?thesis by (simp add: event_master_def)
  next
    case (Some len)
    obtain t5 w5 pkt where n: "timer_now w3 = Some (t5, w5)" "slice buf 0 len = Some pkt"
      using assms False l Some c0 by (auto simp: event_master_def conn_rx_def bind_eq_Some_conv Let_def)
    have "\<forall>pdu. data_pdu_decode pkt = Inr pdu \<longrightarrow> dp_payload pdu = []"
      using only_empty_decodes [OF l(4) [unfolded Some] c0(1) n(2)] by simp
    with assms False l Some n c0 show ?thesis
      by (cases "data_pdu_decode pkt") (auto simp: event_master_def conn_rx_def master_handle_empty)
  qed
qed

lemma event_begin_keeps:
  "event_begin c w = (r, c0, w0) \<Longrightarrow> cn_rx_buf c0 = cn_rx_buf c \<and> cn_encrypted c0 = cn_encrypted c \<and>
     cn_terminate_pending c0 = cn_terminate_pending c"
  by (auto simp: event_begin_def Let_def split: prod.splits option.splits if_splits)

section \<open>Properties\<close>

text \<open>C15. Before encryption is started a connection never hears its peer: \<open>receive_poll\<close> takes
  the length of a received packet from bits 1 to 6 of the length byte, \<open>DataPdu::decode\<close> from
  bits 0 to 5 and insists that the two agree, so only empty packets are ever decoded. Whatever
  the peer sends, a connection event that returns reports nothing but \<open>Idle\<close>, its own
  termination, or (in the slave role) the error \<open>InvalidPdu\<close>: no data, no control procedure, no
  remote termination.\<close>

theorem unencrypted_link_is_deaf:
  assumes "event cx eng c w = Some (r, c', w')" and "conn_ok c" and "\<not> cn_encrypted c"
  shows "r \<in> {Inr EvIdle, Inr (EvDisconnected HostTerminate)} \<or> r = Inl InvalidPdu \<and> cn_role c = Slave"
proof -
  obtain c0 w0 where b: "event_begin c w = (Inr (), c0, w0)" "cn_role c0 = cn_role c"
    using event_begin_effect [of c w] by metis
  have c0: "length (cn_rx_buf c0) = 64" "\<not> cn_encrypted c0"
    using event_begin_keeps [OF b(1)] assms(2,3) conn_ok_lengths(9) by auto
  show ?thesis
  proof (cases "cn_role c0")
    case Master
    with assms(1) b obtain w2 where "event_master cx eng c0 w2 = Some (r, c', w')"
      by (auto simp: event_def bind_eq_Some_conv)
    with event_master_deaf c0 show ?thesis by blast
  next
    case Slave
    with assms(1) b have s: "event_slave cx eng c0 w0 = Some (r, c', w')" by (simp add: event_def)
    then obtain x c1 w1 where l: "slave_loop cx eng 0 EvIdle c0 w0 = Some (x, c1, w1)"
      by (auto simp: event_slave_def bind_eq_Some_conv)
    with slave_loop_deaf [OF l c0] s Slave b(2) show ?thesis
      by (auto simp: event_slave_def bind_eq_Some_conv Let_def split: if_splits)
  qed
qed

theorem unencrypted_link_is_deaf_witness:
  "\<exists>r c' w'. event example_crypto example_engine (example_conn Slave) (example_world [0, 5] [[2, 1, 2]]) = Some (r, c', w') \<and>
     r \<noteq> Inr (EvDisconnected RemoteTerminate)"
proof -
  have "event example_crypto example_engine (example_conn Slave) (example_world [0, 5] [[2, 1, 2]]) \<noteq> None" by code_simp
  then obtain r c' w' where e: "event example_crypto example_engine (example_conn Slave) (example_world [0, 5] [[2, 1, 2]]) = Some (r, c', w')"
    by auto
  have "\<not> cn_encrypted (example_conn Slave)" by (simp add: example_conn_def conn_new_def)
  from unencrypted_link_is_deaf [OF e example_conn_ok this] e show ?thesis by auto
qed

end
