(* ===== verification/Conn_Schedule.thy ===== *)
theory Conn_Schedule
  imports Conn_Link
begin

text \<open>
  The schedule of a connection, across \<^verbatim>\<open>src/hw/conn.rs\<close>, the hop selection and the interval
  arithmetic: traffic never touches the link parameters, so anchor points and channels of
  successive connection events follow from the connection request alone, and what an event
  can report.
\<close>

section \<open>Traffic keeps the link parameters\<close>

text \<open>The link parameters, the schedule, the hop state and the bonds, which traffic leaves alone.\<close>

definition link_fields ::
  "conn \<Rightarrow> (conn_role \<times> u32 \<times> u32 \<times> bytes) \<times> (u16 \<times> u16 \<times> u8 \<times> u8) \<times> (u32 \<times> interval_accum \<times> u16) \<times> ram_bond_store \<times> bytes" where
  "link_fields c =
     ((cn_role c, cn_access_addr c, cn_crc_init c, cn_channel_map c), (cn_interval c, cn_timeout c, cn_hop c, cn_channel c),
      (cn_anchor c, cn_accum c, cn_event_counter c), cn_bond_store c, cn_peer_addr c)"

lemma queue_link [simp]:
  "link_fields (queue_att m c) = link_fields c" "link_fields (queue_signaling m c) = link_fields c"
  "link_fields (queue_l2cap m cid c) = link_fields c" "link_fields (queue_encrypt_req c) = link_fields c"
  "link_fields (acknowledge pdu c) = link_fields c" "link_fields (put_control p c) = link_fields c"
  "link_fields (terminate_pdu c) = link_fields c"
  by (simp_all add: link_fields_def queue_att_def queue_signaling_def queue_l2cap_def queue_encrypt_req_def
      acknowledge_def put_control_def terminate_pdu_def Let_def)

lemma gatt_write_link: "link_fields (fst (snd (gatt_write h v (c, ev)))) = link_fields c"
  by (auto simp: gatt_write_def link_fields_def Let_def)

lemma link_fields_cong:
  "link_fields (c\<lparr>cn_coc := k\<rparr>) = link_fields c" "link_fields (c\<lparr>cn_rx_data := b, cn_rx_data_len := n\<rparr>) = link_fields c"
  "link_fields (c\<lparr>cn_pending_control := pc\<rparr>) = link_fields c" "link_fields (c\<lparr>cn_smp := s\<rparr>) = link_fields c"
  "link_fields (c\<lparr>cn_rx_l2cap_len := n\<rparr>) = link_fields c" "link_fields (c\<lparr>cn_tx_buf := b\<rparr>) = link_fields c"
  "link_fields (c\<lparr>cn_rx_l2cap := b\<rparr>) = link_fields c" "link_fields (c\<lparr>cn_rx_l2cap_cid := cid\<rparr>) = link_fields c"
  "link_fields (c\<lparr>cn_rx_l2cap_msg_len := n\<rparr>) = link_fields c"
  "link_fields (c\<lparr>cn_rx_buf := b\<rparr>) = link_fields c" "link_fields (c\<lparr>cn_ccm := m\<rparr>) = link_fields c"
  "link_fields (c\<lparr>cn_last_rx := t\<rparr>) = link_fields c" "link_fields (c\<lparr>cn_sn := x\<rparr>) = link_fields c"
  "link_fields (c\<lparr>cn_tx_pending := x\<rparr>) = link_fields c" "link_fields (c\<lparr>cn_tx_frag_offset := n\<rparr>) = link_fields c"
  "link_fields (c\<lparr>cn_pairing_in_progress := x\<rparr>) = link_fields c" "link_fields (c\<lparr>cn_encrypted := x, cn_packet_counter := p\<rparr>) = link_fields c"
  "link_fields (c\<lparr>cn_want_encrypt := x\<rparr>) = link_fields c" "link_fields (c\<lparr>cn_peer_version_ok := x\<rparr>) = link_fields c"
  "link_fields (c\<lparr>cn_tx_pdu_max := n\<rparr>) = link_fields c" "link_fields (c\<lparr>cn_rx_pdu_max := n\<rparr>) = link_fields c"
  "link_fields (c\<lparr>cn_pending_update := u\<rparr>) = link_fields c" "link_fields (c\<lparr>cn_pending_update_instant := i\<rparr>) = link_fields c"
  "link_fields (c\<lparr>cn_pending_request := x\<rparr>) = link_fields c" "link_fields (c\<lparr>cn_gatt_result := b\<rparr>) = link_fields c"
  "link_fields (c\<lparr>cn_gatt_result_len := n\<rparr>) = link_fields c" "link_fields (c\<lparr>cn_att_mtu := m'\<rparr>) = link_fields c"
  "link_fields (c\<lparr>cn_rx_data := b\<rparr>) = link_fields c" "link_fields (c\<lparr>cn_rx_data_len := n\<rparr>) = link_fields c"
  by (simp_all add: link_fields_def)

lemma handle_att_link:
  assumes "handle_att att (c, ev) = Some (c', ev')"
  shows "link_fields c' = link_fields c"
proof -
  consider "att = []" | "att \<noteq> []" "cn_pending_request c \<and> is_response (att ! 0)"
    | "att \<noteq> []" "\<not> (cn_pending_request c \<and> is_response (att ! 0))" by blast
  then show ?thesis
  proof cases
    case 1
    with assms show ?thesis by (simp add: handle_att_def)
  next
    case 2
    with assms show ?thesis by (auto simp: handle_att_def Let_def link_fields_cong simp del: of_nat_numeral split: if_splits)
  next
    case 3
    show ?thesis
    proof (cases "att_need (att ! 0) \<le> length att")
      case True
      show ?thesis
        using assms gatt_write_link [of "of_le16 (att ! 1) (att ! 2)" "drop 3 att" c ev]
        unfolding handle_att_request [OF 3 True]
        by (auto simp: link_fields_cong split: if_splits prod.splits)
    next
      case False
      with 3 assms show ?thesis by (simp add: handle_att_short)
    qed
  qed
qed

lemma handle_le_signaling_link: "handle_le_signaling body c = Some c' \<Longrightarrow> link_fields c' = link_fields c"
  by (auto simp: handle_le_signaling_def Let_def bind_eq_Some_conv link_fields_cong split: if_splits option.splits)

lemma rx_coc_sdu_link: "rx_coc_sdu body (c, ev) = Some (c', ev') \<Longrightarrow> link_fields c' = link_fields c"
  by (auto simp: rx_coc_sdu_def coc_complete_def Let_def bind_eq_Some_conv link_fields_cong split: if_splits option.splits)

lemma handle_smp_link: "link_fields (handle_smp cx body c) = link_fields c"
  unfolding handle_smp_def Let_def
  by (simp add: link_fields_cong split: prod.split sum.split)

lemma l2cap_append_link: "l2cap_append body (c, ev) = Some (c', ev') \<Longrightarrow> link_fields c' = link_fields c"
  by (auto simp: l2cap_append_def Let_def bind_eq_Some_conv link_fields_cong dest!: handle_att_link split: if_splits)

lemma handle_l2cap_link: "handle_l2cap cx payload llid (c, ev) = Some (c', ev') \<Longrightarrow> link_fields c' = link_fields c"
  by (auto simp: handle_l2cap_def Let_def bind_eq_Some_conv link_fields_cong handle_smp_link
      dest!: handle_le_signaling_link rx_coc_sdu_link l2cap_append_link split: if_splits option.splits)

lemma tx_fragment_link: "tx_fragment c = Some (n, c') \<Longrightarrow> link_fields c' = link_fields c"
  by (auto simp: tx_fragment_def Let_def bind_eq_Some_conv link_fields_cong split: if_splits)

lemma conn_tx_link: "conn_tx eng n (c, w) = Some (c', w') \<Longrightarrow> link_fields c' = link_fields c"
  by (auto simp: conn_tx_def Let_def bind_eq_Some_conv link_fields_cong split: if_splits)

lemma conn_rx_link: "conn_rx eng (c, w) = Some (ok, c', w') \<Longrightarrow> link_fields c' = link_fields c"
  by (auto simp: conn_rx_def Let_def bind_eq_Some_conv link_fields_cong split: if_splits)

lemma respond_link: "respond eng (c, w) = Some (c', w') \<Longrightarrow> link_fields c' = link_fields c"
  by (auto simp: respond_def Let_def bind_eq_Some_conv link_fields_cong dest!: tx_fragment_link conn_tx_link
      split: if_splits option.splits)

lemma handle_ll_control_link:
  "handle_ll_control eng p (c, w) = Some (r, c', w') \<Longrightarrow> link_fields c' = link_fields c"
  unfolding handle_ll_control_def Let_def
  by (auto simp: bind_eq_Some_conv link_fields_cong dest!: conn_tx_link split: if_splits)

lemma slave_handle_link:
  "slave_handle cx eng pdu ev (c, w) = Some (r, c', w') \<Longrightarrow> link_fields c' = link_fields c"
  by (auto simp: slave_handle_def Let_def bind_eq_Some_conv dest!: handle_ll_control_link handle_l2cap_link split: if_splits)

lemma slave_receive_link: "slave_receive eng c w = Some (r, c', w') \<Longrightarrow> link_fields c' = link_fields c"
  by (auto simp: slave_receive_def Let_def bind_eq_Some_conv link_fields_cong dest!: conn_rx_link
      split: if_splits option.splits)

lemma slave_loop_link: "slave_loop cx eng n ev c w = Some (x, c', w') \<Longrightarrow> link_fields c' = link_fields c"
proof (induction "4 - n" arbitrary: n ev c w rule: less_induct)
  case less
  obtain got c1 w1 where g: "slave_receive eng c w = Some (got, c1, w1)"
    using less.prems by (subst (asm) slave_loop.simps) (auto simp: bind_eq_Some_conv)
  then have l: "link_fields c1 = link_fields c" by (rule slave_receive_link)
  show ?case
  proof (cases "\<exists>pdu. got = Some (Inr pdu)")
    case False
    with less.prems g l show ?thesis
      by (subst (asm) slave_loop.simps) (auto split: option.splits sum.splits)
  next
    case True
    then obtain pdu where p: "got = Some (Inr pdu)" ..
    obtain t w2 r c3 w3 where n: "timer_now w1 = Some (t, w2)"
        "slave_handle cx eng pdu ev (c1\<lparr>cn_last_rx := t\<rparr>, w2) = Some (r, c3, w3)"
      using less.prems g p by (subst (asm) slave_loop.simps) (auto simp: bind_eq_Some_conv)
    have l3: "link_fields c3 = link_fields c" using slave_handle_link [OF n(2)] l by (simp add: link_fields_cong)
    show ?thesis
      using less.prems g p n l3 less.hyps [of "n + 1" _ c3 w3]
      by (subst (asm) slave_loop.simps) (auto split: sum.splits if_splits)
  qed
qed

lemma event_slave_link:
  assumes "event_slave cx eng c w = Some (r, c', w')"
  shows "link_fields c' = link_fields c"
proof -
  obtain x c1 w1 where l: "slave_loop cx eng 0 EvIdle c w = Some (x, c1, w1)"
    using assms by (auto simp: event_slave_def bind_eq_Some_conv)
  have "link_fields c' = link_fields c1"
  proof (cases x)
    case (Return y)
    with assms l show ?thesis by (simp add: event_slave_def)
  next
    case (Break received result)
    with assms l show ?thesis
      by (auto simp: event_slave_def bind_eq_Some_conv Let_def split: if_splits dest!: respond_link)
  qed
  with slave_loop_link [OF l] show ?thesis by simp
qed

lemma master_handle_link: "master_handle cx pdu c = Some (ev, c') \<Longrightarrow> link_fields c' = link_fields c"
  by (auto simp: master_handle_def Let_def bind_eq_Some_conv split: if_splits dest!: handle_l2cap_link)

lemma event_master_link:
  assumes "event_master cx eng c w = Some (r, c', w')"
  shows "link_fields c' = link_fields c"
proof (cases "cn_terminate_pending c")
  case True
  with assms show ?thesis by (auto simp: event_master_def Let_def bind_eq_Some_conv)
next
  case False
  obtain c0 w0 t w1 u w2 got buf w3 where l: "respond eng (c, w) = Some (c0, w0)" "timer_now w0 = Some (t, w1)"
      "receive_start (set_compare u w1) = Some w2" "poll_loop u (cn_rx_buf c0) w2 = Some (got, buf, w3)"
      "u = t + timeout_ticks 2000"
    using assms False by (auto simp: event_master_def bind_eq_Some_conv Let_def)
  have c0: "link_fields (c0\<lparr>cn_rx_buf := buf\<rparr>) = link_fields c" using respond_link [OF l(1)] by (simp add: link_fields_cong)
  show ?thesis
  proof (cases got)
    case None
    with assms False l c0 show ?thesis by (simp add: event_master_def)
  next
    case (Some len)
    obtain ok c4 w4 where rx: "conn_rx eng (c0\<lparr>cn_rx_buf := buf\<rparr>, w3) = Some (ok, c4, w4)"
      using assms False l Some by (auto simp: event_master_def bind_eq_Some_conv)
    have c4: "link_fields c4 = link_fields c" using conn_rx_link [OF rx] c0 by simp
    show ?thesis
    proof (cases ok)
      case False
      with assms \<open>\<not> cn_terminate_pending c\<close> l Some rx c4 show ?thesis by (auto simp: event_master_def bind_eq_Some_conv)
    next
      case True
      obtain t5 w5 pkt where n: "timer_now w4 = Some (t5, w5)" "slice (cn_rx_buf c4) 0 len = Some pkt"
        using assms False l Some rx True by (auto simp: event_master_def bind_eq_Some_conv Let_def)
      show ?thesis
        using assms False l Some rx True n c4
        by (cases "data_pdu_decode pkt")
          (auto simp: event_master_def bind_eq_Some_conv link_fields_cong dest!: master_handle_link)
    qed
  qed
qed

lemma event_link:
  assumes "event cx eng c w = Some (r, c', w')"
  shows "link_fields c' = link_fields (fst (snd (event_begin c w)))"
  using assms
  by (cases "event_begin c w"; cases "fst (event_begin c w)")
    (auto simp: event_def bind_eq_Some_conv dest!: event_master_link event_slave_link split: if_splits)

section \<open>Successive events\<close>

text \<open>Running \<open>n\<close> connection events, with the states they started from.\<close>

fun run_events :: "crypto \<Rightarrow> ccm_engine \<Rightarrow> nat \<Rightarrow> conn \<Rightarrow> world \<Rightarrow> (conn list \<times> conn \<times> world) option" where
  "run_events cx eng 0 c w = Some ([], c, w)"
| "run_events cx eng (Suc n) c w = do {
     (r, c', w) \<leftarrow> event cx eng c w;
     (cs, c'', w) \<leftarrow> run_events cx eng n c' w;
     Some (c # cs, c'', w)
   }"

text \<open>What the start of an event makes of the link's fields: the parameters of an update that is due,
  the next anchor, channel and counter.\<close>

definition next_timing :: "conn \<Rightarrow> u16 \<times> u16 \<times> interval_accum" where
  "next_timing c =
     (case due_update c of
        None \<Rightarrow> (cn_interval c, cn_timeout c, cn_accum c)
      | Some (interval, timeout) \<Rightarrow> (interval, timeout, accum_new_125ms))"

lemma event_begin_link:
  assumes "next_timing c = (i, t, a)" and "accum_next a i = (ticks, a')"
  shows "link_fields (fst (snd (event_begin c w))) =
    ((cn_role c, cn_access_addr c, cn_crc_init c, cn_channel_map c),
     (i, t, cn_hop c, next_channel (cn_channel c) (cn_hop c) (cn_channel_map c)),
     (cn_anchor c + ticks, a', cn_event_counter c + 1), cn_bond_store c, cn_peer_addr c)"
proof (cases "cn_pending_update c")
  case None
  then have "due_update c = None" by (simp add: due_update_def)
  with None assms show ?thesis
    by (auto simp: next_timing_def event_begin_def link_fields_def Let_def case_prod_beta)
next
  case (Some u)
  obtain i' t' where "u = (i', t')" by force
  with Some assms show ?thesis
    by (cases "cn_event_counter c + 1 = cn_pending_update_instant c")
      (simp_all add: next_timing_def due_update_def event_begin_def link_fields_def Let_def case_prod_beta)
qed

lemma event_schedule:
  assumes "event cx eng c w = Some (r, c', w')"
  shows "cn_channel c' = next_channel (cn_channel c) (cn_hop c) (cn_channel_map c)" "cn_hop c' = cn_hop c"
    "cn_channel_map c' = cn_channel_map c" "cn_event_counter c' = cn_event_counter c + 1"
    "due_update c = None \<Longrightarrow> cn_interval c' = cn_interval c \<and>
       accum_next (cn_accum c) (cn_interval c) = (cn_anchor c' - cn_anchor c, cn_accum c')"
    "due_update c = Some (i, t) \<Longrightarrow> cn_interval c' = i \<and> cn_timeout c' = t \<and>
       accum_next accum_new_125ms i = (cn_anchor c' - cn_anchor c, cn_accum c')"
    and event_peer: "cn_bond_store c' = cn_bond_store c" "cn_peer_addr c' = cn_peer_addr c" "cn_role c' = cn_role c"
proof -
  obtain i0 t0 a where n: "next_timing c = (i0, t0, a)" by (rule prod_cases3)
  obtain ticks a' where "accum_next a i0 = (ticks, a')" by force
  note l = event_link [OF assms, unfolded event_begin_link [OF n this], unfolded link_fields_def prod.inject] this
  then show "cn_channel c' = next_channel (cn_channel c) (cn_hop c) (cn_channel_map c)" "cn_hop c' = cn_hop c"
    "cn_channel_map c' = cn_channel_map c" "cn_event_counter c' = cn_event_counter c + 1"
    "cn_bond_store c' = cn_bond_store c" "cn_peer_addr c' = cn_peer_addr c" "cn_role c' = cn_role c"
    by simp_all
  show "cn_interval c' = cn_interval c \<and> accum_next (cn_accum c) (cn_interval c) = (cn_anchor c' - cn_anchor c, cn_accum c')"
    if "due_update c = None"
    using l n that by (simp add: next_timing_def)
  show "cn_interval c' = i \<and> cn_timeout c' = t \<and> accum_next accum_new_125ms i = (cn_anchor c' - cn_anchor c, cn_accum c')"
    if "due_update c = Some (i, t)"
    using l n that by (simp add: next_timing_def)
qed

lemma run_events_schedule:
  assumes "run_events cx eng n c w = Some (cs, c', w')"
  shows "cn_channel c' = ((\<lambda>ch. next_channel ch (cn_hop c) (cn_channel_map c)) ^^ n) (cn_channel c)"
    "cn_event_counter c' = cn_event_counter c + of_nat n"
    "\<forall>d \<in> set cs. due_update d = None \<Longrightarrow> cn_interval c' = cn_interval c \<and>
      (\<exists>ts. accum_run (cn_accum c) (replicate n (cn_interval c)) = (ts, cn_accum c') \<and> cn_anchor c' = cn_anchor c + sum_list ts)"
  using assms
proof (induction n arbitrary: c w cs)
  case 0
  { case 1 then show ?case by simp }
  { case 2 then show ?case by simp }
  { case 3 then show ?case by simp }
next
  case (Suc n)
  { case 1
    then obtain r c1 w1 cs1 where e: "event cx eng c w = Some (r, c1, w1)" "run_events cx eng n c1 w1 = Some (cs1, c', w')"
      by (auto simp: bind_eq_Some_conv)
    with Suc.IH(1) [OF e(2)] event_schedule [OF e(1)] show ?case
      by (simp add: funpow_Suc_right del: funpow.simps) }
  { case 2
    then obtain r c1 w1 cs1 where e: "event cx eng c w = Some (r, c1, w1)" "run_events cx eng n c1 w1 = Some (cs1, c', w')"
      by (auto simp: bind_eq_Some_conv)
    with Suc.IH(2) [OF e(2)] event_schedule [OF e(1)] show ?case by simp }
  { case 3
    then obtain r c1 w1 cs1 where e: "event cx eng c w = Some (r, c1, w1)" "run_events cx eng n c1 w1 = Some (cs1, c', w')"
        "cs = c # cs1"
      by (auto simp: bind_eq_Some_conv)
    note s = event_schedule(5) [OF e(1)]
    obtain ts where "cn_interval c' = cn_interval c1" "accum_run (cn_accum c1) (replicate n (cn_interval c1)) = (ts, cn_accum c')"
        "cn_anchor c' = cn_anchor c1 + sum_list ts"
      using Suc.IH(3) [OF _ e(2)] 3 e(3) by auto
    with s 3 e(3) show ?case by (intro conjI exI [of _ "(cn_anchor c1 - cn_anchor c) # ts"]) auto }
qed

lemma sum_list_of_unat: "sum_list ts = of_nat (sum_list (map unat ts))" for ts :: "'a::len word list"
  by (induction ts) simp_all

section \<open>Properties\<close>

text \<open>C4. A connection stays on schedule whatever traffic it carries: after \<open>n\<close> connection events
  of either role the channel is the \<open>n\<close>-fold hop from the first channel of the connection
  request, so that the two sides of a connection are always on the same channel; the event
  counter has advanced by \<open>n\<close>; and as long as no connection update came due, the anchor point
  has moved by exactly the integer part of \<open>n\<close> intervals of 1.25 ms in 32 us ticks.\<close>

theorem connection_schedule:
  assumes "run_events cx eng n (conn_new p ch t role) w = Some (cs, c', w')"
  shows "cn_channel c' = ((\<lambda>ch. next_channel ch (cr_hop p) (cr_channel_map p)) ^^ n) ch \<and>
    cn_event_counter c' = of_nat n \<and>
    ((\<forall>c \<in> set cs. due_update c = None) \<longrightarrow>
       cn_anchor c' = cn_anchor (conn_new p ch t role) + of_nat (1250 * (n * unat (cr_interval p)) div 32))"
proof -
  let ?c = "conn_new p ch t role"
  have c: "cn_channel ?c = ch" "cn_hop ?c = cr_hop p" "cn_channel_map ?c = cr_channel_map p" "cn_event_counter ?c = 0"
    "cn_interval ?c = cr_interval p" "cn_accum ?c = accum_new_125ms"
    by (simp_all add: conn_new_def Let_def)
  note s = run_events_schedule [OF assms, unfolded c]
  have "cn_anchor c' = cn_anchor ?c + of_nat (1250 * (n * unat (cr_interval p)) div 32)"
    if none: "\<forall>c \<in> set cs. due_update c = None"
  proof -
    obtain ts where ts: "accum_run accum_new_125ms (replicate n (cr_interval p)) = (ts, cn_accum c')"
        "cn_anchor c' = cn_anchor ?c + sum_list ts"
      using run_events_schedule(3) [OF assms none, unfolded c] by blast
    have "sum_list (map unat ts) = 1250 * (n * unat (cr_interval p)) div 32"
      using accum_run_total [OF accum_ok_new(2) _ ts(1)] rate_new(2)
      by (simp add: accum_new_125ms_def sum_list_replicate)
    with ts(2) show ?thesis by (simp add: sum_list_of_unat)
  qed
  with s(1,2) show ?thesis by simp
qed

text \<open>A connection request, as the example connection has it.\<close>

definition example_request :: connect_req_data where
  "example_request = \<lparr>cr_access_addr = 0x71764129, cr_crc_init = 0x123456, cr_win_size = 1, cr_win_offset = 0,
       cr_interval = 40, cr_latency = 0, cr_timeout = 100, cr_channel_map = replicate 5 0xFF, cr_hop = 7,
       cr_sca = 0\<rparr>"

theorem connection_schedule_witness:
  "\<exists>cs c' w'. run_events example_crypto example_engine 1 (conn_new example_request 3 0 Slave)
       (example_world [0, 5] [[1, 0]]) = Some (cs, c', w') \<and>
     cn_channel c' = 10 \<and> cn_anchor c' = 1562"
proof -
  let ?r = "run_events example_crypto example_engine 1 (conn_new example_request 3 0 Slave)
       (example_world [0, 5] [[1, 0]])"
  have "case ?r of Some (cs, c, w) \<Rightarrow> list_all (\<lambda>c. due_update c = None) cs | None \<Rightarrow> False" by code_simp
  then obtain cs c' w' where r: "?r = Some (cs, c', w')" "list_all (\<lambda>c. due_update c = None) cs"
    by (auto split: option.splits)
  have "((\<lambda>ch. next_channel ch (cr_hop example_request) (cr_channel_map example_request)) ^^ 1) 3 = 10"
    by code_simp
  moreover have "cn_anchor (conn_new example_request 3 0 Slave) + of_nat (1250 * (1 * unat (cr_interval example_request)) div 32) = 1562"
    by (simp add: conn_new_def example_request_def)
  ultimately show ?thesis
    using connection_schedule [OF r(1)] r by (auto simp: list_all_iff)
qed

end
