(* ===== verification/Addr.thy ===== *)
theory Addr
  imports Ble_Prelude
begin

text \<open>Device addresses, the accept list and resolvable private addresses:
  \<^verbatim>\<open>src/ll/addr.rs\<close>, \<^verbatim>\<open>src/ll/accept_list.rs\<close> and \<^verbatim>\<open>src/ll/priv_.rs\<close>. The AES-128 block
  cipher of the crate \<^verbatim>\<open>aes\<close> is a parameter of the address hash: a function from a key and a
  block to a block.\<close>

section \<open>Addresses\<close>

datatype addr_type = Public | RandomStatic | RandomPrivateResolvable | RandomPrivateNonResolvable

record bt_addr =
  ba_addr :: bytes
  ba_addr_type :: addr_type

definition is_random :: "addr_type \<Rightarrow> bool" where
  "is_random t \<longleftrightarrow> t \<noteq> Public"

definition from_bytes :: "bytes \<Rightarrow> addr_type \<Rightarrow> bt_addr" where
  "from_bytes addr t = \<lparr>ba_addr = addr, ba_addr_type = t\<rparr>"

definition parse_addr :: "bytes \<Rightarrow> bt_addr" where
  "parse_addr addr =
     (let addr_type =
        (let top = drop_bit 6 (addr ! 5) in
         if top = 3 then RandomStatic
         else if top = 1 then RandomPrivateResolvable
         else RandomPrivateNonResolvable)
      in \<lparr>ba_addr = addr, ba_addr_type = addr_type\<rparr>)"

definition as_bytes :: "bt_addr \<Rightarrow> bytes" where
  "as_bytes a = ba_addr a"

definition tx_add_bit :: "bt_addr \<Rightarrow> bool" where
  "tx_add_bit a \<longleftrightarrow> ba_addr_type a \<noteq> Public"

section \<open>The accept list\<close>

definition ACCEPT_LIST_MAX :: nat where "ACCEPT_LIST_MAX = 8"

record accept_list =
  al_entries :: "(addr_type \<times> bytes) list"
  al_len :: nat

definition al_new :: accept_list where
  "al_new = \<lparr>al_entries = replicate ACCEPT_LIST_MAX (Public, replicate 6 0), al_len = 0\<rparr>"

definition al_clear :: "accept_list \<Rightarrow> accept_list" where
  "al_clear l = l\<lparr>al_len := 0\<rparr>"

definition al_contains :: "accept_list \<Rightarrow> bytes \<Rightarrow> addr_type \<Rightarrow> bool" where
  "al_contains l addr t \<longleftrightarrow> list_ex (\<lambda>(t', a). t' = t \<and> a = addr) (take (al_len l) (al_entries l))"

definition al_add :: "accept_list \<Rightarrow> bytes \<Rightarrow> addr_type \<Rightarrow> bool \<times> accept_list" where
  "al_add l addr t =
     (if al_len l \<ge> ACCEPT_LIST_MAX \<or> al_contains l addr t then (False, l)
      else (True, l\<lparr>al_entries := (al_entries l)[al_len l := (t, addr)], al_len := al_len l + 1\<rparr>))"

definition al_is_empty :: "accept_list \<Rightarrow> bool" where
  "al_is_empty l \<longleftrightarrow> al_len l = 0"

definition al_slice :: "accept_list \<Rightarrow> (addr_type \<times> bytes) list" where
  "al_slice l = take (al_len l) (al_entries l)"

section \<open>Resolvable private addresses\<close>

type_synonym block_cipher = "bytes \<Rightarrow> bytes \<Rightarrow> bytes"

definition ah :: "block_cipher \<Rightarrow> bytes \<Rightarrow> bytes \<Rightarrow> bytes" where
  "ah aes irk prand = take 3 (aes irk (set_prefix (replicate 16 0) prand))"

definition generate_rpa :: "block_cipher \<Rightarrow> bytes \<Rightarrow> u32 \<Rightarrow> bytes" where
  "generate_rpa aes irk prand0 =
     (let prand = prand0 AND 0x00FFFFFF;
          b0 = ucast (prand AND 0xFF);
          b1 = ucast (drop_bit 8 prand AND 0xFF);
          b2 = ucast (drop_bit 16 prand AND 0xFF);
          prand_bytes = [b0, b1, (b2 AND 0x3F) OR 0x40]
      in ah aes irk prand_bytes @ prand_bytes)"

definition resolve_rpa :: "block_cipher \<Rightarrow> bytes \<Rightarrow> bytes \<Rightarrow> bool" where
  "resolve_rpa aes irk addr =
     (if drop_bit 6 (addr ! 5) \<noteq> 1 then False
      else ah aes irk (take 3 (drop 3 addr)) = take 3 addr)"

section \<open>The interface of a bounded set\<close>

text \<open>What the filter policies of the controller rely on: a set of keys with a capacity, in
  which an insertion reports whether it added the key.\<close>

locale bounded_set =
  fixes empty :: 's
    and clear :: "'s \<Rightarrow> 's"
    and insert_key :: "'s \<Rightarrow> 'k \<Rightarrow> bool \<times> 's"
    and member :: "'s \<Rightarrow> 'k \<Rightarrow> bool"
    and invar :: "'s \<Rightarrow> bool"
    and keys :: "'s \<Rightarrow> 'k set"
    and capacity :: nat
  assumes invar_empty: "invar empty" and keys_empty: "keys empty = {}"
    and invar_clear: "invar s \<Longrightarrow> invar (clear s)" and keys_clear: "invar s \<Longrightarrow> keys (clear s) = {}"
    and invar_insert: "invar s \<Longrightarrow> invar (snd (insert_key s k))"
    and keys_insert: "invar s \<Longrightarrow>
      keys (snd (insert_key s k)) = (if card (keys s) < capacity then insert k (keys s) else keys s)"
    and added: "invar s \<Longrightarrow> fst (insert_key s k) \<longleftrightarrow> k \<notin> keys s \<and> card (keys s) < capacity"
    and member_iff: "invar s \<Longrightarrow> member s k \<longleftrightarrow> k \<in> keys s"
    and bounded: "invar s \<Longrightarrow> finite (keys s) \<and> card (keys s) \<le> capacity"
begin

definition insert_all :: "'s \<Rightarrow> 'k list \<Rightarrow> 's" where
  "insert_all = foldl (\<lambda>s k. snd (insert_key s k))"

lemma invar_insert_all: "invar s \<Longrightarrow> invar (insert_all s ks)"
  by (induction ks arbitrary: s) (simp_all add: insert_all_def invar_insert)

lemma keys_insert_all:
  assumes "invar s" and "card (keys s \<union> set ks) \<le> capacity"
  shows "keys (insert_all s ks) = keys s \<union> set ks"
  using assms
proof (induction ks arbitrary: s)
  case (Cons k ks)
  let ?s = "snd (insert_key s k)"
  have fin: "finite (keys s)" using bounded Cons.prems(1) by blast
  have "keys ?s = insert k (keys s)"
  proof (cases "k \<in> keys s")
    case False
    have "card (insert k (keys s)) \<le> card (keys s \<union> set (k # ks))"
      using fin by (intro card_mono) auto
    with Cons.prems False fin show ?thesis by (simp add: keys_insert)
  qed (use Cons.prems keys_insert in auto)
  with Cons.IH [of ?s] Cons.prems show ?case
    by (simp add: insert_all_def invar_insert Un_commute)
qed (simp add: insert_all_def)

lemma insert_all_member:
  assumes "invar s" and "card (keys s \<union> set ks) \<le> capacity"
  shows "member (insert_all s ks) k \<longleftrightarrow> member s k \<or> k \<in> set ks"
  using assms by (simp add: member_iff invar_insert_all keys_insert_all)

lemma insert_keeps_members: "invar s \<Longrightarrow> member s k' \<Longrightarrow> member (snd (insert_key s k)) k'"
  by (simp add: member_iff invar_insert keys_insert)

lemma full_rejects: "invar s \<Longrightarrow> card (keys s) = capacity \<Longrightarrow> \<not> fst (insert_key s k)"
  by (simp add: added)

end

section \<open>The accept list is a bounded set\<close>

definition al_insert :: "accept_list \<Rightarrow> addr_type \<times> bytes \<Rightarrow> bool \<times> accept_list" where
  "al_insert l k = al_add l (snd k) (fst k)"

definition al_member :: "accept_list \<Rightarrow> addr_type \<times> bytes \<Rightarrow> bool" where
  "al_member l k = al_contains l (snd k) (fst k)"

definition al_ok :: "accept_list \<Rightarrow> bool" where
  "al_ok l \<longleftrightarrow> length (al_entries l) = ACCEPT_LIST_MAX \<and> al_len l \<le> ACCEPT_LIST_MAX \<and> distinct (al_slice l)"

lemma al_contains_iff: "al_contains l a t \<longleftrightarrow> (t, a) \<in> set (al_slice l)"
  by (auto simp: al_contains_def al_slice_def list_ex_iff)

lemma card_al_slice: "al_ok l \<Longrightarrow> card (set (al_slice l)) = al_len l"
  by (simp add: al_ok_def distinct_card) (simp add: al_slice_def)

lemma al_add_slice:
  assumes "al_ok l"
  shows "al_slice (snd (al_add l a t)) =
    (if al_len l < ACCEPT_LIST_MAX \<and> \<not> al_contains l a t then al_slice l @ [(t, a)] else al_slice l)"
  using assms by (auto simp: al_add_def al_slice_def al_ok_def take_Suc_conv_app_nth)

lemma al_add_ok: "al_ok l \<Longrightarrow> al_ok (snd (al_add l a t))"
  using al_add_slice [of l a t] by (auto simp: al_ok_def al_contains_iff) (auto simp: al_add_def)

interpretation al: bounded_set al_new al_clear al_insert al_member al_ok "\<lambda>l. set (al_slice l)" ACCEPT_LIST_MAX
proof unfold_locales
  show "al_ok al_new" "set (al_slice al_new) = {}"
    by (simp_all add: al_ok_def al_new_def al_slice_def)
next
  fix s k
  assume s: "al_ok s"
  show "al_ok (al_clear s)" "set (al_slice (al_clear s)) = {}"
    using s by (simp_all add: al_ok_def al_clear_def al_slice_def)
  show "al_ok (snd (al_insert s k))"
    using s by (simp add: al_insert_def al_add_ok)
  show "set (al_slice (snd (al_insert s k))) =
      (if card (set (al_slice s)) < ACCEPT_LIST_MAX then insert k (set (al_slice s)) else set (al_slice s))"
    using s by (auto simp: al_insert_def al_add_slice card_al_slice al_contains_iff)
  show "fst (al_insert s k) \<longleftrightarrow> k \<notin> set (al_slice s) \<and> card (set (al_slice s)) < ACCEPT_LIST_MAX"
    using s by (auto simp: al_insert_def al_add_def card_al_slice al_contains_iff)
  show "al_member s k \<longleftrightarrow> k \<in> set (al_slice s)"
    by (simp add: al_member_def al_contains_iff)
  show "finite (set (al_slice s)) \<and> card (set (al_slice s)) \<le> ACCEPT_LIST_MAX"
    using s by (simp add: card_al_slice) (simp add: al_ok_def)
qed

section \<open>Lemmas on private addresses\<close>

lemma rpa_top_bits: "drop_bit 6 ((b AND 0x3F) OR 0x40 :: u8) = 1"
proof (rule bit_word_eqI, goal_cases)
  case (1 n)
  then show ?case
    by (cases "n = 0") (auto simp: bit_simps and_masks dest: bit_u8D)
qed

lemma generate_rpa_bytes:
  "\<exists>b0 b1 b2. generate_rpa aes irk prand = ah aes irk [b0, b1, b2] @ [b0, b1, b2] \<and> drop_bit 6 b2 = 1"
  by (auto simp: generate_rpa_def Let_def rpa_top_bits)

lemma rpa_octet:
  fixes b :: u8
  assumes "drop_bit 6 b = 1"
  shows "(b AND 0x3F) OR 0x40 = b"
proof (rule bit_word_eqI, goal_cases)
  case (1 n)
  have "bit b (6 + k) \<longleftrightarrow> bit (1 :: u8) k" for k
    using assms by (metis bit_drop_bit_eq comp_def)
  from this [of 0] this [of 1] have "bit b 6" "\<not> bit b 7"
    by (simp_all add: bit_simps)
  moreover have "bit (0x40 :: u8) n \<longleftrightarrow> n = 6"
    using bit_exp_iff [where ?'a = u8, of 6 n] 1 by auto
  ultimately show ?case
    using bit_u8D [of b n] by (cases "n < 6"; cases "n = 6"; cases "n = 7") (auto simp: bit_simps and_masks)
qed

lemma generate_rpa_surj:
  assumes "drop_bit 6 b2 = (1 :: u8)"
  shows "generate_rpa aes irk (ucast b0 OR push_bit 8 (ucast b1) OR push_bit 16 (ucast b2)) =
    ah aes irk [b0, b1, b2] @ [b0, b1, b2]"
proof -
  let ?p = "(ucast b0 OR push_bit 8 (ucast b1) OR push_bit 16 (ucast b2)) AND 0x00FFFFFF :: u32"
  have "ucast (?p AND 0xFF) = b0" "ucast (drop_bit 8 ?p AND 0xFF) = b1" "ucast (drop_bit 16 ?p AND 0xFF) = b2"
    by (rule bit_word_eqI, auto simp: bit_simps and_FFFFFF_u32 and_FF_u32 bit_beyond)+
  then show ?thesis
    unfolding generate_rpa_def Let_def by (simp add: rpa_octet assms)
qed

section \<open>Properties\<close>

text \<open>C33. The accept list is a set of at most eight (type, address) pairs: adding a list of
  pairs that fits makes exactly those pairs members, none of them stored twice, the length
  counts them, and a further \<open>add\<close> succeeds exactly for a new pair while there is room.\<close>

theorem accept_list_is_bounded_set:
  assumes "card (set ks) \<le> ACCEPT_LIST_MAX"
  shows "let l = foldl (\<lambda>l (t, a). snd (al_add l a t)) al_new ks in
    (al_contains l a t \<longleftrightarrow> (t, a) \<in> set ks) \<and> distinct (al_slice l) \<and> al_len l = card (set ks) \<and>
    (fst (al_add l a t) \<longleftrightarrow> (t, a) \<notin> set ks \<and> card (set ks) < ACCEPT_LIST_MAX)"
proof -
  let ?l = "al.insert_all al_new ks"
  have l: "foldl (\<lambda>l (t, a). snd (al_add l a t)) al_new ks = ?l"
    by (simp add: al.insert_all_def al_insert_def case_prod_beta')
  have ok: "al_ok ?l" by (simp add: al.invar_insert_all al.invar_empty)
  have keys: "set (al_slice ?l) = set ks"
    using al.keys_insert_all [of al_new ks] assms by (simp add: al.invar_empty al.keys_empty)
  show ?thesis
    using al.added [OF ok, of "(t, a)"] card_al_slice [OF ok] ok keys
    by (simp add: Let_def l al_contains_iff al_insert_def) (simp add: al_ok_def)
qed

theorem accept_list_is_bounded_set_witness:
  "\<not> al_contains (snd (al_add (snd (al_add al_new [1, 1, 1, 1, 1, 1] Public)) [1, 1, 1, 1, 1, 1] Public))
       [1, 1, 1, 1, 1, 1] RandomStatic \<and>
   al_len (snd (al_add (snd (al_add al_new [1, 1, 1, 1, 1, 1] Public)) [1, 1, 1, 1, 1, 1] Public)) = 1"
  using accept_list_is_bounded_set [of "[(Public, [1, 1, 1, 1, 1, 1]), (Public, [1, 1, 1, 1, 1, 1])]"
      "[1, 1, 1, 1, 1, 1]" RandomStatic]
  by (simp add: Let_def ACCEPT_LIST_MAX_def)

text \<open>C34. Private addresses: for any cipher that returns 16-byte blocks, the addresses that resolve
  under a key are exactly those that \<open>generate_rpa\<close> produces with that key for some random value,
  and \<open>parse\<close> gives each of them the resolvable type.\<close>

theorem resolve_rpa_exact:
  assumes "\<And>key block. length (aes key block) = 16" and "length addr = 6"
  shows "(resolve_rpa aes irk addr \<longleftrightarrow> (\<exists>prand. addr = generate_rpa aes irk prand)) \<and>
    (\<forall>prand. ba_addr_type (parse_addr (generate_rpa aes irk prand)) = RandomPrivateResolvable)"
proof (intro conjI iffI allI)
  from assms(2) obtain h0 h1 h2 b0 b1 b2 where a: "addr = [h0, h1, h2] @ [b0, b1, b2]"
    by (auto elim: length_6_cases)
  show "\<exists>prand. addr = generate_rpa aes irk prand" if "resolve_rpa aes irk addr"
  proof -
    have "drop_bit 6 b2 = 1" "ah aes irk [b0, b1, b2] = [h0, h1, h2]"
      using that by (auto simp: resolve_rpa_def a split: if_splits)
    with generate_rpa_surj [of b2 aes irk b0 b1] show ?thesis by (auto simp: a) metis
  qed
  have len: "length (ah aes irk p) = 3" for p
    using assms(1) by (simp add: ah_def)
  show "resolve_rpa aes irk addr" if "\<exists>prand. addr = generate_rpa aes irk prand"
  proof -
    from that obtain prand where "addr = generate_rpa aes irk prand" ..
    moreover obtain c0 c1 c2 where "generate_rpa aes irk prand = ah aes irk [c0, c1, c2] @ [c0, c1, c2]" "drop_bit 6 c2 = 1"
      using generate_rpa_bytes [of aes irk prand] by blast
    ultimately show ?thesis using len by (simp add: resolve_rpa_def nth_append)
  qed
  show "ba_addr_type (parse_addr (generate_rpa aes irk prand)) = RandomPrivateResolvable" for prand
  proof -
    obtain c0 c1 c2 where "generate_rpa aes irk prand = ah aes irk [c0, c1, c2] @ [c0, c1, c2]" "drop_bit 6 c2 = 1"
      using generate_rpa_bytes [of aes irk prand] by blast
    then show ?thesis using len by (simp add: parse_addr_def nth_append Let_def)
  qed
qed

theorem resolve_rpa_exact_witness:
  "\<exists>prand. [0x12, 0x34, 0x41, 0x12, 0x34, 0x41] =
     generate_rpa (\<lambda>key block. map (\<lambda>i. (if i < length key then key ! i else 0) XOR (if i < length block then block ! i else 0)) [0..<16])
       (replicate 16 0) prand"
  using resolve_rpa_exact [of "\<lambda>key block. map (\<lambda>i. (if i < length key then key ! i else 0) XOR (if i < length block then block ! i else 0)) [0..<16]"
      "[0x12, 0x34, 0x41, 0x12, 0x34, 0x41]" "replicate 16 0"]
  by (simp add: resolve_rpa_def ah_def set_prefix_def upt_conv_Cons)

end
