(* ===== verification/Ad.thy ===== *)
theory Ad
  imports Ble_Prelude
begin

text \<open>Advertising data: \<^verbatim>\<open>src/gap/ad.rs\<close>. \<open>ad_next\<close> is the iterator's \<open>next\<close> (the inner
  option is the iterator's end, the outer one a panic), \<open>ad_entries\<close> a loop over the iterator
  that leaves at the first error, and \<open>build\<close> returns its result together with the buffer it
  wrote, which an error leaves partly written.\<close>

section \<open>Model\<close>

definition AD_TYPE_FLAGS :: u8 where "AD_TYPE_FLAGS = 0x01"
definition AD_TYPE_UUID16_INCOMPLETE :: u8 where "AD_TYPE_UUID16_INCOMPLETE = 0x02"
definition AD_TYPE_UUID16_COMPLETE :: u8 where "AD_TYPE_UUID16_COMPLETE = 0x03"
definition AD_TYPE_UUID32_INCOMPLETE :: u8 where "AD_TYPE_UUID32_INCOMPLETE = 0x04"
definition AD_TYPE_UUID32_COMPLETE :: u8 where "AD_TYPE_UUID32_COMPLETE = 0x05"
definition AD_TYPE_UUID128_INCOMPLETE :: u8 where "AD_TYPE_UUID128_INCOMPLETE = 0x06"
definition AD_TYPE_UUID128_COMPLETE :: u8 where "AD_TYPE_UUID128_COMPLETE = 0x07"
definition AD_TYPE_SHORT_NAME :: u8 where "AD_TYPE_SHORT_NAME = 0x08"
definition AD_TYPE_COMPLETE_NAME :: u8 where "AD_TYPE_COMPLETE_NAME = 0x09"
definition AD_TYPE_TX_POWER_LEVEL :: u8 where "AD_TYPE_TX_POWER_LEVEL = 0x0A"
definition AD_TYPE_APPEARANCE :: u8 where "AD_TYPE_APPEARANCE = 0x19"
definition AD_TYPE_MANUFACTURER_SPECIFIC :: u8 where "AD_TYPE_MANUFACTURER_SPECIFIC = 0xFF"

definition AD_FLAG_LE_LIMITED_DISCOVERABLE :: u8 where "AD_FLAG_LE_LIMITED_DISCOVERABLE = 0x01"
definition AD_FLAG_LE_GENERAL_DISCOVERABLE :: u8 where "AD_FLAG_LE_GENERAL_DISCOVERABLE = 0x02"
definition AD_FLAG_BR_EDR_NOT_SUPPORTED :: u8 where "AD_FLAG_BR_EDR_NOT_SUPPORTED = 0x04"
definition AD_FLAG_LE_BR_EDR_CONTROLLER :: u8 where "AD_FLAG_LE_BR_EDR_CONTROLLER = 0x08"
definition AD_FLAG_LE_BR_EDR_HOST :: u8 where "AD_FLAG_LE_BR_EDR_HOST = 0x10"

definition LEGACY_AD_DATA_MAX_LEN :: nat where "LEGACY_AD_DATA_MAX_LEN = 31"

record ad_entry =
  ad_type :: u8
  ad_data :: bytes

record ad_iter =
  it_buf :: bytes
  it_pos :: nat

definition ad_iter_new :: "bytes \<Rightarrow> ad_iter" where
  "ad_iter_new buf = \<lparr>it_buf = buf, it_pos = 0\<rparr>"

definition ad_next :: "ad_iter \<Rightarrow> ((error + ad_entry) option \<times> ad_iter) option" where
  "ad_next it =
     (if it_pos it \<ge> length (it_buf it) then Some (None, it)
      else do {
        l \<leftarrow> get (it_buf it) (it_pos it);
        let len = unat l;
        if len = 0 then Some (Some (Inl InvalidAd), it)
        else if it_pos it + 1 + len > length (it_buf it) then Some (Some (Inl InvalidAd), it)
        else do {
          t \<leftarrow> get (it_buf it) (it_pos it + 1);
          d \<leftarrow> slice (it_buf it) (it_pos it + 2) (it_pos it + 1 + len);
          Some (Some (Inr \<lparr>ad_type = t, ad_data = d\<rparr>), it\<lparr>it_pos := it_pos it + (1 + len)\<rparr>)
        }
      })"

definition ad_iterate :: "bytes \<Rightarrow> ad_iter" where
  "ad_iterate buf = ad_iter_new buf"

fun build_loop :: "ad_entry list \<Rightarrow> nat \<Rightarrow> bytes \<Rightarrow> ((error + nat) \<times> bytes) option" where
  "build_loop [] pos out = Some (Inr pos, out)"
| "build_loop (e # es) pos out =
     (let len = length (ad_data e) + 1 in
      if length (ad_data e) > 255 - 1 then Some (Inl InvalidLength, out)
      else if pos + 1 + len > length out then Some (Inl BufferTooSmall, out)
      else do {
        out \<leftarrow> put out pos (of_nat len);
        out \<leftarrow> put out (pos + 1) (ad_type e);
        out \<leftarrow> copy_slice out (pos + 2) (pos + 1 + len) (ad_data e);
        build_loop es (pos + (1 + len)) out
      })"

definition build :: "ad_entry list \<Rightarrow> bytes \<Rightarrow> ((error + nat) \<times> bytes) option" where
  "build entries out = build_loop entries 0 out"

definition ad_flags_value :: "bool \<Rightarrow> bool \<Rightarrow> bool \<Rightarrow> u8" where
  "ad_flags_value general_discoverable limited_discoverable br_edr_not_supported =
     (let value = 0;
          value = (if limited_discoverable then value OR AD_FLAG_LE_LIMITED_DISCOVERABLE else value);
          value = (if general_discoverable then value OR AD_FLAG_LE_GENERAL_DISCOVERABLE else value);
          value = (if br_edr_not_supported then value OR AD_FLAG_BR_EDR_NOT_SUPPORTED else value)
      in value)"

section \<open>The iterator as a list\<close>

lemma ad_next_cases:
  "ad_next it =
     (if length (it_buf it) \<le> it_pos it then Some (None, it)
      else let len = unat (it_buf it ! it_pos it) in
        if len = 0 \<or> length (it_buf it) < it_pos it + 1 + len then Some (Some (Inl InvalidAd), it)
        else Some (Some (Inr \<lparr>ad_type = it_buf it ! (it_pos it + 1),
                     ad_data = take (len - 1) (drop (it_pos it + 2) (it_buf it))\<rparr>),
                   it\<lparr>it_pos := it_pos it + 1 + len\<rparr>))"
  by (auto simp: ad_next_def Let_def)

function ad_entries :: "ad_iter \<Rightarrow> (error + ad_entry list) option" where
  "ad_entries it =
     (case ad_next it of
        None \<Rightarrow> None
      | Some (None, it') \<Rightarrow> Some (Inr [])
      | Some (Some (Inl e), it') \<Rightarrow> Some (Inl e)
      | Some (Some (Inr x), it') \<Rightarrow> map_option (map_sum id ((#) x)) (ad_entries it'))"
  by pat_completeness auto
termination
  by (relation "measure (\<lambda>it. length (it_buf it) - it_pos it)")
    (auto simp: ad_next_cases Let_def split: if_splits)

declare ad_entries.simps [simp del]

text \<open>The reference parser: it consumes the list of bytes.\<close>

function parse_ad :: "bytes \<Rightarrow> error + ad_entry list" where
  "parse_ad [] = Inr []"
| "parse_ad (l # bs) =
     (let n = unat l in
      if n = 0 \<or> length bs < n then Inl InvalidAd
      else map_sum id ((#) \<lparr>ad_type = hd bs, ad_data = tl (take n bs)\<rparr>) (parse_ad (drop n bs)))"
  by pat_completeness auto
termination
  by (relation "measure length") auto

fun ad_bytes :: "ad_entry list \<Rightarrow> bytes" where
  "ad_bytes [] = []"
| "ad_bytes (e # es) = of_nat (length (ad_data e) + 1) # ad_type e # ad_data e @ ad_bytes es"

definition ad_entry_ok :: "ad_entry \<Rightarrow> bool" where
  "ad_entry_ok e \<longleftrightarrow> length (ad_data e) \<le> 254"

lemma ad_entries_parse:
  "ad_entries \<lparr>it_buf = buf, it_pos = p\<rparr> = Some (parse_ad (drop p buf))"
proof (induction "length buf - p" arbitrary: p rule: less_induct)
  case less
  show ?case
  proof (cases "p < length buf")
    case True
    let ?n = "unat (buf ! p)"
    have d: "drop p buf = buf ! p # drop (Suc p) buf"
      using True by (simp add: Cons_nth_drop_Suc)
    show ?thesis
    proof (cases "?n = 0 \<or> length buf < p + 1 + ?n")
      case True
      then show ?thesis
        using \<open>p < length buf\<close> by (subst ad_entries.simps) (auto simp: ad_next_cases d Let_def)
    next
      case False
      then have bnd: "Suc p < length buf" "drop (Suc p) buf \<noteq> []" by auto
      have "hd (drop (Suc p) buf) = buf ! Suc p"
        using bnd by (simp add: hd_drop_conv_nth)
      moreover have "tl (take ?n (drop (Suc p) buf)) = take (?n - 1) (drop (p + 2) buf)"
        by (simp add: tl_take tl_drop drop_Suc)
      ultimately show ?thesis
        using False True less [of "p + 1 + ?n"]
        by (subst ad_entries.simps) (auto simp: ad_next_cases d Let_def add.commute)
    qed
  qed (subst ad_entries.simps, simp add: ad_next_cases)
qed

lemma unat_entry_len: "n \<le> 254 \<Longrightarrow> unat (of_nat (n + 1) :: u8) = n + 1"
  by (simp add: unat_of_nat del: of_nat_add of_nat_Suc)

lemma parse_ad_bytes: "list_all ad_entry_ok es \<Longrightarrow> parse_ad (ad_bytes es) = Inr es"
proof (induction es)
  case (Cons e es)
  then show ?case
    using unat_entry_len [of "length (ad_data e)"]
    by (simp add: ad_entry_ok_def Let_def del: of_nat_add of_nat_Suc)
qed simp

lemma parse_ad_Inr: "parse_ad bs = Inr es \<Longrightarrow> ad_bytes es = bs \<and> list_all ad_entry_ok es"
proof (induction bs arbitrary: es rule: parse_ad.induct)
  case (2 l bs)
  let ?n = "unat l"
  from "2.prems" have n: "?n \<noteq> 0" "?n \<le> length bs"
    by (auto simp: Let_def split: if_splits)
  with "2.prems" obtain es' where es': "parse_ad (drop ?n bs) = Inr es'"
    and es: "es = \<lparr>ad_type = hd bs, ad_data = tl (take ?n bs)\<rparr> # es'"
    by (cases "parse_ad (drop ?n bs)") (auto simp: Let_def split: if_splits)
  from n have cut: "hd bs # tl (take ?n bs) @ drop ?n bs = bs"
    by (metis append_Cons append_take_drop_id hd_append hd_Cons_tl length_greater_0_conv length_take
        min.absorb2 not_gr_zero take_eq_Nil)
  have len: "length (tl (take ?n bs)) + 1 = ?n" "length (tl (take ?n bs)) \<le> 254"
    using n unat_u8_less [of l] by auto
  from "2.IH" [of ?n es'] n es' have "ad_bytes es' = drop ?n bs \<and> list_all ad_entry_ok es'"
    by simp
  moreover have "of_nat (length (tl (take ?n bs)) + 1) = l"
    unfolding len(1) by simp
  ultimately show ?case
    using cut len by (simp add: es ad_entry_ok_def list_all_iff del: of_nat_add of_nat_Suc)
qed simp

lemma build_loop_spec:
  assumes "pos \<le> length out"
  shows "case build_loop es pos out of
    None \<Rightarrow> False
  | Some (Inr n, out') \<Rightarrow> list_all ad_entry_ok es \<and> n = pos + length (ad_bytes es) \<and> n \<le> length out \<and>
      out' = take pos out @ ad_bytes es @ drop n out
  | Some (Inl e, out') \<Rightarrow> length out' = length out \<and>
      (e = InvalidLength \<and> \<not> list_all ad_entry_ok es \<or>
       e = BufferTooSmall \<and> length out < pos + length (ad_bytes es))"
  using assms
proof (induction es arbitrary: pos out)
  case (Cons e es)
  let ?len = "length (ad_data e) + 1"
  show ?case
  proof (cases "length (ad_data e) \<le> 254 \<and> pos + 1 + ?len \<le> length out")
    case True
    define out2 where "out2 = take pos out @ (of_nat ?len # ad_type e # ad_data e) @ drop (pos + 1 + ?len) out"
    have "(take (pos + 2) (out[pos := of_nat ?len, pos + 1 := ad_type e]) @ ad_data e @
        drop (pos + 1 + ?len) (out[pos := of_nat ?len, pos + 1 := ad_type e])) = out2"
      using True by (auto simp: out2_def take_Suc_conv_app_nth nth_append list_update_append take_update_swap
          simp del: of_nat_add of_nat_Suc)
    then have "build_loop (e # es) pos out = build_loop es (pos + (1 + ?len)) out2"
      using True by (simp add: Let_def del: of_nat_add of_nat_Suc)
    moreover have "length out2 = length out"
      "take (pos + (1 + ?len)) out2 = take pos out @ of_nat ?len # ad_type e # ad_data e"
      using True by (auto simp: out2_def simp del: of_nat_add of_nat_Suc)
    moreover have "drop (pos + (1 + ?len) + length (ad_bytes es)) out2 =
        drop (pos + (1 + ?len) + length (ad_bytes es)) out"
      using True by (simp add: out2_def del: of_nat_add of_nat_Suc) (simp add: ac_simps)
    ultimately show ?thesis
      using Cons.IH [of "pos + (1 + ?len)" out2] True
      by (auto simp: ad_entry_ok_def list_all_iff ac_simps split: option.splits sum.splits prod.splits
          simp del: of_nat_add of_nat_Suc)
  next
    case False
    then show ?thesis
      by (auto simp: Let_def ad_entry_ok_def)
  qed
qed simp

lemma parse_ad_Inl: "parse_ad bs = Inl e \<Longrightarrow> e = InvalidAd"
proof (induction bs rule: parse_ad.induct)
  case (2 l bs)
  then show ?case
    by (cases "parse_ad (drop (unat l) bs)") (auto simp: Let_def split: if_splits)
qed simp

lemma build_loop_complete:
  assumes "list_all ad_entry_ok es" and "length (ad_bytes es) \<le> length out"
  shows "build_loop es 0 out = Some (Inr (length (ad_bytes es)), ad_bytes es @ drop (length (ad_bytes es)) out)"
  using build_loop_spec [of 0 out es] assms
  by (cases "build_loop es 0 out"; cases "fst (the (build_loop es 0 out))") (auto split: prod.splits)

text \<open>The results of the first \<open>n\<close> calls of \<open>next\<close>, fewer when the iterator ends before.\<close>

fun ad_take :: "nat \<Rightarrow> ad_iter \<Rightarrow> (error + ad_entry) list option" where
  "ad_take 0 it = Some []"
| "ad_take (Suc n) it = do {
     (r, it) \<leftarrow> ad_next it;
     case r of
       None \<Rightarrow> Some []
     | Some x \<Rightarrow> map_option ((#) x) (ad_take n it)
   }"

lemma ad_take_end: "length buf \<le> p \<Longrightarrow> ad_take n \<lparr>it_buf = buf, it_pos = p\<rparr> = Some []"
  by (cases n) (simp_all add: ad_next_cases)

text \<open>The iterator does not advance over an error, so the error comes back at every call.\<close>

lemma ad_take_stuck:
  assumes "p < length buf" and "unat (buf ! p) = 0 \<or> length buf < p + 1 + unat (buf ! p)"
  shows "ad_take n \<lparr>it_buf = buf, it_pos = p\<rparr> = Some (replicate n (Inl InvalidAd))"
  using assms by (induction n) (auto simp: ad_next_cases Let_def)

lemma ad_take_entry:
  assumes "p < length buf" and "unat (buf ! p) \<noteq> 0" and "p + 1 + unat (buf ! p) \<le> length buf"
  shows "ad_take (Suc n) \<lparr>it_buf = buf, it_pos = p\<rparr> =
    map_option ((#) (Inr \<lparr>ad_type = buf ! (p + 1), ad_data = take (unat (buf ! p) - 1) (drop (p + 2) buf)\<rparr>))
      (ad_take n \<lparr>it_buf = buf, it_pos = p + 1 + unat (buf ! p)\<rparr>)"
  using assms by (simp add: ad_next_cases Let_def)

lemma ad_take_run:
  "\<exists>es. case parse_ad (drop p buf) of
      Inr es' \<Rightarrow> es' = es \<and> (\<forall>n. ad_take n \<lparr>it_buf = buf, it_pos = p\<rparr> = Some (map Inr (take n es)))
    | Inl e \<Rightarrow> e = InvalidAd \<and>
        (\<forall>n. ad_take n \<lparr>it_buf = buf, it_pos = p\<rparr> = Some (map Inr (take n es) @ replicate (n - length es) (Inl InvalidAd)))"
proof (induction "length buf - p" arbitrary: p rule: less_induct)
  case less
  let ?n = "unat (buf ! p)"
  consider (over) "length buf \<le> p" | (bad) "p < length buf" "?n = 0 \<or> length buf < p + 1 + ?n"
    | (entry) "p < length buf" "?n \<noteq> 0" "p + 1 + ?n \<le> length buf" by linarith
  then show ?case
  proof cases
    case over
    then show ?thesis by (intro exI [of _ "[]"]) (simp add: ad_take_end)
  next
    case bad
    then have "parse_ad (drop p buf) = Inl InvalidAd" by (auto simp: Let_def simp flip: Cons_nth_drop_Suc)
    then show ?thesis using ad_take_stuck [OF bad] by (intro exI [of _ "[]"]) simp
  next
    case entry
    let ?e = "\<lparr>ad_type = buf ! (p + 1), ad_data = take (?n - 1) (drop (p + 2) buf)\<rparr>"
    have "Suc p < length buf" using entry by linarith
    then have "hd (drop (Suc p) buf) = buf ! (p + 1)" by (simp add: hd_drop_conv_nth)
    moreover have "tl (take ?n (drop (Suc p) buf)) = take (?n - 1) (drop (p + 2) buf)"
      by (simp add: tl_take tl_drop drop_Suc)
    ultimately have p: "parse_ad (drop p buf) = map_sum id ((#) ?e) (parse_ad (drop (p + 1 + ?n) buf))"
      using entry by (subst Cons_nth_drop_Suc [symmetric]) (auto simp: Let_def add.commute)
    obtain es where es: "case parse_ad (drop (p + 1 + ?n) buf) of
        Inr es' \<Rightarrow> es' = es \<and> (\<forall>n. ad_take n \<lparr>it_buf = buf, it_pos = p + 1 + ?n\<rparr> = Some (map Inr (take n es)))
      | Inl e \<Rightarrow> e = InvalidAd \<and>
          (\<forall>n. ad_take n \<lparr>it_buf = buf, it_pos = p + 1 + ?n\<rparr> = Some (map Inr (take n es) @ replicate (n - length es) (Inl InvalidAd)))"
      using less [of "p + 1 + ?n"] entry by (meson diff_less_mono2 less_add_one trans_less_add1)
    have "ad_take n \<lparr>it_buf = buf, it_pos = p\<rparr> = (case n of 0 \<Rightarrow> Some [] | Suc k \<Rightarrow>
        map_option ((#) (Inr ?e)) (ad_take k \<lparr>it_buf = buf, it_pos = p + 1 + ?n\<rparr>))" for n
      using ad_take_entry [OF entry] by (cases n) simp_all
    with es show ?thesis
      unfolding p by (intro exI [of _ "?e # es"]) (auto split: sum.splits nat.splits)
  qed
qed

section \<open>Properties\<close>

text \<open>C35. Advertising data built is read back: \<open>build\<close> never panics; it fails with
  \<open>InvalidLength\<close> only for an entry above 254 bytes and with \<open>BufferTooSmall\<close> only when the
  structures do not fit; and when it succeeds, iterating over the bytes it wrote gives exactly
  the entries, and the rest of the buffer is untouched.\<close>

theorem ad_build_roundtrip:
  "case build es out of
     None \<Rightarrow> False
   | Some (Inr n, out') \<Rightarrow> n \<le> length out \<and> length out' = length out \<and> drop n out' = drop n out \<and>
       ad_entries (ad_iterate (take n out')) = Some (Inr es)
   | Some (Inl e, out') \<Rightarrow>
       e = InvalidLength \<and> (\<exists>x \<in> set es. 254 < length (ad_data x)) \<or>
       e = BufferTooSmall \<and> length out < length (ad_bytes es)"
  using build_loop_spec [of 0 out es] parse_ad_bytes [of es]
  by (auto simp: build_def ad_iterate_def ad_iter_new_def ad_entries_parse list_all_iff
      ad_entry_ok_def simp flip: not_le split: option.splits sum.splits prod.splits)

text \<open>C36. Iterating over advertising data: no call of \<open>next\<close> panics, for any buffer and any number of
  calls. Either the buffer is what \<open>build\<close> makes of some entries, and then the iterator yields
  exactly these and ends; or it is what \<open>build\<close> makes of no entries, and then the iterator yields
  some entries and from there on \<open>InvalidAd\<close> at every further call, without ever ending.\<close>

theorem ad_parse_canonical:
  "\<exists>es. (build es (replicate (length buf) 0) = Some (Inr (length buf), buf) \<and>
        (\<forall>n. ad_take n (ad_iterate buf) = Some (map Inr (take n es)))) \<or>
      ((\<forall>es'. build es' (replicate (length buf) 0) \<noteq> Some (Inr (length buf), buf)) \<and>
        (\<forall>n. ad_take n (ad_iterate buf) = Some (map Inr (take n es) @ replicate (n - length es) (Inl InvalidAd))))"
proof -
  obtain es where es: "case parse_ad buf of
      Inr es' \<Rightarrow> es' = es \<and> (\<forall>n. ad_take n (ad_iterate buf) = Some (map Inr (take n es)))
    | Inl e \<Rightarrow> e = InvalidAd \<and>
        (\<forall>n. ad_take n (ad_iterate buf) = Some (map Inr (take n es) @ replicate (n - length es) (Inl InvalidAd)))"
    using ad_take_run [where p = 0 and buf = buf] unfolding drop_0 ad_iterate_def ad_iter_new_def by blast
  show ?thesis
  proof (cases "parse_ad buf")
    case (Inl e)
    then have "build es' (replicate (length buf) 0) \<noteq> Some (Inr (length buf), buf)" for es'
      using build_loop_spec [of 0 "replicate (length buf) 0" es'] parse_ad_bytes [of es']
      by (auto simp: build_def)
    with es Inl show ?thesis by auto
  next
    case (Inr es')
    with parse_ad_Inr [OF Inr] build_loop_complete [of es' "replicate (length buf) 0"] es show ?thesis
      by (auto simp: build_def)
  qed
qed

text \<open>A single zero octet keeps the iterator busy for ever.\<close>

lemma ad_iter_stuck: "ad_take n (ad_iterate [0]) = Some (replicate n (Inl InvalidAd))"
  using ad_take_stuck [of 0 "[0]" n] by (simp add: ad_iterate_def ad_iter_new_def)

text \<open>The flags octet has one bit per argument.\<close>

lemma ad_flags_value_bits:
  "bit (ad_flags_value g l b) 0 = l" "bit (ad_flags_value g l b) 1 = g" "bit (ad_flags_value g l b) 2 = b"
  "ad_flags_value g l b < 8"
  by (cases g; cases l; cases b; simp add: ad_flags_value_def AD_FLAG_LE_LIMITED_DISCOVERABLE_def
      AD_FLAG_LE_GENERAL_DISCOVERABLE_def AD_FLAG_BR_EDR_NOT_SUPPORTED_def)+

end
