(* ===== verification/Event_Queue.thy ===== *)
theory Event_Queue
  imports Ble_Prelude
begin

text \<open>The event rings of \<open>Ble\<close> (\<^verbatim>\<open>src/hw/ble.rs\<close>, eight slots) and \<open>Hci\<close>
  (\<^verbatim>\<open>src/hci.rs\<close>, sixteen slots): the same pair of operations over a different event type
  and length. The number of slots is the length of the slot list. The interface of a bounded
  first-in first-out queue is the locale \<open>event_queue\<close>.\<close>

section \<open>Model\<close>

record 'a ring =
  rg_slots :: "'a option list"
  rg_head :: nat
  rg_tail :: nat

definition ring_new :: "nat \<Rightarrow> 'a ring" where
  "ring_new n = \<lparr>rg_slots = replicate n None, rg_head = 0, rg_tail = 0\<rparr>"

definition push_event :: "'a ring \<Rightarrow> 'a \<Rightarrow> 'a ring" where
  "push_event s evt =
     (let n = length (rg_slots s);
          nxt = (rg_head s + 1) mod n;
          s = (if nxt = rg_tail s then s\<lparr>rg_tail := (rg_tail s + 1) mod n\<rparr> else s)
      in s\<lparr>rg_slots := (rg_slots s)[rg_head s := Some evt], rg_head := nxt\<rparr>)"

definition next_event :: "'a ring \<Rightarrow> 'a option \<times> 'a ring" where
  "next_event s =
     (let evt = rg_slots s ! rg_tail s;
          s = s\<lparr>rg_slots := (rg_slots s)[rg_tail s := None]\<rparr>
      in (evt, if evt \<noteq> None then s\<lparr>rg_tail := (rg_tail s + 1) mod length (rg_slots s)\<rparr> else s))"

text \<open>\<open>while let Some(evt) = self.next_event()\<close>, as a function of the number of rounds: a round
  empties a slot, so there are at most as many rounds as slots (\<open>drain_run\<close>).\<close>

fun drain :: "nat \<Rightarrow> 'a ring \<Rightarrow> 'a list \<times> 'a ring" where
  "drain 0 s = ([], s)"
| "drain (Suc k) s =
     (case next_event s of
        (None, s') \<Rightarrow> ([], s')
      | (Some evt, s') \<Rightarrow> (let (evts, s'') = drain k s' in (evt # evts, s'')))"

text \<open>Scripts of pushes and pops: \<open>run_ops\<close> collects what the pops return, and \<open>run_list\<close> is the
  same script on a list queue, \<open>None\<close> when a push would exceed the capacity.\<close>

datatype 'a ring_op = Push 'a | Pop

fun run_ops :: "('q \<Rightarrow> 'a \<Rightarrow> 'q) \<Rightarrow> ('q \<Rightarrow> 'a option \<times> 'q) \<Rightarrow> 'q \<Rightarrow> 'a ring_op list \<Rightarrow> 'a option list" where
  "run_ops psh pp q [] = []"
| "run_ops psh pp q (Push x # ops) = run_ops psh pp (psh q x) ops"
| "run_ops psh pp q (Pop # ops) = (let (r, q') = pp q in r # run_ops psh pp q' ops)"

fun run_list :: "nat \<Rightarrow> 'a list \<Rightarrow> 'a ring_op list \<Rightarrow> 'a option list option" where
  "run_list cap xs [] = Some []"
| "run_list cap xs (Push x # ops) = (if length xs < cap then run_list cap (xs @ [x]) ops else None)"
| "run_list cap [] (Pop # ops) = map_option ((#) None) (run_list cap [] ops)"
| "run_list cap (x # xs) (Pop # ops) = map_option ((#) (Some x)) (run_list cap xs ops)"

section \<open>The interface of a bounded queue\<close>

locale event_queue =
  fixes new :: 'q
    and push :: "'q \<Rightarrow> 'a \<Rightarrow> 'q"
    and pop :: "'q \<Rightarrow> 'a option \<times> 'q"
    and invar :: "'q \<Rightarrow> bool"
    and items :: "'q \<Rightarrow> 'a list"
    and capacity :: nat
  assumes invar_new: "invar new" and items_new: "items new = []"
    and invar_push: "invar q \<Longrightarrow> length (items q) < capacity \<Longrightarrow> invar (push q x)"
    and items_push: "invar q \<Longrightarrow> length (items q) < capacity \<Longrightarrow> items (push q x) = items q @ [x]"
    and invar_pop: "invar q \<Longrightarrow> invar (snd (pop q))"
    and items_pop: "invar q \<Longrightarrow> items (snd (pop q)) = tl (items q)"
    and fst_pop: "invar q \<Longrightarrow> fst (pop q) = (case items q of [] \<Rightarrow> None | x # xs \<Rightarrow> Some x)"
begin

lemma run_simulates:
  "invar q \<Longrightarrow> run_list capacity (items q) ops = Some outs \<Longrightarrow> run_ops push pop q ops = outs"
proof (induction ops arbitrary: q outs)
  case (Cons op ops)
  show ?case
  proof (cases op)
    case (Push x)
    with Cons.prems Cons.IH [of "push q x"] show ?thesis
      by (auto simp: invar_push items_push split: if_splits)
  next
    case Pop
    with Cons.prems Cons.IH [of "snd (pop q)"] show ?thesis
      by (cases "items q") (auto simp: invar_pop items_pop fst_pop case_prod_beta)
  qed
qed simp

end

section \<open>The ring without overflow\<close>

definition ring_count :: "'a ring \<Rightarrow> nat" where
  "ring_count s = (rg_head s + length (rg_slots s) - rg_tail s) mod length (rg_slots s)"

definition slot :: "'a ring \<Rightarrow> nat \<Rightarrow> 'a option" where
  "slot s i = rg_slots s ! ((rg_tail s + i) mod length (rg_slots s))"

definition ring_wf :: "nat \<Rightarrow> 'a ring \<Rightarrow> bool" where
  "ring_wf n s \<longleftrightarrow> 2 \<le> n \<and> length (rg_slots s) = n \<and> rg_head s < n \<and> rg_tail s < n"

definition ring_ok :: "nat \<Rightarrow> 'a ring \<Rightarrow> bool" where
  "ring_ok n s \<longleftrightarrow> ring_wf n s \<and> (\<forall>i < n. slot s i \<noteq> None \<longleftrightarrow> i < ring_count s)"

definition ring_items :: "'a ring \<Rightarrow> 'a list" where
  "ring_items s = map (\<lambda>i. the (slot s i)) [0..<ring_count s]"

lemma mod_shift_eq:
  fixes t :: nat
  assumes "i < n" "j < n"
  shows "(t + i) mod n = (t + j) mod n \<longleftrightarrow> i = j"
proof -
  have "a = b" if "a \<le> b" "b < n" "(t + a) mod n = (t + b) mod n" for a b
    using that mod_eq_dvd_iff_nat [of "t + a" "t + b" n] by (auto dest!: dvd_imp_le)
  from this [of i j] this [of j i] assms show ?thesis by (metis nat_le_linear)
qed

lemma ring_head_pos:
  assumes "ring_wf n s"
  shows "rg_head s = (rg_tail s + ring_count s) mod n" and "ring_count s < n"
proof -
  have "(rg_tail s + (rg_head s + n - rg_tail s)) mod n = (rg_head s + n) mod n"
    using assms by (simp add: ring_wf_def)
  then show "rg_head s = (rg_tail s + ring_count s) mod n"
    using assms by (simp add: ring_wf_def ring_count_def mod_add_right_eq)
  show "ring_count s < n"
    using assms by (simp add: ring_wf_def ring_count_def)
qed

lemma ring_countI:
  assumes "ring_wf n s" and "rg_head s = (rg_tail s + c) mod n" and "c < n"
  shows "ring_count s = c"
  using mod_shift_eq [of "ring_count s" n c "rg_tail s"] ring_head_pos [OF assms(1)] assms(2,3) by simp

lemma push_cases:
  assumes "ring_wf n s"
  shows "push_event s x =
    (let h = (rg_tail s + ring_count s) mod n in
     \<lparr>rg_slots = (rg_slots s)[h := Some x], rg_head = (rg_tail s + Suc (ring_count s)) mod n,
      rg_tail = (if Suc (ring_count s) = n then (rg_tail s + 1) mod n else rg_tail s)\<rparr>)"
proof -
  have h: "rg_head s = (rg_tail s + ring_count s) mod n" and c: "ring_count s < n"
    using ring_head_pos [OF assms] by auto
  have nxt: "(rg_head s + 1) mod n = (rg_tail s + Suc (ring_count s)) mod n"
    by (simp add: h mod_Suc_eq)
  have "(rg_tail s + Suc (ring_count s)) mod n = rg_tail s \<longleftrightarrow> Suc (ring_count s) = n"
  proof (cases "Suc (ring_count s) = n")
    case False
    then show ?thesis
      using mod_shift_eq [of "Suc (ring_count s)" n 0 "rg_tail s"] c assms by (simp add: ring_wf_def)
  qed (use assms in \<open>auto simp: ring_wf_def\<close>)
  then show ?thesis
    using assms nxt by (simp add: push_event_def Let_def ring_wf_def h [symmetric])
qed

lemma push_wf: "ring_wf n s \<Longrightarrow> ring_wf n (push_event s x)"
  by (auto simp: push_cases Let_def) (auto simp: ring_wf_def)

lemma slot_push:
  assumes "ring_wf n s" and "Suc (ring_count s) < n"
  shows "i < n \<Longrightarrow> slot (push_event s x) i = (if i = ring_count s then Some x else slot s i)"
    and "ring_count (push_event s x) = Suc (ring_count s)"
proof -
  have n: "length (rg_slots s) = n" "rg_tail s < n" using assms by (simp_all add: ring_wf_def)
  show "slot (push_event s x) i = (if i = ring_count s then Some x else slot s i)" if "i < n"
    using assms that n mod_shift_eq [of i n "ring_count s" "rg_tail s"]
    by (auto simp: push_cases [OF assms(1)] Let_def slot_def nth_list_update)
  show "ring_count (push_event s x) = Suc (ring_count s)"
    by (rule ring_countI [OF push_wf [OF assms(1)]])
      (use assms in \<open>auto simp: push_cases [OF assms(1)] Let_def\<close>)
qed

lemma slot_push_overflow:
  assumes "ring_wf n s" and "Suc (ring_count s) = n"
  shows "i < n \<Longrightarrow> slot (push_event s x) i = (if Suc (Suc i) = n then Some x else slot s (Suc i mod n))"
    and "ring_count (push_event s x) = ring_count s"
proof -
  have n: "length (rg_slots s) = n" "rg_tail s < n" "2 \<le> n" using assms by (simp_all add: ring_wf_def)
  show "slot (push_event s x) i = (if Suc (Suc i) = n then Some x else slot s (Suc i mod n))" if "i < n"
  proof -
    have "(rg_tail s + Suc i mod n) mod n = (rg_tail s + ring_count s) mod n \<longleftrightarrow> Suc i mod n = ring_count s"
      by (rule mod_shift_eq) (use n assms in auto)
    moreover have "Suc i mod n = ring_count s \<longleftrightarrow> Suc (Suc i) = n"
      using that assms(2) n(3) by (cases "Suc i = n") auto
    ultimately show ?thesis
      using assms that n by (auto simp: push_cases [OF assms(1)] Let_def slot_def nth_list_update mod_simps)
  qed
  show "ring_count (push_event s x) = ring_count s"
  proof (rule ring_countI [OF push_wf [OF assms(1)]])
    have "(Suc (rg_tail s) mod n + ring_count s) mod n = (rg_tail s + Suc (ring_count s)) mod n"
      by (simp add: mod_simps)
    then show "rg_head (push_event s x) = (rg_tail (push_event s x) + ring_count s) mod n"
      using assms by (simp add: push_cases [OF assms(1)] Let_def)
  qed (use assms in auto)
qed

lemma pop_empty: "ring_wf n s \<Longrightarrow> slot s 0 = None \<Longrightarrow> next_event s = (None, s)"
  by (simp add: ring_wf_def slot_def next_event_def Let_def list_update_same_conv)

lemma slot_pop:
  assumes "ring_wf n s" and "slot s 0 = Some x"
  shows "i < n \<Longrightarrow> slot (snd (next_event s)) i = (if Suc i = n then None else slot s (Suc i))"
    and "ring_wf n (snd (next_event s))" and "fst (next_event s) = Some x"
    and "0 < ring_count s \<Longrightarrow> ring_count (snd (next_event s)) = ring_count s - 1"
proof -
  have n: "length (rg_slots s) = n" "rg_tail s < n" "rg_head s < n" "2 \<le> n"
    using assms by (simp_all add: ring_wf_def)
  have pop: "next_event s = (Some x, s\<lparr>rg_slots := (rg_slots s)[rg_tail s := None], rg_tail := Suc (rg_tail s) mod n\<rparr>)"
    using assms(2) n by (simp add: next_event_def slot_def Let_def)
  then show "fst (next_event s) = Some x" by simp
  show wf: "ring_wf n (snd (next_event s))" using n by (simp add: pop ring_wf_def)
  show "slot (snd (next_event s)) i = (if Suc i = n then None else slot s (Suc i))" if "i < n"
  proof -
    have "(rg_tail s + Suc i mod n) mod n = (rg_tail s + 0) mod n \<longleftrightarrow> Suc i mod n = 0"
      by (rule mod_shift_eq) (use n in auto)
    moreover have "Suc i mod n = 0 \<longleftrightarrow> Suc i = n"
      using that by (cases "Suc i = n") auto
    ultimately show ?thesis
      using that n by (auto simp: pop slot_def nth_list_update mod_simps)
  qed
  show "ring_count (snd (next_event s)) = ring_count s - 1" if pos: "0 < ring_count s"
  proof (rule ring_countI [OF wf])
    obtain c where c: "ring_count s = Suc c" using pos by (cases "ring_count s") auto
    then have "(Suc (rg_tail s) mod n + (ring_count s - 1)) mod n = (rg_tail s + ring_count s) mod n"
      by (simp add: mod_simps)
    then show "rg_head (snd (next_event s)) = (rg_tail (snd (next_event s)) + (ring_count s - 1)) mod n"
      using ring_head_pos [OF assms(1)] by (simp add: pop)
  qed (use ring_head_pos [OF assms(1)] in auto)
qed

lemma items_conv: "ring_items s = xs \<longleftrightarrow> length xs = ring_count s \<and> (\<forall>i < length xs. the (slot s i) = xs ! i)"
  by (auto simp: ring_items_def list_eq_iff_nth_eq)

lemma ring_new_ok: "2 \<le> n \<Longrightarrow> ring_ok n (ring_new n)" and ring_new_items: "ring_items (ring_new n) = []"
  by (auto simp: ring_ok_def ring_wf_def ring_new_def slot_def ring_count_def ring_items_def)

lemma ring_ok_push:
  assumes "ring_ok n s" and "length (ring_items s) < n - 1"
  shows "ring_ok n (push_event s x)" and "ring_items (push_event s x) = ring_items s @ [x]"
proof -
  have wf: "ring_wf n s" and c: "Suc (ring_count s) < n"
    using assms by (auto simp: ring_ok_def ring_items_def)
  note push = slot_push [OF wf c]
  show "ring_ok n (push_event s x)"
    using assms(1) push push_wf [OF wf] by (auto simp: ring_ok_def)
  show "ring_items (push_event s x) = ring_items s @ [x]"
    unfolding items_conv using push c by (simp add: ring_items_def nth_append)
qed

lemma ring_ok_pop:
  assumes "ring_ok n s"
  shows "ring_ok n (snd (next_event s))" and "ring_items (snd (next_event s)) = tl (ring_items s)"
    and "fst (next_event s) = (case ring_items s of [] \<Rightarrow> None | x # xs \<Rightarrow> Some x)"
proof -
  have wf: "ring_wf n s" and pos: "0 < n" using assms by (auto simp: ring_ok_def ring_wf_def)
  have cn: "ring_count s < n" using ring_head_pos [OF wf] by simp
  have "ring_ok n (snd (next_event s)) \<and> ring_items (snd (next_event s)) = tl (ring_items s) \<and>
    fst (next_event s) = (case ring_items s of [] \<Rightarrow> None | x # xs \<Rightarrow> Some x)"
  proof (cases "slot s 0")
    case None
    then have "ring_count s = 0" using assms pos by (auto simp: ring_ok_def)
    then show ?thesis using assms pop_empty [OF wf None] by (simp add: ring_items_def)
  next
    case (Some x)
    then have c: "0 < ring_count s" using assms pos by (auto simp: ring_ok_def)
    note pop = slot_pop [OF wf Some]
    have "ring_items s = x # map (\<lambda>i. the (slot s (Suc i))) [0..<ring_count s - 1]"
      unfolding items_conv using Some c by (auto simp: nth_Cons')
    moreover have "ring_items (snd (next_event s)) = map (\<lambda>i. the (slot s (Suc i))) [0..<ring_count s - 1]"
      unfolding items_conv using pop c cn by auto
    moreover have "ring_ok n (snd (next_event s))"
      using assms pop c cn by (auto simp: ring_ok_def)
    ultimately show ?thesis using pop(3) by simp
  qed
  then show "ring_ok n (snd (next_event s))" "ring_items (snd (next_event s)) = tl (ring_items s)"
    "fst (next_event s) = (case ring_items s of [] \<Rightarrow> None | x # xs \<Rightarrow> Some x)" by auto
qed

interpretation hci_queue: event_queue "ring_new 16" push_event next_event "ring_ok 16" ring_items 15
  by unfold_locales (auto simp: ring_new_ok ring_new_items ring_ok_push [of 16, simplified] ring_ok_pop)

interpretation ble_queue: event_queue "ring_new 8" push_event next_event "ring_ok 8" ring_items 7
  by unfold_locales (auto simp: ring_new_ok ring_new_items ring_ok_push [of 8, simplified] ring_ok_pop)

section \<open>The ring with overflow\<close>

text \<open>\<open>ring_full n xs s\<close>: every slot is occupied, \<open>xs\<close> being the slots from the tail on; the last
  of them, in the slot that the head points to, is the event that an overflow has skipped.\<close>

definition ring_full :: "nat \<Rightarrow> 'a list \<Rightarrow> 'a ring \<Rightarrow> bool" where
  "ring_full n xs s \<longleftrightarrow> ring_wf n s \<and> length xs = n \<and> Suc (ring_count s) = n \<and> (\<forall>i < n. slot s i = Some (xs ! i))"

lemma overflow_step:
  assumes "ring_wf n s" and "length xs = n - 1" and "\<forall>i < n - 1. slot s i = Some (xs ! i)" and "Suc (ring_count s) = n"
  shows "ring_full n (tl xs @ [x, hd xs]) (push_event s x)"
proof -
  have n: "2 \<le> n" using assms(1) by (simp add: ring_wf_def)
  note push = slot_push_overflow [OF assms(1,4)]
  have "slot (push_event s x) i = Some ((tl xs @ [x, hd xs]) ! i)" if i: "i < n" for i
  proof -
    consider "Suc (Suc i) < n" | "Suc (Suc i) = n" | "Suc i = n"
      using i by linarith
    then show ?thesis
      using push(1) [OF i] assms(2,3) n
      by cases (auto simp: nth_append nth_tl hd_conv_nth simp flip: length_greater_0_conv)
  qed
  then show ?thesis
    using push push_wf [OF assms(1)] assms(2,4) n by (simp add: ring_full_def)
qed

lemma overflow_from_ok:
  assumes "ring_ok n s" and "length (ring_items s) = n - 1"
  shows "ring_full n (tl (ring_items s) @ [x, hd (ring_items s)]) (push_event s x)"
proof (rule overflow_step)
  show "\<forall>i < n - 1. slot s i = Some (ring_items s ! i)"
    using assms by (auto simp: ring_ok_def ring_items_def)
qed (use assms in \<open>auto simp: ring_ok_def ring_items_def ring_wf_def\<close>)

lemma overflow_from_full:
  assumes "ring_full n (xs @ [y]) s"
  shows "ring_full n (tl xs @ [x, hd xs]) (push_event s x)"
  using assms by (intro overflow_step) (auto simp: ring_full_def nth_append)

lemma drain_run:
  assumes "ring_wf n s" and "length xs < k" and "length xs \<le> n" and "\<forall>i < length xs. slot s i = Some (xs ! i)"
    and "length xs < n \<Longrightarrow> slot s (length xs) = None"
  shows "fst (drain k s) = xs"
  using assms
proof (induction xs arbitrary: s k)
  case Nil
  then have "next_event s = (None, s)" by (intro pop_empty [of n]) (auto simp: ring_wf_def)
  with Nil show ?case by (cases k) auto
next
  case (Cons x xs)
  then obtain k' where k: "k = Suc k'" by (cases k) auto
  from Cons.prems have x: "slot s 0 = Some x" by force
  note pop = slot_pop [OF Cons.prems(1) x]
  have "fst (drain k' (snd (next_event s))) = xs"
  proof (rule Cons.IH)
    show "\<forall>i < length xs. slot (snd (next_event s)) i = Some (xs ! i)"
      using Cons.prems(3,4) pop(1) by auto
    show "slot (snd (next_event s)) (length xs) = None" if "length xs < n"
      using that Cons.prems(5) pop(1) by auto
  qed (use Cons.prems k pop in auto)
  with pop(3) k show ?case by (cases "next_event s") (auto simp: case_prod_beta)
qed

lemma push_all_overflow:
  assumes "2 \<le> n"
  shows "if length xs < n then ring_ok n (foldl push_event (ring_new n) xs) \<and>
      ring_items (foldl push_event (ring_new n) xs) = xs
    else ring_full n (drop (length xs + 1 - n) xs @ [xs ! (length xs - n)]) (foldl push_event (ring_new n) xs)"
proof (induction xs rule: rev_induct)
  case Nil
  then show ?case using assms by (simp add: ring_new_ok ring_new_items)
next
  case (snoc x xs)
  let ?s = "foldl push_event (ring_new n) xs"
  consider "Suc (length xs) < n" | "Suc (length xs) = n" | "n \<le> length xs" by linarith
  then show ?case
  proof cases
    case 1
    with snoc show ?thesis using ring_ok_push [of n ?s x] by simp
  next
    case 2
    with snoc have "ring_full n (tl xs @ [x, hd xs]) (push_event ?s x)"
      using overflow_from_ok [of n ?s x] by simp
    moreover have "xs \<noteq> []" using 2 assms by auto
    ultimately show ?thesis using 2 by (cases xs) (auto simp: nth_append)
  next
    case 3
    let ?us = "drop (length xs + 1 - n) xs"
    from 3 snoc have "ring_full n (tl ?us @ [x, hd ?us]) (push_event ?s x)"
      using overflow_from_full [of n ?us _ ?s x] by simp
    moreover have "hd ?us = xs ! (length xs + 1 - n)"
      using 3 assms by (intro hd_drop_conv_nth) simp
    moreover have "tl ?us @ [x] = drop (Suc (Suc (length xs) - n)) (xs @ [x])"
      using 3 assms by (simp add: drop_Suc tl_drop Suc_diff_le)
    moreover have "Suc (length xs - n) < length xs" using 3 assms by linarith
    ultimately show ?thesis
      using 3 assms by (simp add: Suc_diff_le nth_append)
  qed
qed

section \<open>Properties\<close>

text \<open>C24. Within its capacity the event ring is a first-in first-out queue: for every
  interleaving of pushes and pops in which at most seven events (fifteen, for the HCI ring)
  are pending at a time, every pop returns what a list queue returns.\<close>

theorem ring_fifo:
  "(run_list 7 [] ops = Some outs \<longrightarrow> run_ops push_event next_event (ring_new 8) ops = outs) \<and>
   (run_list 15 [] ops = Some outs \<longrightarrow> run_ops push_event next_event (ring_new 16) ops = outs)"
  using ble_queue.run_simulates [OF ble_queue.invar_new, of ops outs]
    hci_queue.run_simulates [OF hci_queue.invar_new, of ops outs]
  by (simp add: ring_new_items)

theorem ring_fifo_witness:
  "run_ops push_event next_event (ring_new 8) [Push 1, Push 2, Pop, Push 3, Pop, Pop, Pop] = [Some 1, Some 2, Some (3 :: nat), None]"
  using ring_fifo [of "[Push 1, Push 2, Pop, Push 3, Pop, Pop, Pop]" "[Some 1, Some 2, Some (3 :: nat), None]"]
  by simp

text \<open>C38. What an overflow does: after pushing \<open>n\<close> or more events onto a ring of \<open>n\<close> slots, a
  drain returns the last \<open>n - 1\<close> of them in order, and then, out of order, the one before
  them, which the overflow skipped without clearing its slot: \<open>n\<close> events in all.\<close>

theorem ring_overflow:
  assumes "2 \<le> n" and "n \<le> length xs"
  shows "fst (drain (Suc n) (foldl push_event (ring_new n) xs)) =
    drop (length xs + 1 - n) xs @ [xs ! (length xs - n)]"
proof (rule drain_run [of n])
  have full: "ring_full n (drop (length xs + 1 - n) xs @ [xs ! (length xs - n)]) (foldl push_event (ring_new n) xs)"
    using push_all_overflow [OF assms(1), of xs] assms(2) by simp
  then show "ring_wf n (foldl push_event (ring_new n) xs)"
    "\<forall>i < length (drop (length xs + 1 - n) xs @ [xs ! (length xs - n)]).
       slot (foldl push_event (ring_new n) xs) i = Some ((drop (length xs + 1 - n) xs @ [xs ! (length xs - n)]) ! i)"
    by (simp_all add: ring_full_def)
qed (use assms in auto)

theorem ring_overflow_witness:
  "fst (drain 5 (foldl push_event (ring_new 4) [1, 2, 3, 4, 5, 6 :: nat])) = [4, 5, 6, 3]"
  using ring_overflow [of 4 "[1, 2, 3, 4, 5, 6 :: nat]"] by (simp add: numeral_eq_Suc)

text \<open>After an overflow and a full drain the head no longer equals the tail: an event pushed
  then is not the next event, and is not delivered until the ring has wrapped around to it.\<close>

lemma lost_event_after_overflow:
  "fst (next_event (push_event (snd (drain 5 (foldl push_event (ring_new 4) [1, 2, 3, 4 :: nat]))) 5)) = None"
  by code_simp

end
