(* ===== verification/Ble_State.thy ===== *)
theory Ble_State
  imports Conn_Link Addr Ad Event_Queue
begin

text \<open>
  The state of the stack object \<open>Ble\<close> of \<^verbatim>\<open>src/hw/ble.rs\<close>, its parameters and events, and the
  operations of the GAP interface that do not use the radio. RADIO and TIMER0, which \<open>Ble\<close>
  owns, are the \<open>world\<close> of \<open>Peripherals\<close>, passed beside it.
\<close>

section \<open>Parameters and events\<close>

definition EVENT_QUEUE_LEN :: nat where "EVENT_QUEUE_LEN = 8"
definition RX_PDU_MAX :: nat where "RX_PDU_MAX = 2 + 255"
definition SCAN_REQ_WINDOW_MICROS :: u32 where "SCAN_REQ_WINDOW_MICROS = 300"
definition CONNECT_REQ_WINDOW_MICROS :: u32 where "CONNECT_REQ_WINDOW_MICROS = 90000"

datatype adv_type = ConnectableUndirected | ConnectableDirected | ScannableUndirected | NonConnectableUndirected

datatype filter_policy = AcceptAll | AcceptList

record adv_params =
  ap_interval_min :: u16
  ap_interval_max :: u16
  ap_adv_type :: adv_type
  ap_own_addr_type :: addr_type
  ap_peer_addr :: "bytes option"
  ap_channel_map :: u8
  ap_extended :: bool
  ap_periodic :: bool
  ap_periodic_interval :: u16

definition adv_params_default :: adv_params where
  "adv_params_default =
     \<lparr>ap_interval_min = 160, ap_interval_max = 160, ap_adv_type = ConnectableUndirected,
      ap_own_addr_type = Public, ap_peer_addr = None, ap_channel_map = 7, ap_extended = False,
      ap_periodic = False, ap_periodic_interval = 100\<rparr>"

record scan_params =
  sp_active :: bool
  sp_interval :: u16
  sp_window :: u16
  sp_own_addr_type :: addr_type
  sp_filter_policy :: filter_policy

definition scan_params_default :: scan_params where
  "scan_params_default =
     \<lparr>sp_active = False, sp_interval = 80, sp_window = 40, sp_own_addr_type = Public,
      sp_filter_policy = AcceptAll\<rparr>"

datatype ble_event =
    AdvStarted
  | AdvStopped
  | ScanStarted
  | ScanStopped
  | ScanReqReceived bytes
  | ConnectReqReceived bytes connect_req_data
  | Connected connect_req_data
  | Disconnected disconnect_reason
  | ConnData
  | LlControl u8
  | L2cap u16
  | PeriodicAdvReceived bytes u8
  | PeriodicSynced u8 u16
  | ScanReport bytes addr_type u8 u8 bytes nat

datatype adv_state = AdvIdle | AdvRunning | AdvStopPending

datatype scan_state = ScanIdle | ScanRunning | ScanStopPending

section \<open>The stack object\<close>

record ble =
  bl_adv_accum :: interval_accum
  bl_scan_accum :: interval_accum
  bl_adv_state :: adv_state
  bl_scan_state :: scan_state
  bl_adv_params :: adv_params
  bl_scan_params :: scan_params
  bl_adv_data :: bytes
  bl_adv_data_len :: nat
  bl_scan_rsp :: bytes
  bl_scan_rsp_len :: nat
  bl_own_addr :: bytes
  bl_own_addr_type :: addr_type
  bl_adv_channel_idx :: nat
  bl_scan_channel_idx :: nat
  bl_scan_cycle_start :: u32
  bl_conn :: "conn option"
  bl_connect_target :: "bytes option"
  bl_connect_target_type :: addr_type
  bl_last_radio_channel :: "u8 option"
  bl_accept_list :: accept_list
  bl_irk :: "bytes option"
  bl_periodic_sync :: "periodic_sync option"
  bl_tx_buf :: bytes
  bl_tx_pdu_len :: nat
  bl_rx_buf :: bytes
  bl_rx_pdu_len :: nat
  bl_events :: "ble_event ring"

definition ble_new :: "world \<Rightarrow> ble \<times> world" where
  "ble_new w =
     (\<lparr>bl_adv_accum = accum_new, bl_scan_accum = accum_new, bl_adv_state = AdvIdle, bl_scan_state = ScanIdle,
       bl_adv_params = adv_params_default, bl_scan_params = scan_params_default,
       bl_adv_data = replicate LEGACY_AD_DATA_MAX_LEN 0, bl_adv_data_len = 0,
       bl_scan_rsp = replicate LEGACY_AD_DATA_MAX_LEN 0, bl_scan_rsp_len = 0,
       bl_own_addr = replicate 6 0, bl_own_addr_type = Public, bl_adv_channel_idx = 0, bl_scan_channel_idx = 0,
       bl_scan_cycle_start = 0, bl_conn = None, bl_connect_target = None, bl_connect_target_type = Public,
       bl_last_radio_channel = None, bl_accept_list = al_new, bl_irk = None, bl_periodic_sync = None,
       bl_tx_buf = replicate RX_PDU_MAX 0, bl_tx_pdu_len = 0, bl_rx_buf = replicate RX_PDU_MAX 0,
       bl_rx_pdu_len = 0, bl_events = ring_new EVENT_QUEUE_LEN\<rparr>,
      timer_init (radio_init w))"

text \<open>\<open>push_event\<close> and \<open>next_event\<close> on the ring of the stack object.\<close>

definition ble_push :: "ble_event \<Rightarrow> ble \<Rightarrow> ble" where
  "ble_push evt b = b\<lparr>bl_events := push_event (bl_events b) evt\<rparr>"

definition ble_next_event :: "ble \<Rightarrow> ble_event option \<times> ble" where
  "ble_next_event b = (let (evt, q) = next_event (bl_events b) in (evt, b\<lparr>bl_events := q\<rparr>))"

section \<open>Configuration\<close>

definition gap_address_set :: "bytes \<Rightarrow> addr_type \<Rightarrow> ble \<Rightarrow> ble" where
  "gap_address_set addr t b = b\<lparr>bl_own_addr := addr, bl_own_addr_type := t\<rparr>"

definition gap_adv_set_configure :: "bytes \<Rightarrow> bytes \<Rightarrow> ble \<Rightarrow> (error + unit) \<times> ble" where
  "gap_adv_set_configure adv_data scan_rsp_data b =
     (if length adv_data > LEGACY_AD_DATA_MAX_LEN \<or> length scan_rsp_data > LEGACY_AD_DATA_MAX_LEN
      then (Inl InvalidLength, b)
      else (Inr (), b\<lparr>bl_adv_data := set_prefix (bl_adv_data b) adv_data, bl_adv_data_len := length adv_data,
                      bl_scan_rsp := set_prefix (bl_scan_rsp b) scan_rsp_data,
                      bl_scan_rsp_len := length scan_rsp_data\<rparr>))"

definition gap_bond_save :: "bytes \<Rightarrow> bytes \<Rightarrow> bytes option \<Rightarrow> ble \<Rightarrow> ble" where
  "gap_bond_save peer ltk irk b =
     (case bl_conn b of
        Some c \<Rightarrow> b\<lparr>bl_conn := Some (c\<lparr>cn_bond_store := ram_save (cn_bond_store c) peer ltk irk\<rparr>)\<rparr>
      | None \<Rightarrow> b)"

definition gap_bond_find :: "bytes \<Rightarrow> ble \<Rightarrow> bond_info option" where
  "gap_bond_find peer b = (case bl_conn b of Some c \<Rightarrow> ram_find (cn_bond_store c) peer | None \<Rightarrow> None)"

definition gap_accept_list_add :: "bytes \<Rightarrow> addr_type \<Rightarrow> ble \<Rightarrow> bool \<times> ble" where
  "gap_accept_list_add addr t b =
     (let (added, l) = al_add (bl_accept_list b) addr t in (added, b\<lparr>bl_accept_list := l\<rparr>))"

definition gap_accept_list_clear :: "ble \<Rightarrow> ble" where
  "gap_accept_list_clear b = b\<lparr>bl_accept_list := al_clear (bl_accept_list b)\<rparr>"

definition gap_accept_list_len :: "ble \<Rightarrow> nat" where
  "gap_accept_list_len b = al_len (bl_accept_list b)"

definition gap_privacy_set :: "bytes \<Rightarrow> ble \<Rightarrow> ble" where
  "gap_privacy_set irk b = b\<lparr>bl_irk := Some irk\<rparr>"

definition gap_rotate_rpa :: "block_cipher \<Rightarrow> ble \<times> world \<Rightarrow> (bool \<times> ble \<times> world) option" where
  "gap_rotate_rpa aes bw =
     (case bw of (b, w) \<Rightarrow>
      case bl_irk b of
        None \<Rightarrow> Some (False, b, w)
      | Some irk \<Rightarrow> do {
          (t, w) \<leftarrow> timer_now w;
          let prand = t AND 0x00FFFFFF;
          Some (True, b\<lparr>bl_own_addr := generate_rpa aes irk prand, bl_own_addr_type := RandomPrivateResolvable\<rparr>, w)
        })"

definition gap_tx_power_set :: "tx_power \<Rightarrow> world \<Rightarrow> world" where
  "gap_tx_power_set p w = set_tx_power p w"

definition adv_pdu_snapshot :: "ble \<Rightarrow> bytes option" where
  "adv_pdu_snapshot b = slice (bl_tx_buf b) 0 (bl_tx_pdu_len b)"

section \<open>Starting and stopping\<close>

definition gap_adv_start :: "adv_params \<Rightarrow> ble \<times> world \<Rightarrow> ((error + unit) \<times> ble \<times> world) option" where
  "gap_adv_start params bw =
     (case bw of (b, w) \<Rightarrow>
      if bl_adv_state b \<noteq> AdvIdle then Some (Inl AlreadyRunning, b, w)
      else if ap_interval_min params < 32 \<or> ap_interval_min params > 16384 then Some (Inl InvalidParam, b, w)
      else if ap_interval_max params < ap_interval_min params then Some (Inl InvalidParam, b, w)
      else if ap_channel_map params AND 7 = 0 then Some (Inl InvalidParam, b, w)
      else if ap_adv_type params = ConnectableDirected \<and> ap_peer_addr params = None then Some (Inl InvalidParam, b, w)
      else do {
        let b = b\<lparr>bl_adv_params := params, bl_own_addr_type := ap_own_addr_type params, bl_adv_channel_idx := 0\<rparr>;
        let (ticks, accum) = accum_next accum_new (ap_interval_min params);
        let b = b\<lparr>bl_adv_accum := accum\<rparr>;
        (t, w) \<leftarrow> timer_now w;
        let w = set_compare (t + ticks) w;
        let b = b\<lparr>bl_adv_state := AdvRunning\<rparr>;
        Some (Inr (), ble_push AdvStarted b, w)
      })"

definition gap_adv_stop :: "ble \<Rightarrow> (error + unit) \<times> ble" where
  "gap_adv_stop b =
     (case bl_adv_state b of
        AdvRunning \<Rightarrow> (Inr (), b\<lparr>bl_adv_state := AdvStopPending\<rparr>)
      | AdvStopPending \<Rightarrow> (Inr (), b)
      | AdvIdle \<Rightarrow> (Inl NotRunning, b))"

definition gap_scan_start :: "scan_params \<Rightarrow> ble \<times> world \<Rightarrow> ((error + unit) \<times> ble \<times> world) option" where
  "gap_scan_start params bw =
     (case bw of (b, w) \<Rightarrow>
      if bl_scan_state b \<noteq> ScanIdle then Some (Inl AlreadyRunning, b, w)
      else if sp_interval params < 4 \<or> sp_interval params > 16384 then Some (Inl InvalidParam, b, w)
      else if sp_window params < 4 \<or> sp_window params > 16384 then Some (Inl InvalidParam, b, w)
      else if sp_window params > sp_interval params then Some (Inl InvalidParam, b, w)
      else do {
        let b = b\<lparr>bl_scan_params := params, bl_own_addr_type := sp_own_addr_type params, bl_scan_channel_idx := 0\<rparr>;
        let (ticks, accum) = accum_next accum_new (sp_interval params);
        let b = b\<lparr>bl_scan_accum := accum\<rparr>;
        (t, w) \<leftarrow> timer_now w;
        let w = set_compare (t + ticks) w;
        let b = b\<lparr>bl_scan_state := ScanRunning\<rparr>;
        Some (Inr (), ble_push ScanStarted b, w)
      })"

definition gap_scan_stop :: "ble \<Rightarrow> (error + unit) \<times> ble" where
  "gap_scan_stop b =
     (case bl_scan_state b of
        ScanRunning \<Rightarrow> (Inr (), b\<lparr>bl_scan_state := ScanStopPending\<rparr>)
      | ScanStopPending \<Rightarrow> (Inr (), b)
      | ScanIdle \<Rightarrow> (Inl NotRunning, b))"

definition gap_connect :: "bytes \<Rightarrow> addr_type \<Rightarrow> ble \<times> world \<Rightarrow> ((error + unit) \<times> ble \<times> world) option" where
  "gap_connect target t bw =
     (case bw of (b, w) \<Rightarrow>
      if bl_scan_state b \<noteq> ScanIdle then Some (Inl AlreadyRunning, b, w)
      else
        let b = b\<lparr>bl_connect_target := Some target, bl_connect_target_type := t\<rparr>;
            params = scan_params_default\<lparr>sp_active := False, sp_interval := 100, sp_window := 90\<rparr>
        in gap_scan_start params (b, w))"

end
