(* ===== verification/Ble_Adv.thy ===== *)
theory Ble_Adv
  imports Ble_State
begin

text \<open>
  Advertising in \<^verbatim>\<open>src/hw/ble.rs\<close>: building and sending advertising, auxiliary and periodic
  packets, listening for scan and connection requests, and \<open>adv_tick\<close>. \<open>None\<close> is a call that
  does not return: a panic, a DMA overrun, or a wait whose event never comes.
\<close>

section \<open>Waiting and listening\<close>

text \<open>\<open>Result::unwrap\<close> on the result of an encoder.\<close>

definition unwrap :: "('e + 'a) option \<Rightarrow> 'a option" where
  "unwrap r = (case r of Some (Inr x) \<Rightarrow> Some x | _ \<Rightarrow> None)"

text \<open>The busy-wait \<open>while self.timer.now() < deadline {}\<close>.\<close>

fun wait_now :: "u32 \<Rightarrow> u32 list \<Rightarrow> u32 list option" where
  "wait_now deadline [] = None"
| "wait_now deadline (t # ts) = (if t < deadline then wait_now deadline ts else Some ts)"

definition wait_until :: "u32 \<Rightarrow> world \<Rightarrow> world option" where
  "wait_until deadline w = map_option (\<lambda>ts. w\<lparr>w_now := ts\<rparr>) (wait_now deadline (w_now w))"

text \<open>The receive loop with a deadline: a timeout cancels the reception, a CRC error, after which
  the radio is already disabled, does not.\<close>

function ble_poll :: "u32 \<Rightarrow> bytes \<Rightarrow> world \<Rightarrow> (nat option \<times> bytes \<times> world) option" where
  "ble_poll deadline buf w =
     (case receive_poll buf w of
        None \<Rightarrow> None
      | Some (Inr (Some len), buf, w) \<Rightarrow> Some (Some len, buf, w)
      | Some (Inr None, buf, w) \<Rightarrow>
          (case timer_now w of
             None \<Rightarrow> None
           | Some (t, w) \<Rightarrow>
               if t \<ge> deadline then do { w \<leftarrow> receive_cancel w; Some (None, buf, w) }
               else ble_poll deadline buf w)
      | Some (Inl _, buf, w) \<Rightarrow> Some (None, buf, w))"
  by pat_completeness auto
termination
  by (relation "measure (\<lambda>(t, buf, w). length (w_now w))") (auto intro: poll_shrinks)

declare ble_poll.simps [simp del]

definition radio_window :: "u32 \<Rightarrow> u32 \<Rightarrow> ble \<times> world \<Rightarrow> (bool \<times> ble \<times> world) option" where
  "radio_window accept_mask window_micros bw =
     (case bw of (b, w) \<Rightarrow> do {
        (t, w) \<leftarrow> timer_now w;
        let deadline = t + timeout_ticks window_micros;
        w \<leftarrow> receive_start w;
        (got, buf, w) \<leftarrow> ble_poll deadline (bl_rx_buf b) w;
        let b = b\<lparr>bl_rx_buf := buf\<rparr>;
        case got of
          None \<Rightarrow> Some (False, b, w)
        | Some len \<Rightarrow>
            let b = b\<lparr>bl_rx_pdu_len := len\<rparr> in
            if bl_rx_pdu_len b \<ge> 2 then
              let pdu_type = bl_rx_buf b ! 0 AND 0x0F in
              Some (accept_mask AND push_bit (unat pdu_type) 1 \<noteq> 0, b, w)
            else Some (False, b, w)
      })"

section \<open>Packets\<close>

text \<open>Encoding into the transmit buffer; the length is returned.\<close>

definition ble_encode :: "adv_pdu \<Rightarrow> bool \<Rightarrow> bool \<Rightarrow> ble \<Rightarrow> (nat \<times> ble) option" where
  "ble_encode pdu tx_add rx_add b = do {
     (len, buf) \<leftarrow> unwrap (encode_typed pdu (bl_tx_buf b) tx_add rx_add);
     Some (len, b\<lparr>bl_tx_buf := buf\<rparr>)
   }"

definition ble_transmit :: "nat \<Rightarrow> ble \<times> world \<Rightarrow> (ble \<times> world) option" where
  "ble_transmit len bw =
     (case bw of (b, w) \<Rightarrow> do {
        pdu \<leftarrow> slice (bl_tx_buf b) 0 len;
        w \<leftarrow> radio_transmit pdu w;
        Some (b, w)
      })"

definition build_adv_pdu :: "ble \<Rightarrow> ble option" where
  "build_adv_pdu b = do {
     let tx_add = is_random (bl_own_addr_type b);
     pdu \<leftarrow> (case ap_adv_type (bl_adv_params b) of
               ConnectableDirected \<Rightarrow> do {
                 peer \<leftarrow> ap_peer_addr (bl_adv_params b);
                 Some (AdvDirectInd (bl_own_addr b) peer)
               }
             | ConnectableUndirected \<Rightarrow> do {
                 data \<leftarrow> slice (bl_adv_data b) 0 (bl_adv_data_len b);
                 Some (AdvInd (bl_own_addr b) data)
               }
             | ScannableUndirected \<Rightarrow> do {
                 data \<leftarrow> slice (bl_adv_data b) 0 (bl_adv_data_len b);
                 Some (AdvScanInd (bl_own_addr b) data)
               }
             | NonConnectableUndirected \<Rightarrow> do {
                 data \<leftarrow> slice (bl_adv_data b) 0 (bl_adv_data_len b);
                 Some (AdvNonconnInd (bl_own_addr b) data)
               });
     (len, b) \<leftarrow> ble_encode pdu tx_add False b;
     Some (b\<lparr>bl_tx_pdu_len := len\<rparr>)
   }"

definition build_ext_adv_pdu :: "ble \<Rightarrow> ble option" where
  "build_ext_adv_pdu b = do {
     let aux = \<lparr>aux_channel = 0, aux_offset = 5, aux_phy = 0\<rparr>;
     let mode = (case ap_adv_type (bl_adv_params b) of
                   ConnectableUndirected \<Rightarrow> 1 | ScannableUndirected \<Rightarrow> 2 | _ \<Rightarrow> 0);
     let tx_add = is_random (bl_own_addr_type b);
     (len, b) \<leftarrow> ble_encode (AdvExtInd (bl_own_addr b) mode [0, 0] aux) tx_add False b;
     Some (b\<lparr>bl_tx_pdu_len := len\<rparr>)
   }"

text \<open>A packet on channel 0 after 200 us; the radio is left on the first advertising channel.\<close>

definition transmit_on_data_channel :: "nat \<Rightarrow> ble \<times> world \<Rightarrow> (ble \<times> world) option" where
  "transmit_on_data_channel len bw =
     (case bw of (b, w) \<Rightarrow> do {
        (t, w) \<leftarrow> timer_now w;
        let deadline = t + timeout_ticks 200;
        let w = set_compare deadline w;
        w \<leftarrow> wait_until deadline w;
        let w = snd (set_channel 0 w);
        (b, w) \<leftarrow> ble_transmit len (b, w);
        Some (b, snd (set_channel (ADV_CHANNELS ! 0) w))
      })"

definition transmit_aux_adv :: "ble \<times> world \<Rightarrow> (ble \<times> world) option" where
  "transmit_aux_adv bw =
     (case bw of (b, w) \<Rightarrow> do {
        let tx_add = is_random (bl_own_addr_type b);
        let n = min (bl_adv_data_len b) 36;
        data \<leftarrow> slice (bl_adv_data b) 0 n;
        (len, b) \<leftarrow> (if ap_periodic (bl_adv_params b) then
            let info = \<lparr>pai_adi = [0, 0], pai_interval = ap_periodic_interval (bl_adv_params b),
                        pai_adva_type = if is_random (bl_own_addr_type b) then 1 else 0\<rparr>;
                ehs = [0, EXT_AD_PERIODIC] @ periodic_adv_info_encode info
            in ble_encode (AuxAdvExtIndWithEh (bl_own_addr b) [0, 0] ehs data) tx_add False b
          else ble_encode (AuxAdvExtInd (bl_own_addr b) [0, 0] 0x00 data) tx_add False b);
        transmit_on_data_channel len (b, w)
      })"

definition transmit_periodic_adv :: "ble \<times> world \<Rightarrow> (ble \<times> world) option" where
  "transmit_periodic_adv bw =
     (case bw of (b, w) \<Rightarrow> do {
        let tx_add = is_random (bl_own_addr_type b);
        (len, b) \<leftarrow> ble_encode (PeriodicAdv 0 [0, 0]) tx_add False b;
        transmit_on_data_channel len (b, w)
      })"

section \<open>Scan and connection requests\<close>

definition listen_for_scan_req :: "ble \<times> world \<Rightarrow> (ble \<times> world) option" where
  "listen_for_scan_req bw = do {
     (ok, b, w) \<leftarrow> radio_window (push_bit (unat PDU_SCAN_REQ) 1) SCAN_REQ_WINDOW_MICROS bw;
     if ok \<and> bl_scan_rsp_len b > 0 then do {
       let tx_add = is_random (bl_own_addr_type b);
       data \<leftarrow> slice (bl_scan_rsp b) 0 (bl_scan_rsp_len b);
       (len, b) \<leftarrow> ble_encode (ScanRsp (bl_own_addr b) data) tx_add False b;
       ble_transmit len (b, w)
     } else Some (b, w)
   }"

definition listen_for_scan_and_connect :: "u8 \<Rightarrow> ble \<times> world \<Rightarrow> (ble \<times> world) option" where
  "listen_for_scan_and_connect channel bw = do {
     let accept = push_bit (unat PDU_SCAN_REQ) 1 OR push_bit (unat PDU_CONNECT_REQ) 1;
     (ok, b, w) \<leftarrow> radio_window accept CONNECT_REQ_WINDOW_MICROS bw;
     if \<not> ok then Some (b, w)
     else do {
       pkt \<leftarrow> slice (bl_rx_buf b) 0 (bl_rx_pdu_len b);
       case adv_pdu_decode pkt of
         Inr (ScanReq _ a) \<Rightarrow>
           if bl_scan_rsp_len b > 0 then do {
             let tx_add = is_random (bl_own_addr_type b);
             data \<leftarrow> slice (bl_scan_rsp b) 0 (bl_scan_rsp_len b);
             (len, b) \<leftarrow> ble_encode (ScanRsp a data) tx_add False b;
             ble_transmit len (b, w)
           } else Some (b, w)
       | Inr (ConnectReq ia _ ll) \<Rightarrow>
           (case connect_req_decode ll of
              Inr params \<Rightarrow> do {
                (t, w) \<leftarrow> timer_now w;
                let b = b\<lparr>bl_conn := Some (conn_new params channel t Slave), bl_adv_state := AdvIdle\<rparr>;
                let b = ble_push (Connected params) b;
                Some (ble_push (ConnectReqReceived ia params) b, w)
              }
            | Inl _ \<Rightarrow> Some (b, w))
       | _ \<Rightarrow> Some (b, w)
     }
   }"

section \<open>The advertising event\<close>

text \<open>The next enabled advertising channel, from index \<open>i\<close> on.\<close>

fun adv_channel_loop :: "nat \<Rightarrow> u8 \<Rightarrow> nat \<Rightarrow> nat" where
  "adv_channel_loop 0 cmap i = i"
| "adv_channel_loop (Suc n) cmap i =
     (if cmap AND push_bit i 1 \<noteq> 0 then i else adv_channel_loop n cmap ((i + 1) mod 3))"

text \<open>What follows the advertising packet: the auxiliary packets, or listening for requests.\<close>

definition adv_follow :: "u8 \<Rightarrow> ble \<times> world \<Rightarrow> (ble \<times> world) option" where
  "adv_follow channel bw =
     (case bw of (b, w) \<Rightarrow>
      if ap_extended (bl_adv_params b) then do {
        (b, w) \<leftarrow> transmit_aux_adv (b, w);
        if ap_periodic (bl_adv_params b) then transmit_periodic_adv (b, w) else Some (b, w)
      } else case ap_adv_type (bl_adv_params b) of
          ConnectableUndirected \<Rightarrow> listen_for_scan_and_connect channel (b, w)
        | ConnectableDirected \<Rightarrow> listen_for_scan_and_connect channel (b, w)
        | ScannableUndirected \<Rightarrow> listen_for_scan_req (b, w)
        | NonConnectableUndirected \<Rightarrow> Some (b, w))"

definition adv_rearm :: "ble \<times> world \<Rightarrow> (ble \<times> world) option" where
  "adv_rearm bw =
     (case bw of (b, w) \<Rightarrow> do {
        let (ticks, accum) = accum_next (bl_adv_accum b) (ap_interval_min (bl_adv_params b));
        let b = b\<lparr>bl_adv_accum := accum\<rparr>;
        (t, w) \<leftarrow> timer_now w;
        Some (b, set_compare (t + ticks) w)
      })"

definition adv_tick :: "ble \<times> world \<Rightarrow> (ble \<times> world) option" where
  "adv_tick bw =
     (case bw of (b, w) \<Rightarrow>
      if bl_adv_state b = AdvIdle then Some (b, w)
      else if bl_adv_state b = AdvStopPending then
        Some (ble_push AdvStopped (b\<lparr>bl_adv_state := AdvIdle\<rparr>), w)
      else do {
        let ch_idx = adv_channel_loop 3 (ap_channel_map (bl_adv_params b)) (bl_adv_channel_idx b);
        channel \<leftarrow> get ADV_CHANNELS ch_idx;
        let b = b\<lparr>bl_adv_channel_idx := (ch_idx + 1) mod 3\<rparr>;
        let w = snd (set_channel channel w);
        b \<leftarrow> (if ap_extended (bl_adv_params b) then build_ext_adv_pdu b else build_adv_pdu b);
        (b, w) \<leftarrow> ble_transmit (bl_tx_pdu_len b) (b, w);
        (b, w) \<leftarrow> adv_follow channel (b, w);
        adv_rearm (b, w)
      })"

end
