(* ===== verification/Ble_Scan.thy ===== *)
theory Ble_Scan
  imports Ble_Adv
begin

text \<open>
  Scanning, initiating and periodic synchronisation in \<^verbatim>\<open>src/hw/ble.rs\<close>: \<open>scan_tick\<close>,
  \<open>handle_scan_pdu\<close>, \<open>send_connect_req\<close>, \<open>follow_aux\<close>, \<open>periodic_tick\<close> and the scan response
  window. \<open>None\<close> is a call that does not return.
\<close>

section \<open>Initiating\<close>

definition initiator_params :: connect_req_data where
  "initiator_params =
     \<lparr>cr_access_addr = 0x8E89BED6 XOR 0x12345678, cr_crc_init = 0x654321, cr_win_size = 1, cr_win_offset = 0,
      cr_interval = 24, cr_latency = 0, cr_timeout = 2000, cr_channel_map = [0xFF, 0xFF, 0xFF, 0xFF, 0x1F],
      cr_hop = 13, cr_sca = 2\<rparr>"

definition send_connect_req :: "ble \<times> world \<Rightarrow> (ble \<times> world) option" where
  "send_connect_req bw =
     (case bw of (b, w) \<Rightarrow>
      case bl_connect_target b of
        None \<Rightarrow> Some (b, w)
      | Some target \<Rightarrow>
          let ll = initiator_params in
          case connect_req_encode ll (replicate 22 0) of
            Inl _ \<Rightarrow> Some (b, w)
          | Inr (_, llbuf) \<Rightarrow> do {
              let rx_add = is_random (bl_connect_target_type b);
              r \<leftarrow> encode_typed (ConnectReq (bl_own_addr b) target llbuf) (bl_tx_buf b)
                     (is_random (bl_own_addr_type b)) rx_add;
              case r of
                Inl _ \<Rightarrow> Some (b, w)
              | Inr (len, buf) \<Rightarrow> do {
                  (b, w) \<leftarrow> ble_transmit len (b\<lparr>bl_tx_buf := buf\<rparr>, w);
                  let b = b\<lparr>bl_connect_target := None\<rparr>;
                  (t, w) \<leftarrow> timer_now w;
                  let channel = (case bl_last_radio_channel b of Some ch \<Rightarrow> ch | None \<Rightarrow> 37);
                  let c = set_peer target (conn_new ll channel t Master);
                  let b = b\<lparr>bl_conn := Some c, bl_scan_state := ScanIdle\<rparr>;
                  Some (ble_push (Connected ll) b, w)
                }
            })"

section \<open>Periodic advertising\<close>

text \<open>The receive loop bounded by a number of empty polls: after \<open>spins + 1\<close> of them, on a packet
  and on a CRC error the loop is left.\<close>

fun poll_spins :: "nat \<Rightarrow> bytes \<Rightarrow> world \<Rightarrow> (nat option \<times> bytes \<times> world) option" where
  "poll_spins spins buf w =
     (case receive_poll buf w of
        None \<Rightarrow> None
      | Some (Inr (Some len), buf, w) \<Rightarrow> Some (Some len, buf, w)
      | Some (Inr None, buf, w) \<Rightarrow>
          (case spins of 0 \<Rightarrow> Some (None, buf, w) | Suc n \<Rightarrow> poll_spins n buf w)
      | Some (Inl _, buf, w) \<Rightarrow> Some (None, buf, w))"

declare poll_spins.simps [simp del]

definition handle_periodic_aux :: "u8 \<Rightarrow> bytes \<Rightarrow> ble \<times> world \<Rightarrow> (ble \<times> world) option" where
  "handle_periodic_aux channel payload bw =
     (case bw of (b, w) \<Rightarrow>
      if length payload < 15 then Some (b, w)
      else do {
        info_bytes \<leftarrow> slice payload 10 15;
        case periodic_adv_info_decode info_bytes of
          None \<Rightarrow> Some (b, w)
        | Some info \<Rightarrow> do {
            (t, w) \<leftarrow> timer_now w;
            let sync = \<lparr>ps_channel = channel, ps_units = pai_interval info, ps_frac = 0, ps_next_event = t\<rparr>;
            let (d, sync) = next_interval sync;
            let sync = sync\<lparr>ps_next_event := t + d\<rparr>;
            let b = b\<lparr>bl_periodic_sync := Some sync\<rparr>;
            Some (ble_push (PeriodicSynced channel (pai_interval info)) b, w)
          }
      })"

definition periodic_report :: "nat \<Rightarrow> ble \<times> world \<Rightarrow> (ble \<times> world) option" where
  "periodic_report len bw =
     (case bw of (b, w) \<Rightarrow> do {
        pkt \<leftarrow> slice (bl_rx_buf b) 0 len;
        case adv_pdu_decode pkt of
          Inr (PeriodicAdv _ ad) \<Rightarrow> do {
            (r, w) \<leftarrow> rssi w;
            Some (ble_push (PeriodicAdvReceived ad r) b, w)
          }
        | _ \<Rightarrow> Some (b, w)
      })"

definition periodic_tick :: "ble \<times> world \<Rightarrow> (ble \<times> world) option" where
  "periodic_tick bw =
     (case bw of (b, w) \<Rightarrow>
      case bl_periodic_sync b of
        None \<Rightarrow> Some (b, w)
      | Some sync \<Rightarrow> do {
          (t, w) \<leftarrow> timer_now w;
          if t < ps_next_event sync then Some (b, w)
          else do {
            let (delta, sync) = next_interval sync;
            let sync = sync\<lparr>ps_next_event := ps_next_event sync + delta\<rparr>;
            let b = b\<lparr>bl_periodic_sync := Some sync\<rparr>;
            let w = snd (set_channel (ps_channel sync) w);
            w \<leftarrow> receive_start w;
            (got, buf, w) \<leftarrow> poll_spins 40000 (bl_rx_buf b) w;
            let b = b\<lparr>bl_rx_buf := buf\<rparr>;
            (b, w) \<leftarrow> (case got of None \<Rightarrow> Some (b, w) | Some len \<Rightarrow> periodic_report len (b, w));
            w \<leftarrow> receive_cancel w;
            Some (b, w)
          }
        })"

section \<open>Auxiliary packets\<close>

text \<open>The data of an auxiliary packet: address, a 40-byte array and its length. When none arrives
  the reception is cancelled and the radio returns to the first advertising channel.\<close>

definition aux_lost :: "ble \<times> world \<Rightarrow> ((bytes \<times> bytes \<times> nat) option \<times> ble \<times> world) option" where
  "aux_lost bw =
     (case bw of (b, w) \<Rightarrow> do {
        w \<leftarrow> receive_cancel w;
        Some (None, b, snd (set_channel (ADV_CHANNELS ! 0) w))
      })"

definition aux_received ::
  "aux_ptr \<Rightarrow> nat \<Rightarrow> ble \<times> world \<Rightarrow> ((bytes \<times> bytes \<times> nat) option \<times> ble \<times> world) option" where
  "aux_received ptr len bw =
     (case bw of (b, w) \<Rightarrow> do {
        pkt \<leftarrow> slice (bl_rx_buf b) 0 len;
        case adv_pdu_decode pkt of
          Inr (AuxAdvExtInd a _ ty data) \<Rightarrow> do {
            let is_periodic = (ty = EXT_AD_PERIODIC);
            let n = min (length data) 40;
            let out = set_prefix (replicate 40 0) (take n data);
            let raw_len = min len 64;
            raw \<leftarrow> slice (bl_rx_buf b) 0 raw_len;
            (b, w) \<leftarrow> (if is_periodic then handle_periodic_aux (aux_channel ptr) raw (b, w) else Some (b, w));
            Some (Some (a, out, n), b, w)
          }
        | _ \<Rightarrow> aux_lost (b, w)
      })"

definition follow_aux :: "aux_ptr \<Rightarrow> ble \<times> world \<Rightarrow> ((bytes \<times> bytes \<times> nat) option \<times> ble \<times> world) option" where
  "follow_aux ptr bw =
     (case bw of (b, w) \<Rightarrow>
      case set_channel (aux_channel ptr) w of
        (Inl _, w) \<Rightarrow> Some (None, b, w)
      | (Inr _, w) \<Rightarrow> do {
          (t, w) \<leftarrow> timer_now w;
          let deadline = t + timeout_ticks 300;
          let w = set_compare deadline w;
          w \<leftarrow> wait_until deadline w;
          w \<leftarrow> receive_start w;
          (got, buf, w) \<leftarrow> poll_spins 200000 (bl_rx_buf b) w;
          let b = b\<lparr>bl_rx_buf := buf\<rparr>;
          case got of
            None \<Rightarrow> aux_lost (b, w)
          | Some len \<Rightarrow> aux_received ptr len (b, w)
        })"

section \<open>Active scanning\<close>

text \<open>A report with the data in a 31-byte array.\<close>

definition scan_report :: "bytes \<Rightarrow> u8 \<Rightarrow> u8 \<Rightarrow> bytes \<Rightarrow> ble_event" where
  "scan_report addr ty r data =
     (let data_len = min (length data) 31
      in ScanReport addr (ba_addr_type (parse_addr addr)) ty r
           (set_prefix (replicate 31 0) (take data_len data)) data_len)"

definition scan_rsp_received :: "nat \<Rightarrow> ble \<times> world \<Rightarrow> (ble \<times> world) option" where
  "scan_rsp_received len bw =
     (case bw of (b, w) \<Rightarrow> do {
        pkt \<leftarrow> slice (bl_rx_buf b) 0 len;
        case adv_pdu_decode pkt of
          Inr (ScanRsp a data) \<Rightarrow> do {
            (r, w) \<leftarrow> rssi w;
            Some (ble_push (scan_report a PDU_SCAN_RSP r data) b, w)
          }
        | _ \<Rightarrow> Some (b, w)
      })"

definition listen_for_scan_rsp :: "ble \<times> world \<Rightarrow> (ble \<times> world) option" where
  "listen_for_scan_rsp bw =
     (case bw of (b, w) \<Rightarrow> do {
        (t, w) \<leftarrow> timer_now w;
        let deadline = t + timeout_ticks SCAN_REQ_WINDOW_MICROS;
        w \<leftarrow> receive_start w;
        (got, buf, w) \<leftarrow> ble_poll deadline (bl_rx_buf b) w;
        let b = b\<lparr>bl_rx_buf := buf\<rparr>;
        case got of None \<Rightarrow> Some (b, w) | Some len \<Rightarrow> scan_rsp_received len (b, w)
      })"

definition respond_scan_req :: "ble \<times> world \<Rightarrow> (ble \<times> world) option" where
  "respond_scan_req bw =
     (case bw of (b, w) \<Rightarrow> do {
        a \<leftarrow> slice (bl_rx_buf b) 2 8;
        let tx_add = is_random (bl_own_addr_type b);
        let rx_add = is_random (ba_addr_type (parse_addr a));
        r \<leftarrow> encode_typed (ScanReq (bl_own_addr b) a) (bl_tx_buf b) tx_add rx_add;
        case r of
          Inl _ \<Rightarrow> Some (b, w)
        | Inr (len, buf) \<Rightarrow> do {
            (b, w) \<leftarrow> ble_transmit len (b\<lparr>bl_tx_buf := buf\<rparr>, w);
            listen_for_scan_rsp (b, w)
          }
      })"

section \<open>The scan event\<close>

text \<open>\<open>AdvInd\<close> and \<open>AdvScanInd\<close> share an arm of the match.\<close>

definition handle_adv_report :: "u8 \<Rightarrow> bytes \<Rightarrow> u8 \<Rightarrow> bytes \<Rightarrow> ble \<times> world \<Rightarrow> (ble \<times> world) option" where
  "handle_adv_report r addr ty data bw =
     (case bw of (b, w) \<Rightarrow>
      if bl_connect_target b = Some addr then send_connect_req (b, w)
      else if sp_filter_policy (bl_scan_params b) = AcceptList \<and>
              \<not> al_contains (bl_accept_list b) addr (ba_addr_type (parse_addr addr)) then Some (b, w)
      else
        let b = ble_push (scan_report addr ty r data) b in
        if sp_active (bl_scan_params b) then respond_scan_req (b, w) else Some (b, w))"

definition handle_scan_pdu :: "ble \<times> world \<Rightarrow> (ble \<times> world) option" where
  "handle_scan_pdu bw =
     (case bw of (b, w) \<Rightarrow> do {
        (r, w) \<leftarrow> rssi w;
        pkt \<leftarrow> slice (bl_rx_buf b) 0 (bl_rx_pdu_len b);
        case adv_pdu_decode pkt of
          Inr (AdvInd a data) \<Rightarrow> handle_adv_report r a PDU_ADV_IND data (b, w)
        | Inr (AdvScanInd a data) \<Rightarrow> handle_adv_report r a PDU_ADV_SCAN_IND data (b, w)
        | Inr (AdvExtInd a _ _ ptr) \<Rightarrow> do {
            (got, b, w) \<leftarrow> follow_aux ptr (b, w);
            case got of
              None \<Rightarrow> Some (b, w)
            | Some (_, aux_data, aux_len) \<Rightarrow>
                Some (ble_push (scan_report a PDU_ADV_EXT_IND r (take aux_len aux_data)) b, w)
          }
        | _ \<Rightarrow> Some (b, w)
      })"

text \<open>One channel of the scan window.\<close>

definition scan_channel :: "ble \<times> world \<Rightarrow> (ble \<times> world) option" where
  "scan_channel bw =
     (case bw of (b, w) \<Rightarrow> do {
        (b, w) \<leftarrow> (if bl_scan_channel_idx b = 0 then do {
                     (t, w) \<leftarrow> timer_now w;
                     Some (b\<lparr>bl_scan_cycle_start := t\<rparr>, w)
                   } else Some (b, w));
        channel \<leftarrow> get ADV_CHANNELS (bl_scan_channel_idx b);
        let b = b\<lparr>bl_scan_channel_idx := bl_scan_channel_idx b + 1, bl_last_radio_channel := Some channel\<rparr>;
        let w = snd (set_channel channel w);
        let per_channel = window_ticks (sp_window (bl_scan_params b)) div 3;
        (t, w) \<leftarrow> timer_now w;
        let deadline = t + per_channel;
        let w = set_compare deadline w;
        w \<leftarrow> receive_start w;
        (got, buf, w) \<leftarrow> ble_poll deadline (bl_rx_buf b) w;
        let b = b\<lparr>bl_rx_buf := buf\<rparr>;
        case got of None \<Rightarrow> Some (b, w) | Some len \<Rightarrow> handle_scan_pdu (b\<lparr>bl_rx_pdu_len := len\<rparr>, w)
      })"

definition scan_tick :: "ble \<times> world \<Rightarrow> (ble \<times> world) option" where
  "scan_tick bw =
     (case bw of (b, w) \<Rightarrow>
      if bl_scan_state b = ScanIdle then Some (b, w)
      else do {
        (b, w) \<leftarrow> periodic_tick (b, w);
        if bl_scan_state b = ScanStopPending then
          Some (ble_push ScanStopped (b\<lparr>bl_scan_state := ScanIdle\<rparr>), w)
        else if bl_scan_channel_idx b \<ge> 3 then
          let b = b\<lparr>bl_scan_channel_idx := 0\<rparr>;
              (ticks, accum) = accum_next (bl_scan_accum b) (sp_interval (bl_scan_params b));
              b = b\<lparr>bl_scan_accum := accum\<rparr>
          in Some (b, set_compare (bl_scan_cycle_start b + ticks) w)
        else scan_channel (b, w)
      })"

end
