(* ===== verification/Ble_Conn.thy ===== *)
theory Ble_Conn
  imports Ble_Scan
begin

text \<open>
  Connection management in \<^verbatim>\<open>src/hw/ble.rs\<close>: \<open>conn_tick\<close> and the calls that pass the
  application's requests to the open connection (notifications, L2CAP, pairing, encryption, the
  GATT client, termination).
\<close>

section \<open>Driving the connection\<close>

text \<open>What one connection event brought: a reason to close the link, or the event.\<close>

definition conn_outcome ::
  "crypto \<Rightarrow> ccm_engine \<Rightarrow> ble \<times> world \<Rightarrow> ((disconnect_reason + conn_event) \<times> ble \<times> world) option" where
  "conn_outcome cx eng bw =
     (case bw of (b, w) \<Rightarrow>
      case bl_conn b of
        None \<Rightarrow> Some (Inl LocalError, b, w)
      | Some c \<Rightarrow> do {
          (t, w) \<leftarrow> timer_now w;
          let elapsed = t - cn_last_rx c;
          let limit = ucast (cn_timeout c) * 313;
          if elapsed \<ge> limit then Some (Inl SupervisionTimeout, b, w)
          else do {
            (r, c, w) \<leftarrow> event cx eng c w;
            let b = b\<lparr>bl_conn := Some c\<rparr>;
            Some (case r of
                    Inr (EvDisconnected reason) \<Rightarrow> Inl reason
                  | Inr other \<Rightarrow> Inr other
                  | Inl _ \<Rightarrow> Inl LocalError, b, w)
          }
        })"

definition conn_tick :: "crypto \<Rightarrow> ccm_engine \<Rightarrow> ble \<times> world \<Rightarrow> (bool \<times> ble \<times> world) option" where
  "conn_tick cx eng bw = do {
     (outcome, b, w) \<leftarrow> conn_outcome cx eng bw;
     case outcome of
       Inl reason \<Rightarrow> Some (False, ble_push (Disconnected reason) (b\<lparr>bl_conn := None\<rparr>), radio_init w)
     | Inr ev \<Rightarrow> do {
         let b = (case ev of
                    EvControl op \<Rightarrow> ble_push (LlControl op) b
                  | EvL2cap cid \<Rightarrow> ble_push (L2cap cid) b
                  | _ \<Rightarrow> b);
         let has_data = (case bl_conn b of Some c \<Rightarrow> cn_rx_data_len c > 0 | None \<Rightarrow> False);
         let b = (if has_data
                  then ble_push ConnData (b\<lparr>bl_conn := map_option (\<lambda>c. c\<lparr>cn_rx_data_len := 0\<rparr>) (bl_conn b)\<rparr>)
                  else b);
         Some (True, b, w)
       }
   }"

definition conn_is_master :: "ble \<Rightarrow> bool" where
  "conn_is_master b \<longleftrightarrow> map_option cn_role (bl_conn b) = Some Master"

definition conn_rx_data :: "ble \<Rightarrow> bytes option" where
  "conn_rx_data b = (case bl_conn b of Some c \<Rightarrow> slice (cn_rx_data c) 0 (cn_rx_data_len c) | None \<Rightarrow> Some [])"

section \<open>Requests of the application\<close>

text \<open>\<open>self.conn.as_mut().ok_or(Error::NotRunning)?\<close> followed by \<open>f\<close> on the connection.\<close>

definition with_conn :: "(conn \<Rightarrow> (error + unit) \<times> conn) \<Rightarrow> ble \<Rightarrow> (error + unit) \<times> ble" where
  "with_conn f b =
     (case bl_conn b of
        None \<Rightarrow> (Inl NotRunning, b)
      | Some c \<Rightarrow> (let (r, c) = f c in (r, b\<lparr>bl_conn := Some c\<rparr>)))"

definition conn_send :: "bytes \<Rightarrow> ble \<Rightarrow> (error + unit) \<times> ble" where
  "conn_send data = with_conn (\<lambda>c. (Inr (), queue_notify data c))"

definition ble_l2cap_connect :: "u16 \<Rightarrow> ble \<Rightarrow> (error + unit) \<times> ble" where
  "ble_l2cap_connect psm = with_conn (\<lambda>c. (Inr (), l2cap_connect psm c))"

definition ble_l2cap_send :: "bytes \<Rightarrow> ble \<Rightarrow> (error + unit) \<times> ble" where
  "ble_l2cap_send data = with_conn (l2cap_send data)"

definition gap_encrypt :: "ble \<Rightarrow> (error + unit) \<times> ble" where
  "gap_encrypt = with_conn (\<lambda>c.
     if cn_role c \<noteq> Master then (Inl InvalidParam, c)
     else case map_option bi_ltk (ram_find (cn_bond_store c) (cn_peer_addr c)) of
       None \<Rightarrow> (Inl NotRunning, c)
     | Some ltk \<Rightarrow> (Inr (), queue_encrypt_req (c\<lparr>cn_smp := (cn_smp c)\<lparr>sm_stk := ltk\<rparr>\<rparr>)))"

definition gap_pair :: "ble \<Rightarrow> (error + unit) \<times> ble" where
  "gap_pair = with_conn (\<lambda>c.
     if cn_role c = Master then
       let (req, s) = build_pairing_request (cn_smp c);
           c = c\<lparr>cn_smp := s\<rparr>;
           l2 = le16 7 @ le16 L2CAP_SMP_CID @ req
       in (Inr (), queue_l2cap l2 L2CAP_SMP_CID c)
     else (Inr (), c\<lparr>cn_smp := (cn_smp c)\<lparr>sm_state := SmpIdle\<rparr>\<rparr>))"

definition gatt_discover_primary_services :: "ble \<Rightarrow> (error + unit) \<times> ble" where
  "gatt_discover_primary_services = with_conn (\<lambda>c.
     (Inr (), gatt_send_request ([0x10] @ le16 0x2800 @ le16 0x0001 @ le16 0xFFFF) c))"

definition gatt_discover_characteristics :: "u16 \<Rightarrow> u16 \<Rightarrow> ble \<Rightarrow> (error + unit) \<times> ble" where
  "gatt_discover_characteristics start fin = with_conn (\<lambda>c.
     (Inr (), gatt_send_request ([0x08] @ le16 0x2803 @ le16 start @ le16 fin) c))"

definition gatt_client_read :: "u16 \<Rightarrow> ble \<Rightarrow> (error + unit) \<times> ble" where
  "gatt_client_read handle = with_conn (\<lambda>c. (Inr (), gatt_send_request ([0x0A] @ le16 handle) c))"

definition gatt_client_write :: "u16 \<Rightarrow> bytes \<Rightarrow> ble \<Rightarrow> (error + unit) \<times> ble" where
  "gatt_client_write handle data = with_conn (\<lambda>c.
     let n = min (length data) 20
     in (Inr (), gatt_send_request ([0x12] @ le16 handle @ take n data) c))"

definition gatt_subscribe :: "u16 \<Rightarrow> ble \<Rightarrow> (error + unit) \<times> ble" where
  "gatt_subscribe cccd_handle = with_conn (\<lambda>c.
     (Inr (), gatt_send_request ([0x12] @ le16 cccd_handle @ le16 0x0001) c))"

definition gatt_poll :: "ble \<Rightarrow> (u8 \<times> bytes \<times> nat) option \<times> ble" where
  "gatt_poll b =
     (case bl_conn b of
        None \<Rightarrow> (None, b)
      | Some c \<Rightarrow>
          let ((op, buf, len), c) = gatt_take_result c;
              b = b\<lparr>bl_conn := Some c\<rparr>
          in (if len > 0 then Some (op, buf, len) else None, b))"

definition gap_terminate :: "ble \<Rightarrow> (error + unit) \<times> ble" where
  "gap_terminate = with_conn (\<lambda>c. (Inr (), terminate c))"

section \<open>Properties\<close>

lemmas smp_opcodes = SMP_PAIRING_REQUEST_def SMP_PAIRING_RESPONSE_def SMP_PAIRING_CONFIRM_def SMP_PAIRING_RANDOM_def
  SMP_PAIRING_FAILED_def SMP_ENCRYPTION_INFORMATION_def SMP_MASTER_IDENTIFICATION_def SMP_SECURITY_REQUEST_def

lemma handle_smp_cases:
  "body \<noteq> [] \<Longrightarrow> body ! 0 \<noteq> SMP_PAIRING_RANDOM \<Longrightarrow>
    sm_stk (cn_smp (handle_smp cx body c)) = sm_stk (cn_smp c) \<and> cn_want_encrypt (handle_smp cx body c) = cn_want_encrypt c \<and>
    (sm_state (cn_smp (handle_smp cx body c)) = WaitingStartEnc \<longrightarrow> sm_state (cn_smp c) = WaitingStartEnc)"
  by (simp add: handle_smp_def Let_def queue_l2cap_def build_pairing_request_def handle_pairing_request_def
      handle_pairing_response_def build_confirm_def handle_confirm_def)



end
