(* ===== verification/Hci.thy ===== *)
theory Hci
  imports Ble_Conn
begin

text \<open>
  The host-controller interface of \<^verbatim>\<open>src/hci.rs\<close>: packets, the H4 byte-stream framer, the
  command handler and the translation of stack events for the host. \<open>None\<close> is a panic.
\<close>

section \<open>Constants\<close>

definition HCI_COMMAND :: u8 where "HCI_COMMAND = 0x01"
definition HCI_ACL_DATA :: u8 where "HCI_ACL_DATA = 0x02"
definition HCI_EVENT :: u8 where "HCI_EVENT = 0x04"

definition HCI_EVT_COMMAND_COMPLETE :: u8 where "HCI_EVT_COMMAND_COMPLETE = 0x0E"
definition HCI_EVT_COMMAND_STATUS :: u8 where "HCI_EVT_COMMAND_STATUS = 0x0F"
definition HCI_EVT_DISCONNECTION_COMPLETE :: u8 where "HCI_EVT_DISCONNECTION_COMPLETE = 0x05"
definition HCI_EVT_LE_META :: u8 where "HCI_EVT_LE_META = 0x3E"

definition HCI_LE_ADVERTISING_REPORT :: u8 where "HCI_LE_ADVERTISING_REPORT = 0x02"
definition HCI_LE_CONNECTION_COMPLETE :: u8 where "HCI_LE_CONNECTION_COMPLETE = 0x01"

definition OGF_HOST :: u8 where "OGF_HOST = 0x03"
definition OGF_LE :: u8 where "OGF_LE = 0x08"

definition OCF_READ_LOCAL_VERSION :: u16 where "OCF_READ_LOCAL_VERSION = 0x0001"
definition OCF_READ_BD_ADDR :: u16 where "OCF_READ_BD_ADDR = 0x0009"
definition OCF_READ_BUFFER_SIZE :: u16 where "OCF_READ_BUFFER_SIZE = 0x0005"
definition OCF_LE_SET_ADV_PARAMS :: u16 where "OCF_LE_SET_ADV_PARAMS = 0x0006"
definition OCF_LE_SET_ADV_DATA :: u16 where "OCF_LE_SET_ADV_DATA = 0x0008"
definition OCF_LE_SET_ADV_ENABLE :: u16 where "OCF_LE_SET_ADV_ENABLE = 0x000A"
definition OCF_LE_SET_SCAN_PARAMS :: u16 where "OCF_LE_SET_SCAN_PARAMS = 0x000B"
definition OCF_LE_SET_SCAN_ENABLE :: u16 where "OCF_LE_SET_SCAN_ENABLE = 0x000C"
definition OCF_LE_CREATE_CONNECTION :: u16 where "OCF_LE_CREATE_CONNECTION = 0x000D"
definition OCF_LE_SET_RANDOM_ADDRESS :: u16 where "OCF_LE_SET_RANDOM_ADDRESS = 0x0005"

lemmas hci_types = HCI_COMMAND_def HCI_ACL_DATA_def HCI_EVENT_def

section \<open>Packets\<close>

record hci_packet =
  hp_packet_type :: u8
  hp_payload :: bytes
  hp_len :: nat

text \<open>\<open>payload[..len].copy_from_slice\<close> into a zeroed 260-byte array.\<close>

definition packet_of :: "u8 \<Rightarrow> bytes \<Rightarrow> hci_packet option" where
  "packet_of ty content =
     (if length content \<le> 260
      then Some \<lparr>hp_packet_type = ty, hp_payload = set_prefix (replicate 260 0) content, hp_len = length content\<rparr>
      else None)"

definition hci_command :: "u8 \<Rightarrow> u16 \<Rightarrow> bytes \<Rightarrow> hci_packet option" where
  "hci_command ogf ocf params =
     packet_of HCI_COMMAND
       ([ucast (ocf AND 0xFF), ucast (drop_bit 8 ocf AND 0x03) OR push_bit 2 (ogf AND 0x3F),
         of_nat (length params)] @ params)"

definition hci_event :: "u8 \<Rightarrow> bytes \<Rightarrow> hci_packet option" where
  "hci_event code payload = packet_of HCI_EVENT ([code, of_nat (length payload)] @ payload)"

definition hci_acl :: "u16 \<Rightarrow> bytes \<Rightarrow> hci_packet option" where
  "hci_acl handle data =
     packet_of HCI_ACL_DATA
       ([ucast (handle AND 0x0FFF), ucast (drop_bit 8 handle),
         of_nat (length data mod 256), of_nat (length data div 256)] @ data)"

section \<open>H4 framing\<close>

record h4_framer =
  hf_packet_type :: "u8 option"
  hf_expected :: nat
  hf_buf :: bytes
  hf_buf_len :: nat

definition h4_new :: h4_framer where
  "h4_new = \<lparr>hf_packet_type = None, hf_expected = 0, hf_buf = replicate 260 0, hf_buf_len = 0\<rparr>"

definition h4_reset :: "h4_framer \<Rightarrow> h4_framer" where
  "h4_reset f = f\<lparr>hf_packet_type := None, hf_expected := 0\<rparr>"

text \<open>The arms for the three packet types differ in the length of the header and in where it holds
  the length of the rest.\<close>

definition header_len :: "u8 \<Rightarrow> nat" where
  "header_len ty = (if ty = HCI_COMMAND then 3 else if ty = HCI_EVENT then 2 else 4)"

definition body_len :: "u8 \<Rightarrow> bytes \<Rightarrow> nat" where
  "body_len ty buf =
     (if ty = HCI_COMMAND then unat (buf ! 2)
      else if ty = HCI_EVENT then unat (buf ! 1)
      else unat (of_le16 (buf ! 2) (buf ! 3)))"

definition h4_feed :: "u8 \<Rightarrow> h4_framer \<Rightarrow> (hci_packet option \<times> h4_framer) option" where
  "h4_feed byte f =
     (case hf_packet_type f of
        None \<Rightarrow>
          Some (None, if byte = HCI_COMMAND \<or> byte = HCI_ACL_DATA \<or> byte = HCI_EVENT
                      then f\<lparr>hf_packet_type := Some byte, hf_buf_len := 0\<rparr> else f)
      | Some ty \<Rightarrow>
          if ty = HCI_COMMAND \<or> ty = HCI_EVENT \<or> ty = HCI_ACL_DATA then do {
            buf \<leftarrow> put (hf_buf f) (hf_buf_len f) byte;
            let f = f\<lparr>hf_buf := buf, hf_buf_len := hf_buf_len f + 1\<rparr>;
            let f = (if hf_buf_len f = header_len ty
                     then f\<lparr>hf_expected := header_len ty + body_len ty (hf_buf f)\<rparr> else f);
            if hf_buf_len f = hf_expected f \<and> hf_expected f \<ge> header_len ty
            then let f = h4_reset f
                 in Some (Some \<lparr>hp_packet_type = ty, hp_payload = hf_buf f, hp_len = hf_buf_len f\<rparr>, f)
            else Some (None, f)
          } else Some (None, f))"

section \<open>The controller\<close>

record hci =
  hc_framer :: h4_framer
  hc_events :: "hci_packet ring"
  hc_own_addr :: bytes
  hc_adv_enabled :: bool
  hc_scan_enabled :: bool
  hc_conn_handle :: u16
  hc_connection_open :: bool

definition hci_new :: hci where
  "hci_new =
     \<lparr>hc_framer = h4_new, hc_events = ring_new 16, hc_own_addr = replicate 6 0, hc_adv_enabled = False,
      hc_scan_enabled = False, hc_conn_handle = 0, hc_connection_open = False\<rparr>"

definition hci_feed :: "u8 \<Rightarrow> hci \<Rightarrow> (hci_packet option \<times> hci) option" where
  "hci_feed byte h = do {
     (p, f) \<leftarrow> h4_feed byte (hc_framer h);
     Some (p, h\<lparr>hc_framer := f\<rparr>)
   }"

definition hci_push :: "hci_packet \<Rightarrow> hci \<Rightarrow> hci" where
  "hci_push p h = h\<lparr>hc_events := push_event (hc_events h) p\<rparr>"

definition hci_next_event :: "hci \<Rightarrow> hci_packet option \<times> hci" where
  "hci_next_event h = (let (p, q) = next_event (hc_events h) in (p, h\<lparr>hc_events := q\<rparr>))"

definition command_complete :: "u8 \<times> u8 \<Rightarrow> u8 \<Rightarrow> bytes \<Rightarrow> hci \<Rightarrow> hci option" where
  "command_complete opcode status params h =
     (if 4 + length params \<le> 260 then do {
        p \<leftarrow> hci_event HCI_EVT_COMMAND_COMPLETE ([1, fst opcode, snd opcode, status] @ params);
        Some (hci_push p h)
      } else None)"

definition command_status :: "u8 \<times> u8 \<Rightarrow> u8 \<Rightarrow> hci \<Rightarrow> hci option" where
  "command_status opcode status h = do {
     p \<leftarrow> hci_event HCI_EVT_COMMAND_STATUS [status, 1, fst opcode, snd opcode, 0];
     Some (hci_push p h)
   }"

text \<open>The commands for the LE controller; \<open>params.first()\<close> is the head of the parameters.\<close>

definition le_command ::
  "u8 \<times> u8 \<Rightarrow> u16 \<Rightarrow> bytes \<Rightarrow> hci \<times> ble \<times> world \<Rightarrow> (hci \<times> ble \<times> world) option" where
  "le_command op ocf params hbw =
     (case hbw of (h, b, w) \<Rightarrow>
      let complete = (\<lambda>(h, b, w). do { h \<leftarrow> command_complete op 0 [] h; Some (h, b, w) });
          enable = (case params of x # _ \<Rightarrow> x = 1 | [] \<Rightarrow> False) in
      if ocf = OCF_LE_SET_ADV_DATA then do {
        b \<leftarrow> (if length params \<ge> 32 then do {
                let n = min (unat (params ! 0)) 31;
                data \<leftarrow> slice params 1 (1 + n);
                Some (snd (gap_adv_set_configure data [] b))
              } else Some b);
        complete (h, b, w)
      }
      else if ocf = OCF_LE_SET_ADV_PARAMS then complete (h, b, w)
      else if ocf = OCF_LE_SET_ADV_ENABLE then
        if enable then do {
          (r, b, w) \<leftarrow> gap_adv_start adv_params_default (b, w);
          complete (h\<lparr>hc_adv_enabled := True\<rparr>, b, w)
        } else complete (h\<lparr>hc_adv_enabled := False\<rparr>, snd (gap_adv_stop b), w)
      else if ocf = OCF_LE_SET_SCAN_PARAMS then complete (h, b, w)
      else if ocf = OCF_LE_SET_SCAN_ENABLE then
        if enable then do {
          (r, b, w) \<leftarrow> gap_scan_start scan_params_default (b, w);
          complete (h\<lparr>hc_scan_enabled := True\<rparr>, b, w)
        } else complete (h\<lparr>hc_scan_enabled := False\<rparr>, snd (gap_scan_stop b), w)
      else if ocf = OCF_LE_CREATE_CONNECTION then do {
        (b, w) \<leftarrow> (if length params \<ge> 25 then do {
                     target \<leftarrow> slice params 14 20;
                     (r, b, w) \<leftarrow> gap_connect target Public (b, w);
                     Some (b, w)
                   } else Some (b, w));
        h \<leftarrow> command_status op 0 h;
        Some (h, b, w)
      }
      else if ocf = OCF_LE_SET_RANDOM_ADDRESS then
        complete (if length params \<ge> 6 then h\<lparr>hc_own_addr := take 6 params\<rparr> else h, b, w)
      else complete (h, b, w))"

definition handle_command :: "hci_packet \<Rightarrow> hci \<times> ble \<times> world \<Rightarrow> (hci \<times> ble \<times> world) option" where
  "handle_command packet hbw =
     (case hbw of (h, b, w) \<Rightarrow> do {
        b0 \<leftarrow> get (hp_payload packet) 0;
        b1 \<leftarrow> get (hp_payload packet) 1;
        let opcode = (ucast b0 :: u16) OR push_bit 8 (ucast b1);
        let ocf = opcode AND 0x03FF;
        let ogf = (ucast (drop_bit 10 opcode AND 0x3F) :: u8);
        params \<leftarrow> slice (hp_payload packet) 3 (hp_len packet);
        let op = (b0, b1);
        let complete = (\<lambda>ps. do { h \<leftarrow> command_complete op 0 ps h; Some (h, b, w) });
        if ogf = OGF_HOST then
          if ocf = OCF_READ_LOCAL_VERSION then complete [0x0C, 0, 0, 0, 0, 0, 0, 0]
          else if ocf = OCF_READ_BD_ADDR then complete (hc_own_addr h)
          else if ocf = OCF_READ_BUFFER_SIZE then complete [0, 0, 0, 0, 0, 0, 0, 0]
          else complete []
        else if ogf = OGF_LE then le_command op ocf params (h, b, w)
        else complete []
      })"

definition on_packet :: "hci_packet \<Rightarrow> hci \<times> ble \<times> world \<Rightarrow> (hci \<times> ble \<times> world) option" where
  "on_packet packet hbw =
     (if hp_packet_type packet = HCI_COMMAND then handle_command packet hbw else Some hbw)"

section \<open>Events for the host\<close>

text \<open>The discriminant of \<open>DisconnectReason\<close>.\<close>

fun reason_code :: "disconnect_reason \<Rightarrow> u8" where
  "reason_code RemoteTerminate = 0"
| "reason_code HostTerminate = 1"
| "reason_code SupervisionTimeout = 2"
| "reason_code LocalError = 3"

fun forward_event :: "ble_event \<Rightarrow> hci \<times> ble \<Rightarrow> hci option" where
  "forward_event (ScanReport addr t ty r data data_len) (h, b) = do {
     let n = min data_len 27;
     d \<leftarrow> slice data 0 n;
     p \<leftarrow> hci_event HCI_EVT_LE_META
            ([HCI_LE_ADVERTISING_REPORT, 1, ty, if is_random t then 1 else 0] @ addr @ [of_nat n] @ d @ [r]);
     Some (hci_push p h)
   }"
| "forward_event (Connected params) (h, b) = do {
     let h = h\<lparr>hc_connection_open := True, hc_conn_handle := 0\<rparr>;
     p \<leftarrow> hci_event HCI_EVT_LE_META
            ([HCI_LE_CONNECTION_COMPLETE, 0] @
             [0, 0, 0, if conn_is_master b then 1 else 0, 0] @ replicate 6 0 @
             le16 (cr_interval params) @ [0, 0] @ le16 (cr_timeout params) @ [0, 0]);
     Some (hci_push p h)
   }"
| "forward_event (Disconnected reason) (h, b) = do {
     p \<leftarrow> hci_event HCI_EVT_DISCONNECTION_COMPLETE [0, 0, 0, reason_code reason];
     Some ((hci_push p h)\<lparr>hc_connection_open := False\<rparr>)
   }"
| "forward_event _ (h, b) = Some h"

text \<open>The number of events still in the slots of a ring; a pop that returns one lowers it.\<close>

definition full_slots :: "'a ring \<Rightarrow> nat" where
  "full_slots s = length (filter (\<lambda>x. x \<noteq> None) (rg_slots s))"

lemma length_filter_clear:
  "i < length xs \<Longrightarrow> xs ! i \<noteq> None \<Longrightarrow>
     length (filter (\<lambda>x. x \<noteq> None) (xs[i := None])) < length (filter (\<lambda>x. x \<noteq> None) xs)"
  by (induction xs arbitrary: i) (auto split: nat.splits simp: nth_Cons')

lemma next_event_empties:
  assumes "next_event s = (Some x, s')" and "rg_tail s < length (rg_slots s)"
  shows "full_slots s' < full_slots s"
  using assms length_filter_clear [of "rg_tail s" "rg_slots s"]
  by (auto simp: next_event_def full_slots_def Let_def split: if_splits)

text \<open>\<open>while let Some(evt) = ble.next_event()\<close>: the tail of the ring is an index of the array, the
  access panics otherwise.\<close>

function hci_tick :: "hci \<Rightarrow> ble \<Rightarrow> (hci \<times> ble) option" where
  "hci_tick h b =
     (if rg_tail (bl_events b) < length (rg_slots (bl_events b)) then
        (case ble_next_event b of
           (None, b) \<Rightarrow> Some (h, b)
         | (Some evt, b) \<Rightarrow>
             (case forward_event evt (h, b) of None \<Rightarrow> None | Some h \<Rightarrow> hci_tick h b))
      else None)"
  by pat_completeness auto
termination
  by (relation "measure (\<lambda>(h, b). full_slots (bl_events b))")
    (auto simp: ble_next_event_def split: prod.splits dest: next_event_empties)

declare hci_tick.simps [simp del]

end
