(* ===== verification/Hci_Framing.thy ===== *)
theory Hci_Framing
  imports Hci
begin

text \<open>
  The H4 framer of \<^verbatim>\<open>src/hci.rs\<close> over whole byte streams: the packets of a well-formed stream
  come out as they went in, and on arbitrary bytes the framer keeps its shape.
\<close>


section \<open>Frames\<close>

text \<open>The bytes of a packet on the wire, what a receiver sees of a packet, and feeding a stream of
  bytes: the packets that come out and the framer afterwards.\<close>

definition h4_bytes :: "hci_packet \<Rightarrow> bytes" where
  "h4_bytes p = hp_packet_type p # take (hp_len p) (hp_payload p)"

definition packet_view :: "hci_packet \<Rightarrow> u8 \<times> bytes" where
  "packet_view p = (hp_packet_type p, take (hp_len p) (hp_payload p))"

fun run_h4 :: "bytes \<Rightarrow> h4_framer \<Rightarrow> (hci_packet list \<times> h4_framer) option" where
  "run_h4 [] f = Some ([], f)"
| "run_h4 (x # xs) f = do {
     (p, f) \<leftarrow> h4_feed x f;
     (ps, f) \<leftarrow> run_h4 xs f;
     Some (case p of None \<Rightarrow> ps | Some p \<Rightarrow> p # ps, f)
   }"

definition h4_type :: "u8 \<Rightarrow> bool" where
  "h4_type ty \<longleftrightarrow> ty = HCI_COMMAND \<or> ty = HCI_ACL_DATA \<or> ty = HCI_EVENT"

definition frame_ok :: "u8 \<Rightarrow> bytes \<Rightarrow> bool" where
  "frame_ok ty c \<longleftrightarrow> h4_type ty \<and> length c \<le> 260 \<and> length c = header_len ty + body_len ty c"

text \<open>The packets a host or controller builds with the three constructors.\<close>

definition wire_packet :: "hci_packet \<Rightarrow> bool" where
  "wire_packet p \<longleftrightarrow>
     (\<exists>ogf ocf d. length d \<le> 255 \<and> hci_command ogf ocf d = Some p) \<or>
     (\<exists>code d. length d \<le> 255 \<and> hci_event code d = Some p) \<or>
     (\<exists>h d. length d \<le> 256 \<and> hci_acl h d = Some p)"

lemma run_h4_append:
  "run_h4 (xs @ ys) f = do { (ps, f) \<leftarrow> run_h4 xs f; (qs, f) \<leftarrow> run_h4 ys f; Some (ps @ qs, f) }"
  by (induction xs arbitrary: f) (auto split: Option.bind_splits option.splits)

lemma header_len_bounds: "2 \<le> header_len ty" "header_len ty \<le> 4"
  by (simp_all add: header_len_def)

lemma body_len_prefix:
  assumes "take (header_len ty) b = take (header_len ty) c"
  shows "body_len ty b = body_len ty c"
proof -
  have "b ! i = c ! i" if "i < header_len ty" for i
    using that assms by (metis nth_take)
  then show ?thesis by (simp add: body_len_def header_len_def hci_types split: if_splits)
qed

section \<open>The framer inside a frame\<close>

text \<open>\<open>reading ty c i f\<close>: the framer has taken the first \<open>i\<close> bytes of the frame \<open>c\<close>.\<close>

definition reading :: "u8 \<Rightarrow> bytes \<Rightarrow> nat \<Rightarrow> h4_framer \<Rightarrow> bool" where
  "reading ty c i f \<longleftrightarrow> hf_packet_type f = Some ty \<and> hf_buf_len f = i \<and> length (hf_buf f) = 260 \<and>
     take i (hf_buf f) = take i c \<and> hf_expected f = (if header_len ty \<le> i then length c else 0)"

definition idle :: "h4_framer \<Rightarrow> bool" where
  "idle f \<longleftrightarrow> hf_packet_type f = None \<and> hf_expected f = 0 \<and> length (hf_buf f) = 260"

lemma h4_feed_inside:
  assumes "hf_packet_type f = Some ty" and "h4_type ty" and "hf_buf_len f < length (hf_buf f)"
  shows "h4_feed x f =
    (let n = Suc (hf_buf_len f);
         b = (hf_buf f)[hf_buf_len f := x];
         e = (if n = header_len ty then header_len ty + body_len ty b else hf_expected f);
         f' = f\<lparr>hf_buf := b, hf_buf_len := n, hf_expected := e\<rparr>
     in if n = e \<and> header_len ty \<le> e
        then Some (Some \<lparr>hp_packet_type = ty, hp_payload = b, hp_len = n\<rparr>, h4_reset f')
        else Some (None, f'))"
proof -
  have "ty = HCI_COMMAND \<or> ty = HCI_EVENT \<or> ty = HCI_ACL_DATA" using assms(2) by (auto simp: h4_type_def)
  moreover have "put (hf_buf f) (hf_buf_len f) x = Some ((hf_buf f)[hf_buf_len f := x])" using assms(3) by simp
  ultimately show ?thesis
    unfolding h4_feed_def assms(1) option.case Let_def
    by (cases "Suc (hf_buf_len f) = header_len ty") (auto simp: h4_reset_def simp del: put_Some)
qed

lemma feed_reading:
  assumes "reading ty c i f" and "frame_ok ty c" and "i < length c"
  shows "if Suc i = length c
    then \<exists>p f'. h4_feed (c ! i) f = Some (Some p, f') \<and> packet_view p = (ty, c) \<and> idle f'
    else \<exists>f'. h4_feed (c ! i) f = Some (None, f') \<and> reading ty c (Suc i) f'"
proof -
  let ?b = "(hf_buf f)[i := c ! i]" and ?h = "header_len ty"
  have l: "i < 260" "length (hf_buf f) = 260" using assms by (auto simp: frame_ok_def reading_def)
  have pre: "take (Suc i) ?b = take (Suc i) c"
    using assms l by (simp add: take_Suc_conv_app_nth take_update_cancel reading_def)
  have len: "length c = ?h + body_len ty c" "h4_type ty" using assms by (simp_all add: frame_ok_def)
  have bl: "body_len ty ?b = body_len ty c" if "Suc i = ?h" using that pre body_len_prefix by metis
  let ?e = "if ?h \<le> Suc i then length c else 0"
  have e: "(if Suc i = ?h then ?h + body_len ty ?b else hf_expected f) = ?e"
    using assms(1) bl len(1) by (auto simp: reading_def)
  have prem: "hf_packet_type f = Some ty" "hf_buf_len f < length (hf_buf f)" "hf_buf_len f = i"
    using assms(1) l by (simp_all add: reading_def)
  have "h4_feed (c ! i) f =
    (if Suc i = ?e \<and> ?h \<le> ?e
     then Some (Some \<lparr>hp_packet_type = ty, hp_payload = ?b, hp_len = Suc i\<rparr>,
            h4_reset (f\<lparr>hf_buf := ?b, hf_buf_len := Suc i, hf_expected := ?e\<rparr>))
     else Some (None, f\<lparr>hf_buf := ?b, hf_buf_len := Suc i, hf_expected := ?e\<rparr>))"
    using h4_feed_inside [OF prem(1) len(2) prem(2), of "c ! i"] unfolding Let_def prem(3) e .
  moreover have "?h \<le> length c" using len by simp
  ultimately show ?thesis
    using pre l assms(1) by (auto simp: packet_view_def idle_def h4_reset_def reading_def)
qed

lemma run_reading:
  assumes "reading ty c i f" and "frame_ok ty c" and "i < length c"
  shows "\<exists>p f'. run_h4 (drop i c) f = Some ([p], f') \<and> packet_view p = (ty, c) \<and> idle f'"
  using assms
proof (induction "length c - i" arbitrary: i f)
  case (Suc k)
  have d: "drop i c = c ! i # drop (Suc i) c" using Suc.prems(3) by (simp add: Cons_nth_drop_Suc)
  show ?case
  proof (cases "Suc i = length c")
    case True
    then show ?thesis using feed_reading [OF Suc.prems] d by auto
  next
    case False
    then obtain f' where f': "h4_feed (c ! i) f = Some (None, f')" "reading ty c (Suc i) f'"
      using feed_reading [OF Suc.prems] by auto
    then show ?thesis using Suc.hyps(1) [OF _ f'(2) Suc.prems(2)] Suc.hyps(2) Suc.prems(3) False d by auto
  qed
qed simp

lemma run_frame:
  assumes "idle f" and "frame_ok ty c"
  shows "\<exists>p f'. run_h4 (ty # c) f = Some ([p], f') \<and> packet_view p = (ty, c) \<and> idle f'"
proof -
  let ?f = "f\<lparr>hf_packet_type := Some ty, hf_buf_len := 0\<rparr>"
  have "h4_feed ty f = Some (None, ?f)" "0 < length c" "reading ty c 0 ?f"
    using assms header_len_bounds(1) [of ty] by (auto simp: h4_feed_def idle_def frame_ok_def h4_type_def reading_def)
  then show ?thesis using run_reading [of ty c 0 ?f] assms(2) by auto
qed

lemma run_garbage: "idle f \<Longrightarrow> (\<And>x. x \<in> set g \<Longrightarrow> \<not> h4_type x) \<Longrightarrow> run_h4 g f = Some ([], f)"
  by (induction g) (auto simp: h4_feed_def idle_def h4_type_def)

section \<open>The frames of the constructors\<close>

lemma packet_of_view: "packet_of ty c = Some p \<Longrightarrow> packet_view p = (ty, c) \<and> h4_bytes p = ty # c \<and> length c \<le> 260"
  by (auto simp: packet_of_def packet_view_def h4_bytes_def split: if_splits)

lemma of_le16_parts:
  assumes "n < 65536"
  shows "unat (of_le16 (of_nat (n mod 256)) (of_nat (n div 256))) = n"
proof -
  have "(of_nat (n mod 256) :: u8) = ucast (of_nat n :: u16)"
    by (rule word_unat_eq_iff [THEN iffD2]) (simp add: unsigned_of_nat unsigned_ucast_eq take_bit_eq_mod mod_mod_cancel)
  moreover have "(of_nat (n div 256) :: u8) = ucast (drop_bit 8 (of_nat n :: u16))"
    using assms by (intro word_unat_eq_iff [THEN iffD2])
      (simp add: unsigned_of_nat unsigned_ucast_eq take_bit_eq_mod drop_bit_eq_div unat_div)
  moreover have "unat (of_nat n :: u16) = n" using assms by (simp add: unsigned_of_nat take_bit_nat_eq_self)
  ultimately show ?thesis by simp
qed

lemma wire_packet_frame: "wire_packet p \<Longrightarrow> \<exists>ty c. frame_ok ty c \<and> packet_view p = (ty, c) \<and> h4_bytes p = ty # c"
proof -
  assume "wire_packet p"
  then consider
      (command) ogf ocf d where "length d \<le> 255" "hci_command ogf ocf d = Some p"
    | (ev) code d where "length d \<le> 255" "hci_event code d = Some p"
    | (acl) h d where "length d \<le> 256" "hci_acl h d = Some p"
    unfolding wire_packet_def by blast
  then show ?thesis
  proof cases
    case command
    let ?c = "[ucast (ocf AND 0xFF), ucast (drop_bit 8 ocf AND 0x03) OR push_bit 2 (ogf AND 0x3F), of_nat (length d)] @ d"
    have "frame_ok HCI_COMMAND ?c"
      using command(1)
      by (simp add: frame_ok_def h4_type_def header_len_def body_len_def hci_types unsigned_of_nat take_bit_nat_eq_self)
    then show ?thesis using packet_of_view command(2) unfolding hci_command_def by blast
  next
    case ev
    let ?c = "[code, of_nat (length d)] @ d"
    have "frame_ok HCI_EVENT ?c"
      using ev(1)
      by (simp add: frame_ok_def h4_type_def header_len_def body_len_def hci_types unsigned_of_nat take_bit_nat_eq_self)
    then show ?thesis using packet_of_view ev(2) unfolding hci_event_def by blast
  next
    case acl
    let ?c = "[ucast (h AND 0x0FFF), ucast (drop_bit 8 h), of_nat (length d mod 256), of_nat (length d div 256)] @ d"
    have "frame_ok HCI_ACL_DATA ?c"
      using acl(1) of_le16_parts [of "length d"]
      by (simp add: frame_ok_def h4_type_def header_len_def body_len_def hci_types)
    then show ?thesis using packet_of_view acl(2) unfolding hci_acl_def by blast
  qed
qed


lemma run_stream:
  assumes "length gaps = length ps" and "idle f"
    and "\<And>g x. g \<in> set gaps \<Longrightarrow> x \<in> set g \<Longrightarrow> \<not> h4_type x" and "\<And>p. p \<in> set ps \<Longrightarrow> wire_packet p"
  shows "\<exists>qs f'. run_h4 (concat (map2 (\<lambda>g p. g @ h4_bytes p) gaps ps)) f = Some (qs, f') \<and>
    map packet_view qs = map packet_view ps \<and> idle f'"
  using assms
proof (induction gaps ps arbitrary: f rule: list_induct2)
  case (Cons g gaps p ps)
  obtain ty c where c: "frame_ok ty c" "packet_view p = (ty, c)" "h4_bytes p = ty # c"
    using wire_packet_frame Cons.prems(3) by (metis list.set_intros(1))
  obtain q f1 where q: "run_h4 (ty # c) f = Some ([q], f1)" "packet_view q = (ty, c)" "idle f1"
    using run_frame [OF Cons.prems(1) c(1)] by blast
  obtain qs f' where "run_h4 (concat (map2 (\<lambda>g p. g @ h4_bytes p) gaps ps)) f1 = Some (qs, f')"
    "map packet_view qs = map packet_view ps" "idle f'"
    using Cons.IH [OF q(3)] Cons.prems by auto
  moreover have "run_h4 g f = Some ([], f)" using run_garbage Cons.prems by auto
  ultimately show ?case
    using c q run_h4_append [of "ty # c" _ f] by (auto simp: run_h4_append simp del: run_h4.simps)
qed simp

text \<open>What the constructors build: they check the size of the packet's array only, so a command may
  have up to 257 and an event up to 258 bytes of content, and the length octet of a content above
  255 bytes wraps. The framer then cuts a shorter packet off the front.\<close>

definition built_packet :: "hci_packet \<Rightarrow> bool" where
  "built_packet p \<longleftrightarrow> (\<exists>ogf ocf d. hci_command ogf ocf d = Some p) \<or> (\<exists>code d. hci_event code d = Some p) \<or>
     (\<exists>h d. hci_acl h d = Some p)"

lemma run_front:
  assumes "frame_ok ty (take n c)" and "n < length c" and "run_h4 (ty # c) h4_new = Some (qs, f)"
  shows "map packet_view qs \<noteq> [(ty, c)]"
proof -
  have "idle h4_new" by (simp add: idle_def h4_new_def)
  then obtain q f1 where q: "run_h4 (ty # take n c) h4_new = Some ([q], f1)" "packet_view q = (ty, take n c)"
    using run_frame assms(1) by blast
  have c: "(ty # take n c) @ drop n c = ty # c" by simp
  have "run_h4 ((ty # take n c) @ drop n c) h4_new = do { (rs, g) \<leftarrow> run_h4 (drop n c) f1; Some ([q] @ rs, g) }"
    by (simp only: run_h4_append q(1) bind.bind_lunit prod.case)
  then have "Some (qs, f) = do { (rs, g) \<leftarrow> run_h4 (drop n c) f1; Some ([q] @ rs, g) }"
    unfolding c assms(3) .
  moreover have "\<exists>qs'. qs = q # qs'" if "Some (qs, f) = do { (rs, g) \<leftarrow> y; Some ([q] @ rs, g) }" for y :: "(hci_packet list \<times> h4_framer) option"
    using that by (cases y) auto
  ultimately obtain qs' where "qs = q # qs'" by blast
  moreover have "take n c \<noteq> c" using assms(2) by (auto dest: arg_cong [where f = length])
  ultimately show ?thesis using q(2) by auto
qed

lemma wrapped_octet: "255 < n \<Longrightarrow> n \<le> 258 \<Longrightarrow> unat (of_nat n :: u8) = n - 256"
proof -
  assume n: "255 < n" "n \<le> 258"
  then have "n mod 256 = n - 256" by (simp add: mod_if)
  then show ?thesis by (simp add: unsigned_of_nat take_bit_eq_mod)
qed

lemma long_packet_miscut:
  assumes "built_packet p" and "\<not> wire_packet p" and "run_h4 (h4_bytes p) h4_new = Some (qs, f)"
  shows "map packet_view qs \<noteq> [packet_view p]"
proof -
  consider (command) ogf ocf d where "hci_command ogf ocf d = Some p" "255 < length d"
    | (ev) code d where "hci_event code d = Some p" "255 < length d"
    | (acl) h d where "hci_acl h d = Some p" "256 < length d"
    using assms(1,2) unfolding built_packet_def wire_packet_def by (metis not_le)
  then show ?thesis
  proof cases
    case command
    let ?h = "[ucast (ocf AND 0xFF), ucast (drop_bit 8 ocf AND 0x03) OR push_bit 2 (ogf AND 0x3F), of_nat (length d)]"
    have p: "packet_view p = (HCI_COMMAND, ?h @ d)" "h4_bytes p = HCI_COMMAND # ?h @ d" "length d \<le> 257"
      using packet_of_view [of HCI_COMMAND "?h @ d" p] command(1) unfolding hci_command_def by simp_all
    have "frame_ok HCI_COMMAND (take (3 + (length d - 256)) (?h @ d))"
      using p(3) command(2) by (simp add: frame_ok_def h4_type_def header_len_def body_len_def hci_types wrapped_octet)
    from run_front [OF this] p command(2) assms(3) show ?thesis by simp
  next
    case ev
    let ?h = "[code, of_nat (length d)]"
    have p: "packet_view p = (HCI_EVENT, ?h @ d)" "h4_bytes p = HCI_EVENT # ?h @ d" "length d \<le> 258"
      using packet_of_view [of HCI_EVENT "?h @ d" p] ev(1) unfolding hci_event_def by simp_all
    have "frame_ok HCI_EVENT (take (2 + (length d - 256)) (?h @ d))"
      using p(3) ev(2) by (simp add: frame_ok_def h4_type_def header_len_def body_len_def hci_types wrapped_octet)
    from run_front [OF this] p ev(2) assms(3) show ?thesis by simp
  next
    case acl
    with packet_of_view show ?thesis unfolding hci_acl_def by fastforce
  qed
qed

section \<open>The framer on arbitrary bytes\<close>

text \<open>What the array type and the framing rules promise of a framer: inside a frame the announced
  length is known once the header is in, and more is still to come.\<close>

definition framer_ok :: "h4_framer \<Rightarrow> bool" where
  "framer_ok f \<longleftrightarrow> length (hf_buf f) = 260 \<and> hf_buf_len f \<le> 260 \<and>
     (case hf_packet_type f of
        None \<Rightarrow> hf_expected f = 0
      | Some ty \<Rightarrow> h4_type ty \<and>
          (if header_len ty \<le> hf_buf_len f
           then hf_expected f = header_len ty + body_len ty (hf_buf f) \<and> hf_buf_len f < hf_expected f
           else hf_expected f = 0))"

definition packet_ok :: "hci_packet \<Rightarrow> bool" where
  "packet_ok p \<longleftrightarrow> length (hp_payload p) = 260 \<and> frame_ok (hp_packet_type p) (take (hp_len p) (hp_payload p)) \<and>
     hp_len p \<le> 260"

lemma h4_new_ok: "framer_ok h4_new"
  by (simp add: framer_ok_def h4_new_def)

lemma h4_feed_None_iff:
  assumes "framer_ok f"
  shows "h4_feed x f = None \<longleftrightarrow> hf_packet_type f = Some HCI_ACL_DATA \<and> hf_buf_len f = 260"
proof (cases "hf_packet_type f")
  case None
  then show ?thesis by (simp add: h4_feed_def)
next
  case (Some ty)
  with assms have ty: "h4_type ty" and len: "length (hf_buf f) = 260" "hf_buf_len f \<le> 260" by (auto simp: framer_ok_def)
  show ?thesis
  proof (cases "hf_buf_len f = 260")
    case True
    have "260 < header_len ty + body_len ty (hf_buf f)"
      using assms Some True header_len_bounds(2) [of ty] by (auto simp: framer_ok_def split: if_splits)
    moreover have "unat (hf_buf f ! 2) < 2 ^ LENGTH(8)" "unat (hf_buf f ! Suc 0) < 2 ^ LENGTH(8)"
      by (rule unsigned_less)+
    ultimately have "ty = HCI_ACL_DATA"
      using ty by (auto simp: h4_type_def header_len_def body_len_def hci_types simp flip: not_less split: if_splits)
    then show ?thesis using Some True len by (simp add: h4_feed_def put_def)
  next
    case False
    then show ?thesis using h4_feed_inside [OF Some ty, of x] len Some by (simp add: Let_def)
  qed
qed

lemma h4_feed_ok:
  assumes "framer_ok f" and "h4_feed x f = Some (r, f')"
  shows "framer_ok f' \<and> (\<forall>p. r = Some p \<longrightarrow> packet_ok p)"
proof (cases "hf_packet_type f")
  case None
  with assms show ?thesis
    by (auto simp: h4_feed_def framer_ok_def h4_type_def header_len_def split: if_splits)
next
  case (Some ty)
  with assms(1) have ty: "h4_type ty" and len: "length (hf_buf f) = 260" "hf_buf_len f \<le> 260" by (auto simp: framer_ok_def)
  moreover have "hf_buf_len f \<noteq> 260"
    using assms(2) Some len ty by (auto simp: h4_feed_def put_def h4_type_def split: if_splits)
  ultimately have "hf_buf_len f < length (hf_buf f)" by simp
  note step = h4_feed_inside [OF Some ty this, of x]
  let ?n = "Suc (hf_buf_len f)" and ?b = "(hf_buf f)[hf_buf_len f := x]" and ?h = "header_len ty"
  let ?e = "if ?n = ?h then ?h + body_len ty ?b else hf_expected f"
  have pre: "take ?h ?b = take ?h (hf_buf f)" if "?h < ?n" using that by (simp add: take_update_cancel)
  have e: "?e = (if ?h \<le> ?n then ?h + body_len ty ?b else 0)"
    using assms(1) Some body_len_prefix [OF pre] by (auto simp: framer_ok_def split: if_splits)
  have b: "body_len ty (take ?n ?b) = body_len ty ?b" if "?h \<le> ?n" using that by (intro body_len_prefix) simp
  have "?n \<le> ?e" if "?h \<le> ?n" using that e assms(1) Some by (auto simp: framer_ok_def split: if_splits)
  then show ?thesis
    using assms(2) step e b len ty Some \<open>hf_buf_len f < length (hf_buf f)\<close>
    by (auto simp: Let_def framer_ok_def packet_ok_def frame_ok_def h4_reset_def split: if_splits)
qed

lemma run_h4_ok:
  "run_h4 xs f = Some (ps, f') \<Longrightarrow> framer_ok f \<Longrightarrow> framer_ok f' \<and> (\<forall>p \<in> set ps. packet_ok p)"
  by (induction xs arbitrary: f ps) (fastforce split: Option.bind_splits option.splits dest: h4_feed_ok)+


section \<open>Properties\<close>

text \<open>C7. The H4 framer recovers a stream of packets: the bytes of any sequence of packets built by
  \<open>HciPacket::command\<close> and \<open>event\<close> (at most 255 bytes of content) and \<open>acl\<close> (at most 256), with
  arbitrary bytes that are no packet type between them, fed one by one to a new framer, give
  exactly those packets in order, type and content, without a panic, and leave the framer between
  packets. The bounds are exact: the constructors also accept commands and events of a few bytes
  more, whose length octet wraps, and none of these is recovered from its own bytes.\<close>

theorem h4_stream_roundtrip:
  assumes "length gaps = length ps" and "\<forall>g \<in> set gaps. \<forall>x \<in> set g. x \<notin> {HCI_COMMAND, HCI_ACL_DATA, HCI_EVENT}"
    and "\<forall>p \<in> set ps. wire_packet p"
  shows "(\<exists>qs f. run_h4 (concat (map2 (\<lambda>g p. g @ h4_bytes p) gaps ps)) h4_new = Some (qs, f) \<and>
      map packet_view qs = map packet_view ps \<and> hf_packet_type f = None) \<and>
    (\<forall>p qs f. built_packet p \<and> \<not> wire_packet p \<and> run_h4 (h4_bytes p) h4_new = Some (qs, f) \<longrightarrow>
      map packet_view qs \<noteq> [packet_view p])"
proof -
  have "idle h4_new" by (simp add: idle_def h4_new_def)
  then show ?thesis using run_stream [of gaps ps h4_new] assms long_packet_miscut by (auto simp: h4_type_def idle_def)
qed

theorem h4_stream_roundtrip_witness:
  "\<exists>p q qs f. hci_command 8 0x000A [1] = Some p \<and> hci_acl 0x42 [1, 2, 4] = Some q \<and>
     run_h4 ([0, 0xAA] @ h4_bytes p @ [0xFF] @ h4_bytes q) h4_new = Some (qs, f) \<and>
     map packet_view qs = [(HCI_COMMAND, [0x0A, 0x20, 1, 1]), (HCI_ACL_DATA, [0x42, 0, 3, 0, 1, 2, 4])]"
proof -
  obtain p q where pq: "hci_command 8 0x000A [1] = Some p" "hci_acl 0x42 [1, 2, 4] = Some q"
    by (simp add: hci_command_def hci_acl_def packet_of_def)
  then have "wire_packet p" "wire_packet q" unfolding wire_packet_def by fastforce+
  moreover have "packet_view p = (HCI_COMMAND, [0x0A, 0x20, 1, 1])" "packet_view q = (HCI_ACL_DATA, [0x42, 0, 3, 0, 1, 2, 4])"
    using packet_of_view pq by (fastforce simp: hci_command_def hci_acl_def)+
  ultimately show ?thesis
    using h4_stream_roundtrip [of "[[0, 0xAA], [0xFF]]" "[p, q]"] pq by (auto simp: hci_types)
qed

text \<open>C23. On an arbitrary byte stream the framer keeps its shape (a 260-byte buffer, a fill level
  within it, an announced length that matches the header), every packet it returns is complete
  and lies within its array, and the only way to make it panic is a further byte for an ACL
  packet whose header announces more than 256 bytes, once the buffer is full.\<close>

theorem h4_framer_typed:
  assumes "run_h4 xs h4_new = Some (ps, f)"
  shows "framer_ok f \<and> (\<forall>p \<in> set ps. packet_ok p) \<and>
    (h4_feed x f = None \<longleftrightarrow> hf_packet_type f = Some HCI_ACL_DATA \<and> hf_buf_len f = 260 \<and>
       256 < unat (of_le16 (hf_buf f ! 2) (hf_buf f ! 3)))"
proof -
  have ok: "framer_ok f" "\<forall>p \<in> set ps. packet_ok p" using run_h4_ok [OF assms h4_new_ok] by simp_all
  moreover have "256 < unat (of_le16 (hf_buf f ! 2) (hf_buf f ! 3))"
    if "hf_packet_type f = Some HCI_ACL_DATA" "hf_buf_len f = 260"
    using ok(1) that by (auto simp: framer_ok_def header_len_def body_len_def hci_types)
  ultimately show ?thesis using h4_feed_None_iff [OF ok(1)] by blast
qed

text \<open>A command of 256 bytes of content is built, and read as one without content.\<close>

lemma long_command_read_as_empty:
  "map_option (\<lambda>p. map_option (map packet_view \<circ> fst) (run_h4 (h4_bytes p) h4_new)) (hci_command 8 0x000A (replicate 256 0)) =
   Some (Some [(HCI_COMMAND, [0x0A, 0x20, 0])])"
  by code_simp

text \<open>A packet of 257 bytes announced as ACL data stops the controller.\<close>

lemma long_acl_panics: "run_h4 ([2, 0, 0, 1, 1] @ replicate 257 0) h4_new = None"
  by code_simp

theorem h4_framer_typed_witness:
  "\<exists>ps f. run_h4 ([2, 0, 0, 1, 1] @ replicate 256 0) h4_new = Some (ps, f) \<and> framer_ok f \<and> h4_feed 0 f = None"
proof -
  have "run_h4 ([2, 0, 0, 1, 1] @ replicate 256 0) h4_new =
      Some ([], \<lparr>hf_packet_type = Some 2, hf_expected = 261, hf_buf = [0, 0, 1, 1] @ replicate 256 0, hf_buf_len = 260\<rparr>)"
    by code_simp
  from h4_framer_typed [OF this] this show ?thesis by (simp add: hci_types of_le16_def)
qed

end
