(* ===== verification/Ble_Invariant.thy ===== *)
theory Ble_Invariant
  imports Ble_Conn Conn_Schedule
begin

text \<open>
  The invariant of the stack object of \<^verbatim>\<open>src/hw/ble.rs\<close> and its preservation by every operation
  of the interface: array sizes and stored lengths, parameters that were checked when a procedure
  was started, the shape of the connection and of the queued events, and a disabled radio between
  calls.
\<close>


section \<open>The shape of the stack object\<close>

definition bonds_ok :: "ram_bond_store \<Rightarrow> bool" where
  "bonds_ok s \<longleftrightarrow> (\<forall>b. Some b \<in> set (rb_bonds s) \<longrightarrow> length (bi_ltk b) = 16)"

text \<open>The parameters that \<open>gap_adv_start\<close> and \<open>gap_scan_start\<close> accept.\<close>

definition adv_valid :: "adv_params \<Rightarrow> bool" where
  "adv_valid p \<longleftrightarrow> 32 \<le> ap_interval_min p \<and> ap_interval_min p \<le> 16384 \<and> ap_interval_min p \<le> ap_interval_max p \<and>
     ap_channel_map p AND 7 \<noteq> 0 \<and> (ap_adv_type p = ConnectableDirected \<longrightarrow> ap_peer_addr p \<noteq> None)"

definition scan_valid :: "scan_params \<Rightarrow> bool" where
  "scan_valid p \<longleftrightarrow> 4 \<le> sp_window p \<and> sp_window p \<le> sp_interval p \<and> sp_interval p \<le> 16384"

definition peer_typed :: "adv_params \<Rightarrow> bool" where
  "peer_typed p \<longleftrightarrow> (\<forall>a. ap_peer_addr p = Some a \<longrightarrow> length a = 6)"

fun event_typed :: "ble_event \<Rightarrow> bool" where
  "event_typed (ScanReport addr t ty r data n) \<longleftrightarrow> length addr = 6 \<and> length data = 31 \<and> n \<le> 31"
| "event_typed _ \<longleftrightarrow> True"

definition events_ok :: "ble_event ring \<Rightarrow> bool" where
  "events_ok q \<longleftrightarrow> ring_wf 8 q \<and> (\<forall>e. Some e \<in> set (rg_slots q) \<longrightarrow> event_typed e)"

definition conn_typed :: "conn \<Rightarrow> bool" where
  "conn_typed c \<longleftrightarrow> conn_ok c \<and> bonds_ok (cn_bond_store c)"

definition ble_ok :: "ble \<Rightarrow> bool" where
  "ble_ok b \<longleftrightarrow> length (bl_adv_data b) = 31 \<and> bl_adv_data_len b \<le> 31 \<and> length (bl_scan_rsp b) = 31 \<and>
     bl_scan_rsp_len b \<le> 31 \<and> length (bl_own_addr b) = 6 \<and> bl_adv_channel_idx b < 3 \<and> bl_scan_channel_idx b \<le> 3 \<and>
     length (bl_tx_buf b) = 257 \<and> bl_tx_pdu_len b \<le> 65 \<and> length (bl_rx_buf b) = 257 \<and> bl_rx_pdu_len b \<le> 65 \<and>
     (\<forall>c. bl_conn b = Some c \<longrightarrow> conn_typed c) \<and> (\<forall>t. bl_connect_target b = Some t \<longrightarrow> length t = 6) \<and>
     events_ok (bl_events b) \<and> peer_typed (bl_adv_params b) \<and>
     (bl_adv_state b \<noteq> AdvIdle \<longrightarrow> adv_valid (bl_adv_params b)) \<and>
     (bl_scan_state b \<noteq> ScanIdle \<longrightarrow> scan_valid (bl_scan_params b))"

definition stack_ok :: "ble \<times> world \<Rightarrow> bool" where
  "stack_ok bw \<longleftrightarrow> ble_ok (fst bw) \<and> radio_off (snd bw)"

text \<open>Fields the invariant leaves free, and the conditions on the others.\<close>

lemma ble_ok_free [simp]:
  "ble_ok (b\<lparr>bl_adv_accum := x0\<rparr>) = ble_ok b" "ble_ok (b\<lparr>bl_scan_accum := x1\<rparr>) = ble_ok b"
  "ble_ok (b\<lparr>bl_own_addr_type := x2\<rparr>) = ble_ok b" "ble_ok (b\<lparr>bl_scan_cycle_start := x3\<rparr>) = ble_ok b"
  "ble_ok (b\<lparr>bl_connect_target_type := x4\<rparr>) = ble_ok b" "ble_ok (b\<lparr>bl_last_radio_channel := x5\<rparr>) = ble_ok b"
  "ble_ok (b\<lparr>bl_accept_list := x6\<rparr>) = ble_ok b" "ble_ok (b\<lparr>bl_irk := x7\<rparr>) = ble_ok b"
  "ble_ok (b\<lparr>bl_periodic_sync := x8\<rparr>) = ble_ok b"
  by (simp_all add: ble_ok_def)

lemma ble_ok_set:
  "ble_ok b \<Longrightarrow> length x = 31 \<Longrightarrow> ble_ok (b\<lparr>bl_adv_data := x\<rparr>)"
  "ble_ok b \<Longrightarrow> n \<le> 31 \<Longrightarrow> ble_ok (b\<lparr>bl_adv_data_len := n\<rparr>)"
  "ble_ok b \<Longrightarrow> length x = 31 \<Longrightarrow> ble_ok (b\<lparr>bl_scan_rsp := x\<rparr>)"
  "ble_ok b \<Longrightarrow> n \<le> 31 \<Longrightarrow> ble_ok (b\<lparr>bl_scan_rsp_len := n\<rparr>)"
  "ble_ok b \<Longrightarrow> length x = 6 \<Longrightarrow> ble_ok (b\<lparr>bl_own_addr := x\<rparr>)"
  "ble_ok b \<Longrightarrow> n < 3 \<Longrightarrow> ble_ok (b\<lparr>bl_adv_channel_idx := n\<rparr>)"
  "ble_ok b \<Longrightarrow> n \<le> 3 \<Longrightarrow> ble_ok (b\<lparr>bl_scan_channel_idx := n\<rparr>)"
  "ble_ok b \<Longrightarrow> length x = 257 \<Longrightarrow> ble_ok (b\<lparr>bl_tx_buf := x\<rparr>)"
  "ble_ok b \<Longrightarrow> n \<le> 65 \<Longrightarrow> ble_ok (b\<lparr>bl_tx_pdu_len := n\<rparr>)"
  "ble_ok b \<Longrightarrow> length x = 257 \<Longrightarrow> ble_ok (b\<lparr>bl_rx_buf := x\<rparr>)"
  "ble_ok b \<Longrightarrow> n \<le> 65 \<Longrightarrow> ble_ok (b\<lparr>bl_rx_pdu_len := n\<rparr>)"
  "ble_ok b \<Longrightarrow> (\<And>c. co = Some c \<Longrightarrow> conn_typed c) \<Longrightarrow> ble_ok (b\<lparr>bl_conn := co\<rparr>)"
  "ble_ok b \<Longrightarrow> (\<And>t. ta = Some t \<Longrightarrow> length t = 6) \<Longrightarrow> ble_ok (b\<lparr>bl_connect_target := ta\<rparr>)"
  "ble_ok b \<Longrightarrow> events_ok q \<Longrightarrow> ble_ok (b\<lparr>bl_events := q\<rparr>)"
  "ble_ok b \<Longrightarrow> s = AdvIdle \<or> bl_adv_state b \<noteq> AdvIdle \<or> adv_valid (bl_adv_params b) \<Longrightarrow> ble_ok (b\<lparr>bl_adv_state := s\<rparr>)"
  "ble_ok b \<Longrightarrow> z = ScanIdle \<or> bl_scan_state b \<noteq> ScanIdle \<or> scan_valid (bl_scan_params b) \<Longrightarrow> ble_ok (b\<lparr>bl_scan_state := z\<rparr>)"
  "ble_ok b \<Longrightarrow> peer_typed p \<Longrightarrow> adv_valid p \<Longrightarrow> ble_ok (b\<lparr>bl_adv_params := p\<rparr>)"
  "ble_ok b \<Longrightarrow> scan_valid sp \<Longrightarrow> ble_ok (b\<lparr>bl_scan_params := sp\<rparr>)"
  by (auto simp: ble_ok_def)

lemma ble_ok_lengths:
  "ble_ok b \<Longrightarrow> length (bl_adv_data b) = 31" "ble_ok b \<Longrightarrow> length (bl_scan_rsp b) = 31"
  "ble_ok b \<Longrightarrow> length (bl_own_addr b) = 6" "ble_ok b \<Longrightarrow> length (bl_tx_buf b) = 257"
  "ble_ok b \<Longrightarrow> length (bl_rx_buf b) = 257" "ble_ok b \<Longrightarrow> events_ok (bl_events b)"
  "ble_ok b \<Longrightarrow> bl_conn b = Some c \<Longrightarrow> conn_typed c" "ble_ok b \<Longrightarrow> bl_connect_target b = Some t \<Longrightarrow> length t = 6"
  "ble_ok b \<Longrightarrow> peer_typed (bl_adv_params b)" "ble_ok b \<Longrightarrow> bl_tx_pdu_len b \<le> 65" "ble_ok b \<Longrightarrow> bl_adv_data_len b \<le> 31"
  "ble_ok b \<Longrightarrow> bl_scan_rsp_len b \<le> 31" "ble_ok b \<Longrightarrow> bl_rx_pdu_len b \<le> 65"
  by (simp_all add: ble_ok_def)

section \<open>Helpers keep it\<close>

lemma push_slots: "set (rg_slots (push_event s x)) \<subseteq> insert (Some x) (set (rg_slots s))"
  by (auto simp: push_event_def Let_def dest: set_update_subset_insert [THEN subsetD])

lemma pop_slots: "set (rg_slots (snd (next_event s))) \<subseteq> insert None (set (rg_slots s))"
  by (auto simp: next_event_def Let_def dest: set_update_subset_insert [THEN subsetD])

lemma pop_wf: "ring_wf n s \<Longrightarrow> ring_wf n (snd (next_event s))"
  by (auto simp: next_event_def ring_wf_def Let_def)

lemma events_ok_push: "events_ok q \<Longrightarrow> event_typed e \<Longrightarrow> events_ok (push_event q e)"
  using push_slots [of q e] by (auto simp: events_ok_def push_wf)

lemma events_ok_pop: "events_ok q \<Longrightarrow> events_ok (snd (next_event q))"
  using pop_slots [of q] by (auto simp: events_ok_def pop_wf)

lemma ble_push_ok [simp]: "ble_ok b \<Longrightarrow> event_typed e \<Longrightarrow> ble_ok (ble_push e b)"
  by (simp add: ble_push_def ble_ok_set events_ok_push ble_ok_lengths)

lemma ble_push_fields [simp]:
  "bl_conn (ble_push e b) = bl_conn b" "bl_adv_state (ble_push e b) = bl_adv_state b"
  "bl_scan_state (ble_push e b) = bl_scan_state b" "bl_rx_buf (ble_push e b) = bl_rx_buf b"
  "bl_tx_buf (ble_push e b) = bl_tx_buf b" "bl_own_addr (ble_push e b) = bl_own_addr b"
  by (simp_all add: ble_push_def)

lemma scan_report_typed [simp]: "length addr = 6 \<Longrightarrow> event_typed (scan_report addr ty r data)"
  by (simp add: scan_report_def Let_def)

lemma world_tasks [simp]:
  "w_tasks (set_radio f w) = w_tasks w" "w_tasks (set_compare v w) = w_tasks w" "w_tasks (snd (set_channel ch w)) = w_tasks w"
  "w_tasks (set_access_address aa w) = w_tasks w" "w_tasks (set_tx_power p w) = w_tasks w" "w_tasks (timer_init w) = w_tasks w"
  by (simp_all add: set_radio_def set_compare_def set_channel_def set_access_address_def set_tx_power_def timer_init_def
      Let_def split: sum.split prod.split)

lemma radio_init_tasks [simp]: "w_tasks (radio_init w) = w_tasks w"
  by (simp add: radio_init_def Let_def)

lemma radio_off_tasks [simp]:
  "radio_off (set_compare v w) = radio_off w" "radio_off (snd (set_channel ch w)) = radio_off w"
  "radio_off (radio_init w) = radio_off w" "radio_off (set_tx_power p w) = radio_off w" "radio_off (timer_init w) = radio_off w"
  by (simp_all add: radio_off_def)

lemma timer_now_off: "timer_now w = Some (t, w') \<Longrightarrow> radio_off w' = radio_off w"
  by (auto dest!: timer_now_SomeD simp: radio_off_def)

lemma rssi_off: "rssi w = Some (r, w') \<Longrightarrow> radio_off w' = radio_off w"
  by (auto simp: rssi_def radio_off_def split: list.splits)

lemma wait_until_off: "wait_until d w = Some w' \<Longrightarrow> radio_off w' = radio_off w"
  by (auto simp: wait_until_def radio_off_def)

lemma encode_with_length:
  assumes "encode_with out ty tx rx n wr = Some (Inr (m, out'))"
    and "\<And>o0 o1. wr o0 = Some o1 \<Longrightarrow> length o1 = length o0"
  shows "m \<le> 65 \<and> m \<le> length out \<and> length out' = length out"
  using assms by (auto simp: encode_with_def Let_def bind_eq_Some_conv adv_hdr_encode_def split: if_splits)

lemma encode_typed_length:
  assumes "encode_typed pdu out tx rx = Some (Inr (m, out'))"
  shows "m \<le> 65 \<and> m \<le> length out \<and> length out' = length out"
proof -
  have *: "\<exists>ty tx rx n wr. encode_with out ty tx rx n wr = Some (Inr (m, out')) \<and> (\<forall>o0 o1. wr o0 = Some o1 \<longrightarrow> length o1 = length o0)"
    using assms
    by (cases pdu; simp add: encode_typed.simps split: if_splits; intro exI conjI; (assumption | rule refl)?)
      (auto simp: write_addr_data_def write_two_addr_def bind_eq_Some_conv put_def Let_def dest!: copy_slice_length split: if_splits)
  then show ?thesis using encode_with_length by blast
qed

lemma adv_pdu_decode_addr:
  assumes "adv_pdu_decode bs = Inr pdu"
  shows "case pdu of PeriodicAdv _ _ \<Rightarrow> True | _ \<Rightarrow> length (adv_addr pdu) = 6"
proof -
  have "case pdu of PeriodicAdv _ _ \<Rightarrow> True | _ \<Rightarrow> length (adv_addr pdu) = 6" if "decode_ext_ind p = Inr pdu" for p
    using that by (auto simp: decode_ext_ind_def Let_def split: if_splits)
  then show ?thesis
    using assms by (auto simp: adv_pdu_decode_def try_then_Inr split6_def Let_def split: if_splits)
qed

section \<open>Listening\<close>

lemma poll_len_le: "receive_poll buf w = Some (Inr (Some n), buf', w') \<Longrightarrow> n \<le> 65"
proof -
  assume "receive_poll buf w = Some (Inr (Some n), buf', w')"
  from receive_poll_effect [OF this] have "n = 2 + unat (drop_bit 1 (buf' ! 1) AND 0x3F)" by simp
  moreover have "unat (x AND 0x3F) \<le> 63" for x :: u8
    using word_and_le1 [of x "0x3F"] by (simp add: word_le_nat_alt)
  ultimately show ?thesis by (metis add_le_cancel_left numeral_plus_numeral add_num_simps)
qed

lemma receive_poll_shape:
  "receive_poll buf w = Some (r, b, w') \<Longrightarrow> length b = length buf \<and> (\<forall>n. r = Inr (Some n) \<longrightarrow> n \<le> 65)"
  using receive_poll_effect [of buf w r b w'] poll_len_le by blast

lemma ble_poll_ok:
  assumes "ble_poll t buf w = Some (got, buf', w')" and "radio_running w"
  shows "radio_off w' \<and> length buf' = length buf \<and> (\<forall>n. got = Some n \<longrightarrow> n \<le> 65)"
  using assms
proof (induction t buf w arbitrary: buf' w' rule: ble_poll.induct)
  case (1 t buf w)
  obtain r b w1 where p: "receive_poll buf w = Some (r, b, w1)"
    using "1.prems"(1) by (cases "receive_poll buf w") (auto simp: ble_poll.simps [of t buf w])
  note off = radio_off_steps(4) [OF p "1.prems"(2)] and e = receive_poll_shape [OF p]
  consider (err) x where "r = Inl x" | (len) n where "r = Inr (Some n)" | (none) "r = Inr None"
    by (metis option.exhaust old.sum.exhaust)
  then show ?case
  proof cases
    case err
    with "1.prems" p off e show ?thesis by (auto simp: ble_poll.simps [of t buf w])
  next
    case len
    with "1.prems" p off e show ?thesis by (auto simp: ble_poll.simps [of t buf w])
  next
    case none
    obtain v w2 where n: "timer_now w1 = Some (v, w2)"
      using "1.prems"(1) p none by (cases "timer_now w1") (auto simp: ble_poll.simps [of t buf w])
    have w2: "radio_running w2" using off none timer_now_SomeD [OF n] by (auto simp: radio_running_def)
    show ?thesis
    proof (cases "t \<le> v")
      case True
      with none "1.prems"(1) p n have "receive_cancel w2 = Some w'" "buf' = b" "got = None"
        by (auto simp: ble_poll.simps [of t buf w] bind_eq_Some_conv)
      with radio_off_steps(3) w2 e none show ?thesis by auto
    next
      case False
      with none "1.prems" p n have "ble_poll t b w2 = Some (got, buf', w')"
        by (simp add: ble_poll.simps [of t buf w])
      with "1.IH" [OF p] False none n w2 e show ?thesis by simp
    qed
  qed
qed

lemma poll_spins_ok:
  assumes "poll_spins k buf w = Some (got, buf', w')" and "radio_running w"
  shows "(radio_off w' \<or> got = None \<and> radio_running w') \<and> length buf' = length buf \<and> (\<forall>n. got = Some n \<longrightarrow> n \<le> 65)"
  using assms
proof (induction k arbitrary: buf w)
  case (0 buf w)
  obtain r b w1 where p: "receive_poll buf w = Some (r, b, w1)"
    using "0.prems"(1) by (cases "receive_poll buf w") (auto simp: poll_spins.simps [of 0 buf w])
  note off = radio_off_steps(4) [OF p "0.prems"(2)] and e = receive_poll_shape [OF p]
  show ?case using "0.prems"(1) p off e
    by (auto simp: poll_spins.simps [of 0 buf w] split: sum.splits option.splits if_splits)
next
  case (Suc k buf w)
  obtain r b w1 where p: "receive_poll buf w = Some (r, b, w1)"
    using Suc.prems(1) by (cases "receive_poll buf w") (auto simp: poll_spins.simps [of "Suc k" buf w])
  note off = radio_off_steps(4) [OF p Suc.prems(2)] and e = receive_poll_shape [OF p]
  show ?case
  proof (cases "r = Inr None")
    case True
    with Suc.prems(1) p have "poll_spins k b w1 = Some (got, buf', w')" by (simp add: poll_spins.simps [of "Suc k" buf w])
    with Suc.IH [OF this] True off e show ?thesis by simp
  next
    case False
    then show ?thesis using Suc.prems(1) p off e
      by (auto simp: poll_spins.simps [of "Suc k" buf w] split: sum.splits option.splits if_splits)
  qed
qed

text \<open>A receive window: the time is read, the radio started and polled until the deadline.\<close>

lemma window_ok:
  assumes "receive_start w = Some w2" and "ble_poll u (bl_rx_buf b) w2 = Some (got, buf', w3)"
    and "radio_off w" and "ble_ok b"
  shows "radio_off w3 \<and> ble_ok (b\<lparr>bl_rx_buf := buf'\<rparr>) \<and> (\<forall>n. got = Some n \<longrightarrow> ble_ok (b\<lparr>bl_rx_buf := buf', bl_rx_pdu_len := n\<rparr>))"
  using ble_poll_ok [OF assms(2)] radio_off_steps(2) [OF assms(1,3)] assms(4) by (auto intro: ble_ok_set simp: ble_ok_lengths)

lemma radio_window_ok:
  assumes "radio_window am us (b, w) = Some (ok, b', w')" and "ble_ok b" and "radio_off w"
  shows "ble_ok b' \<and> radio_off w'"
proof -
  obtain t w1 w2 got buf w3 where l: "timer_now w = Some (t, w1)" "receive_start w1 = Some w2"
      "ble_poll (t + timeout_ticks us) (bl_rx_buf b) w2 = Some (got, buf, w3)"
    using assms(1) by (auto simp: radio_window_def bind_eq_Some_conv Let_def)
  have "radio_off w1" using assms(3) timer_now_off [OF l(1)] by simp
  note win = window_ok [OF l(2,3) this assms(2)]
  show ?thesis
    using assms(1) l win by (auto simp: radio_window_def Let_def split: option.splits if_splits)
qed

lemma ble_encode_ok:
  "ble_encode pdu tx rx b = Some (n, b') \<Longrightarrow> ble_ok b \<Longrightarrow> ble_ok b' \<and> n \<le> 65"
  by (auto simp: ble_encode_def unwrap_def bind_eq_Some_conv ble_ok_lengths dest!: encode_typed_length intro!: ble_ok_set
      split: option.splits sum.splits)

lemma ble_transmit_ok:
  "ble_transmit n (b, w) = Some (b', w') \<Longrightarrow> radio_off w \<Longrightarrow> b' = b \<and> radio_off w'"
  by (auto simp: ble_transmit_def bind_eq_Some_conv radio_off_steps)


section \<open>Advertising\<close>

lemma build_adv_pdu_ok: "build_adv_pdu b = Some b' \<Longrightarrow> ble_ok b \<Longrightarrow> ble_ok b'"
  by (auto simp: build_adv_pdu_def bind_eq_Some_conv Let_def dest!: ble_encode_ok intro!: ble_ok_set)

lemma build_ext_adv_pdu_ok: "build_ext_adv_pdu b = Some b' \<Longrightarrow> ble_ok b \<Longrightarrow> ble_ok b'"
  by (auto simp: build_ext_adv_pdu_def bind_eq_Some_conv Let_def dest!: ble_encode_ok intro!: ble_ok_set)

lemma transmit_on_data_channel_ok:
  "transmit_on_data_channel n (b, w) = Some (b', w') \<Longrightarrow> radio_off w \<Longrightarrow> b' = b \<and> radio_off w'"
  by (auto simp: transmit_on_data_channel_def bind_eq_Some_conv Let_def dest!: ble_transmit_ok timer_now_off wait_until_off)

lemma transmit_aux_adv_ok:
  "transmit_aux_adv (b, w) = Some (b', w') \<Longrightarrow> ble_ok b \<Longrightarrow> radio_off w \<Longrightarrow> ble_ok b' \<and> radio_off w'"
  unfolding transmit_aux_adv_def Let_def
  by (auto simp: bind_eq_Some_conv split: if_splits dest!: transmit_on_data_channel_ok ble_encode_ok)

lemma transmit_periodic_adv_ok:
  "transmit_periodic_adv (b, w) = Some (b', w') \<Longrightarrow> ble_ok b \<Longrightarrow> radio_off w \<Longrightarrow> ble_ok b' \<and> radio_off w'"
  by (auto simp: transmit_periodic_adv_def bind_eq_Some_conv Let_def dest!: transmit_on_data_channel_ok ble_encode_ok)

lemma listen_for_scan_req_ok:
  assumes "listen_for_scan_req (b, w) = Some (b', w')" and "ble_ok b" and "radio_off w"
  shows "ble_ok b' \<and> radio_off w'"
proof -
  obtain ok b1 w1 where l: "radio_window (push_bit (unat PDU_SCAN_REQ) 1) SCAN_REQ_WINDOW_MICROS (b, w) = Some (ok, b1, w1)"
    using assms(1) by (auto simp: listen_for_scan_req_def bind_eq_Some_conv)
  have "ble_ok b1" "radio_off w1" using radio_window_ok [OF l assms(2,3)] by simp_all
  with assms(1) l show ?thesis
    by (auto simp: listen_for_scan_req_def bind_eq_Some_conv Let_def dest!: ble_encode_ok ble_transmit_ok split: if_splits)
qed

lemma conn_new_typed: "length (cr_channel_map p) = 5 \<Longrightarrow> conn_typed (conn_new p ch t r)"
proof -
  have "bonds_ok (cn_bond_store (conn_new p ch t r))" by (simp add: bonds_ok_def conn_new_def ram_new_def Let_def)
  then show "length (cr_channel_map p) = 5 \<Longrightarrow> ?thesis" by (simp add: conn_typed_def conn_new_ok)
qed

lemma connect_req_decode_typed: "connect_req_decode ll = Inr p \<Longrightarrow> conn_typed (conn_new p ch t r)"
  using connect_req_bytes_decode(2) [of ll p] conn_new_typed by (simp add: connect_req_ok_def)

lemma listen_for_scan_and_connect_ok:
  assumes "listen_for_scan_and_connect ch (b, w) = Some (b', w')" and "ble_ok b" and "radio_off w"
  shows "ble_ok b' \<and> radio_off w'"
proof -
  obtain ok b1 w1 where l: "radio_window (push_bit (unat PDU_SCAN_REQ) 1 OR push_bit (unat PDU_CONNECT_REQ) 1)
      CONNECT_REQ_WINDOW_MICROS (b, w) = Some (ok, b1, w1)"
    using assms(1) by (auto simp: listen_for_scan_and_connect_def bind_eq_Some_conv Let_def)
  have ok1: "ble_ok b1" "radio_off w1" using radio_window_ok [OF l assms(2,3)] by simp_all
  show ?thesis
  proof (cases ok)
    case False
    with assms(1) l ok1 show ?thesis by (simp add: listen_for_scan_and_connect_def)
  next
    case True
    obtain pkt where pkt: "slice (bl_rx_buf b1) 0 (bl_rx_pdu_len b1) = Some pkt"
      using assms(1) l True by (auto simp: listen_for_scan_and_connect_def bind_eq_Some_conv)
    show ?thesis
    proof (cases "adv_pdu_decode pkt")
      case (Inl e)
      with assms(1) l True pkt ok1 show ?thesis by (simp add: listen_for_scan_and_connect_def)
    next
      case (Inr pdu)
      with assms(1) l True pkt ok1 show ?thesis
        by (cases pdu)
          (auto simp: listen_for_scan_and_connect_def bind_eq_Some_conv Let_def timer_now_off
            intro!: ble_push_ok ble_ok_set dest!: ble_encode_ok ble_transmit_ok intro: connect_req_decode_typed split: if_splits sum.splits)
    qed
  qed
qed

lemma adv_channel_loop_less: "i < 3 \<Longrightarrow> adv_channel_loop n m i < 3"
  by (induction n m i rule: adv_channel_loop.induct) auto

lemma adv_follow_ok:
  assumes "adv_follow ch (b, w) = Some (b', w')" and "ble_ok b" and "radio_off w"
  shows "ble_ok b' \<and> radio_off w'"
proof (cases "ap_extended (bl_adv_params b)")
  case True
  then obtain b1 w1 where "transmit_aux_adv (b, w) = Some (b1, w1)"
      "(if ap_periodic (bl_adv_params b1) then transmit_periodic_adv (b1, w1) else Some (b1, w1)) = Some (b', w')"
    using assms(1) by (auto simp: adv_follow_def bind_eq_Some_conv)
  with assms transmit_aux_adv_ok transmit_periodic_adv_ok show ?thesis by (auto split: if_splits)
next
  case False
  with assms listen_for_scan_and_connect_ok listen_for_scan_req_ok show ?thesis
    by (auto simp: adv_follow_def split: adv_type.splits)
qed

lemma adv_rearm_ok: "adv_rearm (b, w) = Some (b', w') \<Longrightarrow> ble_ok b \<Longrightarrow> radio_off w \<Longrightarrow> ble_ok b' \<and> radio_off w'"
  by (cases "accum_next (bl_adv_accum b) (ap_interval_min (bl_adv_params b))")
    (auto simp: adv_rearm_def bind_eq_Some_conv Let_def timer_now_off)

lemma adv_tick_ok:
  assumes "adv_tick (b, w) = Some (b', w')" and "ble_ok b" and "radio_off w"
  shows "ble_ok b' \<and> radio_off w'"
proof (cases "bl_adv_state b = AdvRunning")
  case True
  let ?i = "adv_channel_loop 3 (ap_channel_map (bl_adv_params b)) (bl_adv_channel_idx b)"
  let ?b = "b\<lparr>bl_adv_channel_idx := Suc ?i mod 3\<rparr>"
  obtain ch b1 b2 w2 b3 w3 where s: "(if ap_extended (bl_adv_params b) then build_ext_adv_pdu ?b else build_adv_pdu ?b) = Some b1"
      "ble_transmit (bl_tx_pdu_len b1) (b1, snd (set_channel ch w)) = Some (b2, w2)"
      "adv_follow ch (b2, w2) = Some (b3, w3)" "adv_rearm (b3, w3) = Some (b', w')"
    using assms(1) True by (auto simp: adv_tick_def bind_eq_Some_conv Let_def)
  have "ble_ok ?b" using assms(2) by (intro ble_ok_set) simp_all
  then have "ble_ok b1" using s(1) build_adv_pdu_ok build_ext_adv_pdu_ok by (auto split: if_splits)
  then have "ble_ok b2" "radio_off w2" using ble_transmit_ok [OF s(2)] assms(3) by auto
  then show ?thesis using adv_follow_ok [OF s(3)] adv_rearm_ok [OF s(4)] by blast
next
  case False
  with assms show ?thesis
    by (cases "bl_adv_state b") (auto simp: adv_tick_def intro!: ble_push_ok ble_ok_set)
qed

section \<open>Scanning\<close>

lemma set_peer_typed: "conn_typed c \<Longrightarrow> length a = 6 \<Longrightarrow> conn_typed (set_peer a c)"
  by (simp add: conn_typed_def) (simp add: set_peer_def)

lemma send_connect_req_ok:
  assumes "send_connect_req (b, w) = Some (b', w')" and "ble_ok b" and "radio_off w"
  shows "ble_ok b' \<and> radio_off w'"
proof (cases "bl_connect_target b")
  case None
  with assms show ?thesis by (simp add: send_connect_req_def)
next
  case (Some target)
  obtain llbuf where ll: "connect_req_encode initiator_params (replicate 22 0) = Inr (CONNECT_LL_DATA_LEN, llbuf)"
    by (simp add: connect_req_encode_def CONNECT_LL_DATA_LEN_def)
  obtain r where r: "encode_typed (ConnectReq (bl_own_addr b) target llbuf) (bl_tx_buf b)
      (is_random (bl_own_addr_type b)) (is_random (bl_connect_target_type b)) = Some r"
    using assms(1) Some ll by (auto simp: send_connect_req_def bind_eq_Some_conv)
  show ?thesis
  proof (cases r)
    case (Inl e)
    with assms Some ll r show ?thesis by (simp add: send_connect_req_def)
  next
    case (Inr x)
    obtain n buf where x: "x = (n, buf)" by force
    then have b1: "ble_ok (b\<lparr>bl_tx_buf := buf\<rparr>)"
      using encode_typed_length r Inr assms(2) by (auto intro!: ble_ok_set simp: ble_ok_lengths)
    obtain b2 w1 t w2 where s: "ble_transmit n (b\<lparr>bl_tx_buf := buf\<rparr>, w) = Some (b2, w1)"
        "timer_now w1 = Some (t, w2)" "w' = w2"
      using assms(1) Some ll r Inr x
      by (auto simp: send_connect_req_def bind_eq_Some_conv Let_def)
    moreover have "conn_typed (set_peer target (conn_new initiator_params ch t Master))" for ch
      using assms(2) Some by (intro set_peer_typed conn_new_typed) (simp_all add: initiator_params_def ble_ok_lengths)
    ultimately show ?thesis
      using assms Some ll r Inr x b1 ble_transmit_ok [OF s(1) assms(3)]
      by (auto simp: send_connect_req_def Let_def timer_now_off intro!: ble_push_ok ble_ok_set)
  qed
qed

lemma handle_periodic_aux_ok:
  assumes "handle_periodic_aux ch p (b, w) = Some (b', w')" and "ble_ok b" and "radio_off w"
  shows "ble_ok b' \<and> radio_off w'"
  using assms
  by (auto simp: handle_periodic_aux_def bind_eq_Some_conv Let_def case_prod_beta timer_now_off split: if_splits option.splits)

lemma spins_ok:
  assumes "receive_start w = Some w2" and "poll_spins k (bl_rx_buf b) w2 = Some (got, buf', w3)"
    and "radio_off w" and "ble_ok b"
  shows "(radio_off w3 \<or> radio_running w3) \<and> (\<forall>n. got = Some n \<longrightarrow> n \<le> 65 \<and> radio_off w3) \<and> ble_ok (b\<lparr>bl_rx_buf := buf'\<rparr>)"
  using poll_spins_ok [OF assms(2)] radio_off_steps(2) [OF assms(1,3)] assms(4) by (auto intro: ble_ok_set simp: ble_ok_lengths)

lemma periodic_report_ok:
  assumes "periodic_report n (b, w) = Some (b', w')" and "ble_ok b" and "radio_off w"
  shows "ble_ok b' \<and> radio_off w'"
proof -
  obtain pkt where p: "slice (bl_rx_buf b) 0 n = Some pkt"
    using assms(1) by (auto simp: periodic_report_def bind_eq_Some_conv)
  show ?thesis
  proof (cases "\<exists>m ad. adv_pdu_decode pkt = Inr (PeriodicAdv m ad)")
    case True
    with assms p show ?thesis by (auto simp: periodic_report_def bind_eq_Some_conv rssi_off)
  next
    case False
    then have "periodic_report n (b, w) = Some (b, w)"
      using p by (auto simp: periodic_report_def split: sum.split adv_pdu.split)
    with assms show ?thesis by simp
  qed
qed

lemma periodic_tick_ok:
  assumes "periodic_tick (b, w) = Some (b', w')" and "ble_ok b" and "radio_off w"
  shows "ble_ok b' \<and> radio_off w'"
proof (cases "bl_periodic_sync b")
  case None
  with assms show ?thesis by (simp add: periodic_tick_def)
next
  case (Some sync)
  obtain t w1 where t: "timer_now w = Some (t, w1)"
    using assms(1) Some by (auto simp: periodic_tick_def bind_eq_Some_conv)
  have w1: "radio_off w1" using timer_now_off [OF t] assms(3) by simp
  show ?thesis
  proof (cases "t < ps_next_event sync")
    case True
    with assms Some t w1 show ?thesis by (simp add: periodic_tick_def)
  next
    case False
    obtain d sy where d: "next_interval sync = (d, sy)" by force
    let ?b = "b\<lparr>bl_periodic_sync := Some (sy\<lparr>ps_next_event := ps_next_event sy + d\<rparr>)\<rparr>"
    obtain w2 got buf w3 where l: "receive_start (snd (set_channel (ps_channel sy) w1)) = Some w2"
        "poll_spins 40000 (bl_rx_buf ?b) w2 = Some (got, buf, w3)"
      using assms(1) Some t False d by (auto simp: periodic_tick_def bind_eq_Some_conv Let_def)
    have s: "radio_off w3 \<or> radio_running w3" "\<And>n. got = Some n \<Longrightarrow> radio_off w3" "ble_ok (?b\<lparr>bl_rx_buf := buf\<rparr>)"
      using spins_ok [OF l] w1 assms(2) by simp_all
    show ?thesis
    proof (cases got)
      case None
      then have "receive_cancel w3 = Some w'" "b' = ?b\<lparr>bl_rx_buf := buf\<rparr>"
        using assms(1) Some t False d l by (auto simp: periodic_tick_def bind_eq_Some_conv Let_def)
      with s radio_off_steps(3) show ?thesis by blast
    next
      case (Some n)
      then obtain b5 w5 where r: "periodic_report n (?b\<lparr>bl_rx_buf := buf\<rparr>, w3) = Some (b5, w5)"
          "receive_cancel w5 = Some w'" "b' = b5"
        using assms(1) \<open>bl_periodic_sync b = Some sync\<close> t False d l
        by (auto simp: periodic_tick_def bind_eq_Some_conv Let_def)
      with periodic_report_ok [OF r(1) s(3) s(2) [OF Some]] radio_off_steps(3) show ?thesis by blast
    qed
  qed
qed

lemma aux_lost_ok:
  "aux_lost (b, w) = Some (got, b', w') \<Longrightarrow> ble_ok b \<Longrightarrow> radio_off w \<or> radio_running w \<Longrightarrow> ble_ok b' \<and> radio_off w' \<and> got = None"
  by (auto simp: aux_lost_def bind_eq_Some_conv radio_off_steps(3))

lemma aux_received_ok:
  assumes "aux_received ptr n (b, w) = Some (got, b', w')" and "ble_ok b" and "radio_off w"
  shows "ble_ok b' \<and> radio_off w'"
proof -
  obtain pkt where p: "slice (bl_rx_buf b) 0 n = Some pkt"
    using assms(1) by (auto simp: aux_received_def bind_eq_Some_conv)
  show ?thesis
  proof (cases "\<exists>a ad ty d. adv_pdu_decode pkt = Inr (AuxAdvExtInd a ad ty d)")
    case True
    with assms p show ?thesis
      by (auto simp: aux_received_def bind_eq_Some_conv Let_def dest!: handle_periodic_aux_ok split: if_splits)
  next
    case False
    then have "aux_received ptr n (b, w) = aux_lost (b, w)"
      using p by (auto simp: aux_received_def split: sum.split adv_pdu.split)
    with assms aux_lost_ok show ?thesis by auto
  qed
qed

lemma follow_aux_ok:
  assumes "follow_aux ptr (b, w) = Some (got, b', w')" and "ble_ok b" and "radio_off w"
  shows "ble_ok b' \<and> radio_off w'"
proof (cases "set_channel (aux_channel ptr) w")
  case (Pair res w0)
  then have w0: "radio_off w0" using assms(3) radio_off_tasks(2) [of "aux_channel ptr" w] by simp
  show ?thesis
  proof (cases res)
    case (Inl e)
    with assms Pair w0 show ?thesis by (simp add: follow_aux_def)
  next
    case (Inr u)
    obtain t w1 w2 w3 g buf w4 where l: "timer_now w0 = Some (t, w1)"
        "wait_until (t + timeout_ticks 300) (set_compare (t + timeout_ticks 300) w1) = Some w2" "receive_start w2 = Some w3"
        "poll_spins 200000 (bl_rx_buf b) w3 = Some (g, buf, w4)"
        "(case g of None \<Rightarrow> aux_lost (b\<lparr>bl_rx_buf := buf\<rparr>, w4) | Some n \<Rightarrow> aux_received ptr n (b\<lparr>bl_rx_buf := buf\<rparr>, w4)) = Some (got, b', w')"
      using assms(1) Pair Inr by (auto simp: follow_aux_def bind_eq_Some_conv Let_def)
    have "radio_off w2" using timer_now_off [OF l(1)] wait_until_off [OF l(2)] w0 by simp
    with spins_ok [OF l(3,4) this assms(2)] l(5) aux_lost_ok aux_received_ok show ?thesis
      by (cases g) auto
  qed
qed

lemma scan_rsp_received_ok:
  assumes "scan_rsp_received n (b, w) = Some (b', w')" and "ble_ok b" and "radio_off w"
  shows "ble_ok b' \<and> radio_off w'"
proof -
  obtain pkt where p: "slice (bl_rx_buf b) 0 n = Some pkt"
    using assms(1) by (auto simp: scan_rsp_received_def bind_eq_Some_conv)
  show ?thesis
  proof (cases "\<exists>a d. adv_pdu_decode pkt = Inr (ScanRsp a d)")
    case True
    then obtain a d where d: "adv_pdu_decode pkt = Inr (ScanRsp a d)" by blast
    with adv_pdu_decode_addr [OF d] assms p show ?thesis
      by (auto simp: scan_rsp_received_def bind_eq_Some_conv rssi_off)
  next
    case False
    then have "scan_rsp_received n (b, w) = Some (b, w)"
      using p by (auto simp: scan_rsp_received_def split: sum.split adv_pdu.split)
    with assms show ?thesis by simp
  qed
qed

lemma listen_for_scan_rsp_ok:
  assumes "listen_for_scan_rsp (b, w) = Some (b', w')" and "ble_ok b" and "radio_off w"
  shows "ble_ok b' \<and> radio_off w'"
proof -
  obtain t w1 w2 got buf w3 where l: "timer_now w = Some (t, w1)" "receive_start w1 = Some w2"
      "ble_poll (t + timeout_ticks SCAN_REQ_WINDOW_MICROS) (bl_rx_buf b) w2 = Some (got, buf, w3)"
      "(case got of None \<Rightarrow> Some (b\<lparr>bl_rx_buf := buf\<rparr>, w3) | Some n \<Rightarrow> scan_rsp_received n (b\<lparr>bl_rx_buf := buf\<rparr>, w3)) = Some (b', w')"
    using assms(1) by (auto simp: listen_for_scan_rsp_def bind_eq_Some_conv Let_def)
  have "radio_off w1" using assms(3) timer_now_off [OF l(1)] by simp
  from window_ok [OF l(2,3) this assms(2)] l(4) scan_rsp_received_ok show ?thesis by (cases got) auto
qed

lemma respond_scan_req_ok:
  assumes "respond_scan_req (b, w) = Some (b', w')" and "ble_ok b" and "radio_off w"
  shows "ble_ok b' \<and> radio_off w'"
proof -
  obtain a r where r: "slice (bl_rx_buf b) 2 8 = Some a"
      "encode_typed (ScanReq (bl_own_addr b) a) (bl_tx_buf b) (is_random (bl_own_addr_type b))
         (is_random (ba_addr_type (parse_addr a))) = Some r"
    using assms(1) by (auto simp: respond_scan_req_def bind_eq_Some_conv)
  show ?thesis
  proof (cases r)
    case (Inl e)
    with assms r show ?thesis by (simp add: respond_scan_req_def)
  next
    case (Inr x)
    obtain n buf where x: "x = (n, buf)" by force
    then have b1: "ble_ok (b\<lparr>bl_tx_buf := buf\<rparr>)"
      using encode_typed_length r(2) Inr assms(2) by (auto intro!: ble_ok_set simp: ble_ok_lengths)
    obtain b2 w2 where s: "ble_transmit n (b\<lparr>bl_tx_buf := buf\<rparr>, w) = Some (b2, w2)" "listen_for_scan_rsp (b2, w2) = Some (b', w')"
      using assms(1) r Inr x by (auto simp: respond_scan_req_def bind_eq_Some_conv)
    then show ?thesis using ble_transmit_ok [OF s(1) assms(3)] b1 listen_for_scan_rsp_ok [OF s(2)] by simp
  qed
qed

lemma handle_adv_report_ok:
  assumes "handle_adv_report r a ty d (b, w) = Some (b', w')" and "ble_ok b" and "radio_off w" and "length a = 6"
  shows "ble_ok b' \<and> radio_off w'"
  using assms
  by (auto simp: handle_adv_report_def Let_def send_connect_req_ok respond_scan_req_ok split: if_splits)

lemma handle_scan_pdu_ok:
  assumes "handle_scan_pdu (b, w) = Some (b', w')" and "ble_ok b" and "radio_off w"
  shows "ble_ok b' \<and> radio_off w'"
proof -
  obtain r w1 pkt where p: "rssi w = Some (r, w1)" "slice (bl_rx_buf b) 0 (bl_rx_pdu_len b) = Some pkt"
    using assms(1) by (auto simp: handle_scan_pdu_def bind_eq_Some_conv)
  have w1: "radio_off w1" using rssi_off [OF p(1)] assms(3) by simp
  show ?thesis
  proof (cases "adv_pdu_decode pkt")
    case (Inl e)
    with assms p w1 show ?thesis by (simp add: handle_scan_pdu_def)
  next
    case (Inr pdu)
    note a = adv_pdu_decode_addr [OF Inr]
    show ?thesis
    proof (cases pdu)
      case (AdvInd x d)
      with assms p Inr a w1 handle_adv_report_ok show ?thesis by (simp add: handle_scan_pdu_def)
    next
      case (AdvScanInd x d)
      with assms p Inr a w1 handle_adv_report_ok show ?thesis by (simp add: handle_scan_pdu_def)
    next
      case (AdvExtInd x m ad ptr)
      obtain got b2 w2 where f: "follow_aux ptr (b, w1) = Some (got, b2, w2)"
        using assms(1) p Inr AdvExtInd by (auto simp: handle_scan_pdu_def bind_eq_Some_conv)
      with follow_aux_ok [OF f assms(2) w1] assms(1) p Inr AdvExtInd a show ?thesis
        by (auto simp: handle_scan_pdu_def split: option.splits)
    qed (use assms p Inr w1 in \<open>simp_all add: handle_scan_pdu_def\<close>)
  qed
qed

lemma scan_channel_ok:
  assumes "scan_channel (b, w) = Some (b', w')" and "ble_ok b" and "radio_off w" and "bl_scan_channel_idx b < 3"
  shows "ble_ok b' \<and> radio_off w'"
proof -
  obtain b1 w1 ch where s: "(if bl_scan_channel_idx b = 0 then do { (t, w) \<leftarrow> timer_now w; Some (b\<lparr>bl_scan_cycle_start := t\<rparr>, w) }
      else Some (b, w)) = Some (b1, w1)" "get ADV_CHANNELS (bl_scan_channel_idx b1) = Some ch"
    using assms(1) by (auto simp: scan_channel_def bind_eq_Some_conv)
  let ?b = "b1\<lparr>bl_scan_channel_idx := Suc (bl_scan_channel_idx b1), bl_last_radio_channel := Some ch\<rparr>"
  have "ble_ok b1" "radio_off w1" "bl_scan_channel_idx b1 < 3"
    using s(1) assms(2-) by (auto simp: bind_eq_Some_conv timer_now_off split: if_splits)
  then have ok: "ble_ok ?b" "radio_off w1" by (auto intro!: ble_ok_set)
  obtain t w2 u w3 got buf w4 where l: "timer_now (snd (set_channel ch w1)) = Some (t, w2)"
      "receive_start (set_compare u w2) = Some w3" "ble_poll u (bl_rx_buf ?b) w3 = Some (got, buf, w4)"
      "(case got of None \<Rightarrow> Some (?b\<lparr>bl_rx_buf := buf\<rparr>, w4)
        | Some n \<Rightarrow> handle_scan_pdu (?b\<lparr>bl_rx_buf := buf, bl_rx_pdu_len := n\<rparr>, w4)) = Some (b', w')"
    using assms(1) s by (auto simp: scan_channel_def bind_eq_Some_conv Let_def)
  have "radio_off (set_compare u w2)" using timer_now_off [OF l(1)] ok(2) by simp
  from window_ok [OF l(2,3) this ok(1)] l(4) handle_scan_pdu_ok show ?thesis by (cases got) auto
qed

lemma scan_tick_ok:
  assumes "scan_tick (b, w) = Some (b', w')" and "ble_ok b" and "radio_off w"
  shows "ble_ok b' \<and> radio_off w'"
proof (cases "bl_scan_state b = ScanIdle")
  case True
  with assms show ?thesis by (simp add: scan_tick_def)
next
  case False
  obtain b1 w1 where p: "periodic_tick (b, w) = Some (b1, w1)"
    using assms(1) False by (auto simp: scan_tick_def bind_eq_Some_conv)
  have ok: "ble_ok b1" "radio_off w1" using periodic_tick_ok [OF p assms(2,3)] by simp_all
  show ?thesis
    using assms(1) False p ok scan_channel_ok [of b1 w1 b' w']
    by (auto simp: scan_tick_def Let_def case_prod_beta not_le intro!: ble_push_ok ble_ok_set split: if_splits)
qed

section \<open>Connections\<close>

lemma event_link_ok:
  assumes "event cx eng c w = Some (r, c', w')" and "conn_ok c" and "radio_off w" and "engine_ok eng" and "crypto_ok cx"
  shows "conn_ok c' \<and> radio_off w'"
proof -
  obtain c1 w1 where b: "event_begin c w = (Inr (), c1, w1)" "conn_ok c1" "w_tasks w1 = w_tasks w"
    using event_begin_effect [of c w] assms(2) by metis
  have "link_ok c w" using assms(2,3) by (simp add: link_ok_def)
  from event_ok [OF assms(1) this assms(4,5) b] show ?thesis by (simp add: link_ok_def)
qed

lemma conn_outcome_ok:
  assumes "conn_outcome cx eng (b, w) = Some (out, b', w')" and "ble_ok b" and "radio_off w"
    and "engine_ok eng" and "crypto_ok cx"
  shows "ble_ok b' \<and> radio_off w'"
proof (cases "bl_conn b")
  case None
  with assms show ?thesis by (simp add: conn_outcome_def)
next
  case (Some c)
  obtain t w1 where t: "timer_now w = Some (t, w1)"
    using assms(1) Some by (auto simp: conn_outcome_def bind_eq_Some_conv)
  have w1: "radio_off w1" using timer_now_off [OF t] assms(3) by simp
  show ?thesis
  proof (cases "t - cn_last_rx c \<ge> ucast (cn_timeout c) * 313")
    case True
    with assms Some t w1 show ?thesis by (simp add: conn_outcome_def)
  next
    case False
    obtain r c2 w2 where e: "event cx eng c w1 = Some (r, c2, w2)" "b' = b\<lparr>bl_conn := Some c2\<rparr>" "w' = w2"
      using assms(1) Some t False by (auto simp: conn_outcome_def bind_eq_Some_conv Let_def)
    have c: "conn_ok c" "bonds_ok (cn_bond_store c)" using ble_ok_lengths(7) [OF assms(2) Some] by (simp_all add: conn_typed_def)
    have "conn_typed c2" "radio_off w2"
      using event_link_ok [OF e(1) c(1) w1 assms(4,5)] event_peer(1) [OF e(1)] c(2) by (simp_all add: conn_typed_def)
    with e assms(2) show ?thesis by (auto intro!: ble_ok_set)
  qed
qed

lemma conn_tick_ok:
  assumes "conn_tick cx eng (b, w) = Some (open, b', w')" and "ble_ok b" and "radio_off w"
    and "engine_ok eng" and "crypto_ok cx"
  shows "ble_ok b' \<and> radio_off w'"
proof -
  obtain out b1 w1 where o: "conn_outcome cx eng (b, w) = Some (out, b1, w1)"
    using assms(1) by (auto simp: conn_tick_def bind_eq_Some_conv)
  have ok: "ble_ok b1" "radio_off w1" using conn_outcome_ok [OF o assms(2-)] by simp_all
  have clear: "conn_typed (c\<lparr>cn_rx_data_len := 0\<rparr>)" if "bl_conn b1 = Some c" for c
    using ble_ok_lengths(7) [OF ok(1) that] by (simp add: conn_typed_def conn_ok_set)
  show ?thesis
  proof (cases out)
    case (Inl reason)
    with assms(1) o ok show ?thesis by (auto simp: conn_tick_def intro!: ble_push_ok ble_ok_set)
  next
    case (Inr ev)
    with assms(1) o ok clear show ?thesis
      by (auto simp: conn_tick_def Let_def intro!: ble_push_ok ble_ok_set split: if_splits conn_event.splits option.splits)
  qed
qed

lemma with_conn_ok:
  assumes "ble_ok b" and "\<And>c. conn_typed c \<Longrightarrow> conn_typed (snd (f c))"
  shows "ble_ok (snd (with_conn f b))"
  using assms by (auto simp: with_conn_def case_prod_beta ble_ok_lengths intro!: ble_ok_set split: option.splits)

lemma queue_bonds [simp]:
  "cn_bond_store (queue_notify m c) = cn_bond_store c" "cn_bond_store (queue_l2cap m cid c) = cn_bond_store c"
  "cn_bond_store (queue_signaling m c) = cn_bond_store c" "cn_bond_store (queue_encrypt_req c) = cn_bond_store c"
  "cn_bond_store (gatt_send_request m c) = cn_bond_store c" "cn_bond_store (terminate c) = cn_bond_store c"
  by (simp_all add: queue_notify_def queue_l2cap_def queue_signaling_def queue_encrypt_req_def gatt_send_request_def
      queue_att_def terminate_def Let_def)

lemma l2cap_connect_typed: "conn_typed c \<Longrightarrow> conn_typed (l2cap_connect psm c)"
  by (auto simp: l2cap_connect_def conn_typed_def coc_new_ok Let_def intro!: queue_ok conn_ok_set)

lemma l2cap_send_typed:
  assumes "conn_typed c"
  shows "conn_typed (snd (l2cap_send d c))"
proof (cases "cn_coc c")
  case None
  with assms show ?thesis by (simp add: l2cap_send_def)
next
  case (Some k)
  have ok: "conn_ok c" "bonds_ok (cn_bond_store c)" "coc_ok k" "length (cn_tx_att c) = 251"
    using assms Some conn_ok_lengths(6) [of c k] by (auto simp: conn_typed_def conn_ok_lengths)
  have k: "coc_ok (k\<lparr>coc_credits := n\<rparr>)" for n using ok(3) by (simp add: coc_ok_def)
  have l: "length (set_prefix (cn_tx_att c) (le16 (of_nat (length d)) @ d)) = 251" if "length d + 2 \<le> 251"
    using ok(4) that by simp
  show ?thesis
  proof (cases "length d > unat (coc_mtu k) \<or> length d + 2 > 251 \<or> coc_credits k = 0")
    case True
    then have "snd (l2cap_send d c) = c" using Some ok(4) by (auto simp: l2cap_send_def)
    with assms show ?thesis by simp
  next
    case False
    let ?c = "c\<lparr>cn_coc := Some (k\<lparr>coc_credits := coc_credits k - 1\<rparr>),
         cn_tx_att := set_prefix (cn_tx_att c) (le16 (of_nat (length d)) @ d), cn_tx_att_len := length d + 2,
         cn_tx_cid := coc_local_cid k, cn_tx_frag_offset := 0, cn_tx_pending := True\<rparr>"
    have eq: "snd (l2cap_send d c) = ?c" using False Some ok(4) by (simp add: l2cap_send_def)
    have "conn_ok ?c" using False unfolding conn_ok_free by (intro conn_ok_set ok(1) l) (auto simp: k)
    then show ?thesis using ok(2) by (simp add: eq conn_typed_def)
  qed
qed

lemma map_filter_mem: "b \<in> set (List.map_filter id ss) \<Longrightarrow> Some b \<in> set ss"
  by (induction ss) (auto simp: List.map_filter_simps split: option.splits)

lemma find_bond_typed: "bonds_ok s \<Longrightarrow> ram_find s peer = Some b \<Longrightarrow> length (bi_ltk b) = 16"
  unfolding bonds_ok_def ram_find_def find_slots_def find_Some_iff by (metis map_filter_mem nth_mem)

lemma save_bond_typed: "bonds_ok s \<Longrightarrow> length ltk = 16 \<Longrightarrow> bonds_ok (ram_save s peer ltk irk)"
  by (auto simp: bonds_ok_def ram_save_def save_slots_def Let_def split: option.splits
      dest!: replace_slot_set fill_slot_set)

section \<open>The calls of the interface\<close>

text \<open>One call of the public interface, on arguments of the lengths that the array types give, that
  returns. The peer, the timer and the radio are the readings in the \<open>world\<close>.\<close>

inductive ble_step :: "crypto \<Rightarrow> ccm_engine \<Rightarrow> ble \<times> world \<Rightarrow> ble \<times> world \<Rightarrow> bool" for cx eng where
  address_set: "length a = 6 \<Longrightarrow> ble_step cx eng (b, w) (gap_address_set a t b, w)"
| adv_configure: "ble_step cx eng (b, w) (snd (gap_adv_set_configure ad sr b), w)"
| adv_start: "gap_adv_start p (b, w) = Some (r, b', w') \<Longrightarrow> peer_typed p \<Longrightarrow> ble_step cx eng (b, w) (b', w')"
| adv_stop: "ble_step cx eng (b, w) (snd (gap_adv_stop b), w)"
| adv_ticks: "adv_tick (b, w) = Some (b', w') \<Longrightarrow> ble_step cx eng (b, w) (b', w')"
| scan_start: "gap_scan_start sp (b, w) = Some (r, b', w') \<Longrightarrow> ble_step cx eng (b, w) (b', w')"
| scan_stop: "ble_step cx eng (b, w) (snd (gap_scan_stop b), w)"
| scan_ticks: "scan_tick (b, w) = Some (b', w') \<Longrightarrow> ble_step cx eng (b, w) (b', w')"
| connects: "gap_connect a t (b, w) = Some (r, b', w') \<Longrightarrow> length a = 6 \<Longrightarrow> ble_step cx eng (b, w) (b', w')"
| conn_ticks: "conn_tick cx eng (b, w) = Some (r, b', w') \<Longrightarrow> ble_step cx eng (b, w) (b', w')"
| bond_save: "length ltk = 16 \<Longrightarrow> ble_step cx eng (b, w) (gap_bond_save peer ltk irk b, w)"
| accept_add: "ble_step cx eng (b, w) (snd (gap_accept_list_add a t b), w)"
| accept_clear: "ble_step cx eng (b, w) (gap_accept_list_clear b, w)"
| privacy: "ble_step cx eng (b, w) (gap_privacy_set irk b, w)"
| rotate: "gap_rotate_rpa (cx_aes cx) (b, w) = Some (r, b', w') \<Longrightarrow> ble_step cx eng (b, w) (b', w')"
| tx_power_set: "ble_step cx eng (b, w) (b, gap_tx_power_set pw w)"
| event_taken: "ble_step cx eng (b, w) (snd (ble_next_event b), w)"
| notifies: "ble_step cx eng (b, w) (snd (conn_send d b), w)"
| coc_opens: "ble_step cx eng (b, w) (snd (ble_l2cap_connect psm b), w)"
| coc_sends: "ble_step cx eng (b, w) (snd (ble_l2cap_send d b), w)"
| pairs: "ble_step cx eng (b, w) (snd (gap_pair b), w)"
| encrypts: "ble_step cx eng (b, w) (snd (gap_encrypt b), w)"
| services: "ble_step cx eng (b, w) (snd (gatt_discover_primary_services b), w)"
| characteristics: "ble_step cx eng (b, w) (snd (gatt_discover_characteristics h h' b), w)"
| reads: "ble_step cx eng (b, w) (snd (gatt_client_read h b), w)"
| writes: "ble_step cx eng (b, w) (snd (gatt_client_write h d b), w)"
| subscribes: "ble_step cx eng (b, w) (snd (gatt_subscribe h b), w)"
| polls: "ble_step cx eng (b, w) (snd (gatt_poll b), w)"
| terminates: "ble_step cx eng (b, w) (snd (gap_terminate b), w)"

definition ble_reachable :: "crypto \<Rightarrow> ccm_engine \<Rightarrow> world \<Rightarrow> ble \<times> world \<Rightarrow> bool" where
  "ble_reachable cx eng w0 s \<longleftrightarrow> (ble_step cx eng)\<^sup>*\<^sup>* (ble_new w0) s"

lemma gap_adv_start_ok:
  assumes "gap_adv_start p (b, w) = Some (r, b', w')" and "peer_typed p" and "ble_ok b" and "radio_off w"
  shows "ble_ok b' \<and> radio_off w'"
proof (cases "r = Inr ()")
  case True
  obtain ticks accum where a: "accum_next accum_new (ap_interval_min p) = (ticks, accum)" by force
  let ?b = "b\<lparr>bl_adv_params := p, bl_own_addr_type := ap_own_addr_type p, bl_adv_channel_idx := 0, bl_adv_accum := accum\<rparr>"
  have v: "adv_valid p"
    using assms(1) True by (auto simp: gap_adv_start_def adv_valid_def split: if_splits)
  obtain t w1 where t: "timer_now w = Some (t, w1)" "b' = ble_push AdvStarted (?b\<lparr>bl_adv_state := AdvRunning\<rparr>)"
      "w' = set_compare (t + ticks) w1"
    using assms(1) True a by (auto simp: gap_adv_start_def bind_eq_Some_conv Let_def split: if_splits)
  have "ble_ok ?b" using assms v by (auto intro!: ble_ok_set)
  then have "ble_ok (?b\<lparr>bl_adv_state := AdvRunning\<rparr>)" using v by (intro ble_ok_set) simp_all
  with t timer_now_off [OF t(1)] assms(4) show ?thesis by simp
next
  case False
  with assms show ?thesis
    by (auto simp: gap_adv_start_def bind_eq_Some_conv Let_def split: if_splits prod.splits)
qed

lemma gap_scan_start_ok:
  assumes "gap_scan_start p (b, w) = Some (r, b', w')" and "ble_ok b" and "radio_off w"
  shows "ble_ok b' \<and> radio_off w'"
proof (cases "r = Inr ()")
  case True
  obtain ticks accum where a: "accum_next accum_new (sp_interval p) = (ticks, accum)" by force
  let ?b = "b\<lparr>bl_scan_params := p, bl_own_addr_type := sp_own_addr_type p, bl_scan_channel_idx := 0, bl_scan_accum := accum\<rparr>"
  have v: "scan_valid p"
    using assms(1) True by (auto simp: gap_scan_start_def scan_valid_def split: if_splits)
  obtain t w1 where t: "timer_now w = Some (t, w1)" "b' = ble_push ScanStarted (?b\<lparr>bl_scan_state := ScanRunning\<rparr>)"
      "w' = set_compare (t + ticks) w1"
    using assms(1) True a by (auto simp: gap_scan_start_def bind_eq_Some_conv Let_def split: if_splits)
  have "ble_ok ?b" using assms v by (auto intro!: ble_ok_set)
  then have "ble_ok (?b\<lparr>bl_scan_state := ScanRunning\<rparr>)" using v by (intro ble_ok_set) simp_all
  with t timer_now_off [OF t(1)] assms(3) show ?thesis by simp
next
  case False
  with assms show ?thesis
    by (auto simp: gap_scan_start_def bind_eq_Some_conv Let_def split: if_splits prod.splits)
qed

lemma gap_connect_ok:
  assumes "gap_connect a t (b, w) = Some (r, b', w')" and "length a = 6" and "ble_ok b" and "radio_off w"
  shows "ble_ok b' \<and> radio_off w'"
proof -
  have "ble_ok (b\<lparr>bl_connect_target := Some a, bl_connect_target_type := t\<rparr>)" using assms(2,3) by (auto intro: ble_ok_set)
  with assms gap_scan_start_ok show ?thesis by (auto simp: gap_connect_def Let_def split: if_splits)
qed

lemma gap_rotate_rpa_ok:
  assumes "gap_rotate_rpa (cx_aes cx) (b, w) = Some (r, b', w')" and "crypto_ok cx" and "ble_ok b" and "radio_off w"
  shows "ble_ok b' \<and> radio_off w'"
proof -
  have "length (generate_rpa (cx_aes cx) irk p) = 6" for irk p
    using assms(2) by (simp add: generate_rpa_def ah_def crypto_ok_def Let_def)
  with assms show ?thesis
    by (auto simp: gap_rotate_rpa_def bind_eq_Some_conv Let_def timer_now_off intro!: ble_ok_set split: option.splits)
qed

lemma requests_ok:
  assumes "ble_ok b"
  shows "ble_ok (snd (conn_send d b))" "ble_ok (snd (ble_l2cap_connect psm b))" "ble_ok (snd (ble_l2cap_send d b))"
    "ble_ok (snd (gatt_discover_primary_services b))" "ble_ok (snd (gatt_discover_characteristics h h' b))"
    "ble_ok (snd (gatt_client_read h b))" "ble_ok (snd (gatt_client_write h d b))" "ble_ok (snd (gatt_subscribe h b))"
    "ble_ok (snd (gap_terminate b))"
  unfolding conn_send_def ble_l2cap_connect_def ble_l2cap_send_def gatt_discover_primary_services_def
    gatt_discover_characteristics_def gatt_client_read_def gatt_client_write_def gatt_subscribe_def gap_terminate_def
  by (rule with_conn_ok [OF assms], simp add: conn_typed_def l2cap_connect_typed [unfolded conn_typed_def]
      l2cap_send_typed [unfolded conn_typed_def] Let_def)+


lemma conn_typed_smp: "conn_typed c \<Longrightarrow> smp_wf s \<Longrightarrow> conn_typed (c\<lparr>cn_smp := s\<rparr>)"
  by (simp add: conn_typed_def conn_ok_set)

lemma conn_typed_queue:
  "conn_typed c \<Longrightarrow> conn_typed (queue_l2cap m cid c)" "conn_typed c \<Longrightarrow> conn_typed (queue_encrypt_req c)"
  by (simp_all add: conn_typed_def)

lemma conn_typed_smp_wf: "conn_typed c \<Longrightarrow> smp_wf (cn_smp c)"
  by (simp add: conn_typed_def conn_ok_lengths)

lemma gap_pair_ok: "ble_ok b \<Longrightarrow> ble_ok (snd (gap_pair b))"
  unfolding gap_pair_def
proof (rule with_conn_ok)
  fix c assume c: "conn_typed c"
  have "smp_wf (snd (build_pairing_request (cn_smp c)))" "smp_wf ((cn_smp c)\<lparr>sm_state := SmpIdle\<rparr>)"
    using conn_typed_smp_wf [OF c] by (simp_all add: build_pairing_request_def smp_wf_def Let_def)
  then show "conn_typed (snd (if cn_role c = Master then
       let (req, s) = build_pairing_request (cn_smp c); c = c\<lparr>cn_smp := s\<rparr>; l2 = le16 7 @ le16 L2CAP_SMP_CID @ req
       in (Inr (), queue_l2cap l2 L2CAP_SMP_CID c)
     else (Inr (), c\<lparr>cn_smp := (cn_smp c)\<lparr>sm_state := SmpIdle\<rparr>\<rparr>)))"
    using c by (simp add: case_prod_beta Let_def conn_typed_queue conn_typed_smp)
qed

lemma gap_encrypt_ok: "ble_ok b \<Longrightarrow> ble_ok (snd (gap_encrypt b))"
  unfolding gap_encrypt_def
proof (rule with_conn_ok)
  fix c assume c: "conn_typed c"
  have "smp_wf ((cn_smp c)\<lparr>sm_stk := bi_ltk x\<rparr>)" if "ram_find (cn_bond_store c) (cn_peer_addr c) = Some x" for x
    using conn_typed_smp_wf [OF c] find_bond_typed [OF _ that] c by (simp add: smp_wf_def conn_typed_def)
  then show "conn_typed (snd (if cn_role c \<noteq> Master then (Inl InvalidParam, c)
     else case map_option bi_ltk (ram_find (cn_bond_store c) (cn_peer_addr c)) of
       None \<Rightarrow> (Inl NotRunning, c)
     | Some ltk \<Rightarrow> (Inr (), queue_encrypt_req (c\<lparr>cn_smp := (cn_smp c)\<lparr>sm_stk := ltk\<rparr>\<rparr>))))"
    using c by (simp add: conn_typed_queue conn_typed_smp split: option.split)
qed

lemma gatt_poll_ok: "ble_ok b \<Longrightarrow> ble_ok (snd (gatt_poll b))"
proof -
  have "cn_bond_store (snd (gatt_take_result c)) = cn_bond_store c" for c by (simp add: gatt_take_result_def Let_def)
  then show "ble_ok b \<Longrightarrow> ?thesis"
    by (auto simp: gatt_poll_def Let_def case_prod_beta conn_typed_def dest: ble_ok_lengths(7) intro!: ble_ok_set
        split: option.splits)
qed

lemma gap_bond_save_ok: "ble_ok b \<Longrightarrow> length ltk = 16 \<Longrightarrow> ble_ok (gap_bond_save peer ltk irk b)"
  by (auto simp: gap_bond_save_def conn_typed_def save_bond_typed dest: ble_ok_lengths(7) intro!: ble_ok_set
      split: option.splits)

lemma gap_adv_set_configure_ok: "ble_ok b \<Longrightarrow> ble_ok (snd (gap_adv_set_configure ad sr b))"
  by (auto simp: gap_adv_set_configure_def LEGACY_AD_DATA_MAX_LEN_def ble_ok_lengths intro!: ble_ok_set)

lemma state_changes_ok:
  assumes "ble_ok b"
  shows "length a = 6 \<Longrightarrow> ble_ok (gap_address_set a t b)" "ble_ok (snd (gap_adv_stop b))" "ble_ok (snd (gap_scan_stop b))"
    "ble_ok (snd (gap_accept_list_add a t b))" "ble_ok (gap_accept_list_clear b)" "ble_ok (gap_privacy_set irk b)"
    "ble_ok (snd (ble_next_event b))"
  using assms
  by (auto simp: gap_address_set_def gap_adv_stop_def gap_scan_stop_def gap_accept_list_add_def gap_accept_list_clear_def
      gap_privacy_set_def ble_next_event_def case_prod_beta events_ok_pop ble_ok_lengths intro!: ble_ok_set
      split: adv_state.splits scan_state.splits)

lemma ble_step_ok:
  assumes "ble_step cx eng s s'" and "stack_ok s" and "engine_ok eng" and "crypto_ok cx"
  shows "stack_ok s'"
  using assms
proof (induction rule: ble_step.cases)
  case (adv_start p b w r b' w') then show ?thesis using gap_adv_start_ok by (auto simp: stack_ok_def)
next
  case adv_ticks then show ?thesis using adv_tick_ok by (auto simp: stack_ok_def)
next
  case scan_start then show ?thesis using gap_scan_start_ok by (auto simp: stack_ok_def)
next
  case scan_ticks then show ?thesis using scan_tick_ok by (auto simp: stack_ok_def)
next
  case connects then show ?thesis using gap_connect_ok by (auto simp: stack_ok_def)
next
  case conn_ticks then show ?thesis using conn_tick_ok by (auto simp: stack_ok_def)
next
  case rotate then show ?thesis using gap_rotate_rpa_ok by (auto simp: stack_ok_def)
qed (auto simp: stack_ok_def requests_ok gap_pair_ok gap_encrypt_ok gatt_poll_ok gap_bond_save_ok gap_adv_set_configure_ok
  state_changes_ok gap_tx_power_set_def)

lemma ble_new_ok: "radio_off w0 \<Longrightarrow> stack_ok (ble_new w0)"
proof -
  have "length (rg_slots (ring_new 8)) = 8" by (simp add: ring_new_def)
  then show "radio_off w0 \<Longrightarrow> ?thesis"
    by (auto simp: stack_ok_def ble_new_def ble_ok_def LEGACY_AD_DATA_MAX_LEN_def RX_PDU_MAX_def EVENT_QUEUE_LEN_def
        events_ok_def ring_wf_def ring_new_def peer_typed_def adv_params_default_def)
qed

section \<open>Properties\<close>

text \<open>C2. The invariant of the whole stack: after any sequence of calls of the interface, advertising,
  scanning and connection ticks included and whatever is received in them, every buffer has its
  size and every stored length lies within it, a running procedure has parameters that its start
  call accepts, the connection, its bonds and the queued events are well formed, and the radio,
  which has only been given tasks that its state accepts, is disabled.\<close>

theorem ble_stack_invariant:
  assumes "ble_reachable cx eng w0 (b, w)" and "radio_off w0" and "engine_ok eng" and "crypto_ok cx"
  shows "ble_ok b \<and> radio_off w"
proof -
  have "(ble_step cx eng)\<^sup>*\<^sup>* (ble_new w0) (b, w)" using assms(1) by (simp add: ble_reachable_def)
  then have "stack_ok (b, w)"
    by (induction rule: rtranclp_induct) (auto simp: ble_new_ok assms(2) intro: ble_step_ok [OF _ _ assms(3,4)])
  then show ?thesis by (simp add: stack_ok_def)
qed

text \<open>A device that starts to advertise and sends its first packet.\<close>

definition beacon_params :: adv_params where
  "beacon_params = adv_params_default\<lparr>ap_adv_type := NonConnectableUndirected\<rparr>"

definition example_beacon :: "(ble \<times> world) option" where
  "example_beacon = do {
     (r, b, w) \<leftarrow> gap_adv_start beacon_params (ble_new (example_world [0, 40] []));
     adv_tick (b, w)
   }"

theorem ble_stack_invariant_witness:
  "\<exists>b w. example_beacon = Some (b, w) \<and> ble_ok b \<and> radio_off w \<and> map snd (w_air w) = [[2, 0x0C, 0, 0, 0, 0, 0, 0]]"
proof -
  have "map_option (\<lambda>(b, w). map snd (w_air w)) example_beacon = Some [[2, 0x0C, 0, 0, 0, 0, 0, 0]]" by code_simp
  then obtain b w where e: "example_beacon = Some (b, w)" "map snd (w_air w) = [[2, 0x0C, 0, 0, 0, 0, 0, 0]]" by auto
  obtain r b1 w1 where s: "gap_adv_start beacon_params (ble_new (example_world [0, 40] [])) = Some (r, b1, w1)" "adv_tick (b1, w1) = Some (b, w)"
    using e(1) by (auto simp: example_beacon_def bind_eq_Some_conv)
  obtain b0 w0 where n: "ble_new (example_world [0, 40] []) = (b0, w0)" by force
  have "peer_typed beacon_params" by (simp add: peer_typed_def beacon_params_def adv_params_default_def)
  then have "ble_step example_crypto example_engine (b0, w0) (b1, w1)" using s(1) n by (auto intro: ble_step.adv_start)
  moreover have "ble_step example_crypto example_engine (b1, w1) (b, w)" using s(2) by (rule ble_step.adv_ticks)
  ultimately have "ble_reachable example_crypto example_engine (example_world [0, 40] []) (b, w)"
    by (simp add: ble_reachable_def n)
  moreover have "radio_off (example_world [0, 40] [])" by (simp add: radio_off_def example_world_def)
  ultimately have "ble_ok b \<and> radio_off w" by (rule ble_stack_invariant [OF _ _ example_engine_ok example_crypto_ok])
  then show ?thesis using e by (intro exI [of _ b] exI [of _ w]) simp
qed

end
