(* ===== verification/Ble_Air.thy ===== *)
theory Ble_Air
  imports Ble_Invariant
begin

text \<open>
  Two devices on the air: what the advertiser of \<^verbatim>\<open>src/hw/ble.rs\<close> sends, what a scanner makes of
  it, and how an initiator and an advertiser come to share a connection. The packet one device
  logs as sent is the packet the DMA of the other delivers.
\<close>


section \<open>One packet through the air\<close>

text \<open>\<open>hears k p w\<close>: the radio raises READY, END and DISABLED at least \<open>k\<close> more times, the next
  reception ends at once, with the packet \<open>p\<close> and a correct CRC, and the signal strength
  can be read.\<close>

definition hears :: "nat \<Rightarrow> bytes \<Rightarrow> world \<Rightarrow> bool" where
  "hears k p w \<longleftrightarrow> k \<le> answers READY w \<and> k \<le> answers END w \<and> k \<le> answers DISABLED w \<and>
     (\<exists>x xs. w_flag w END = x # xs \<and> x \<noteq> 0) \<and> (\<exists>xs. w_flag w CRCERROR = 0 # xs) \<and> (\<exists>ps. w_dma w = p # ps) \<and> w_rssi w \<noteq> []"

lemma decode_length:
  "adv_pdu_decode p = Inr pdu \<Longrightarrow> 2 \<le> length p \<and> length p = 2 + unat (drop_bit 1 (p ! 1) AND 0x3F)"
  by (auto simp: adv_pdu_decode_def adv_hdr_decode_def try_then_Inr Let_def split: if_splits)

lemma timer_now_total: "w_now w \<noteq> [] \<Longrightarrow> timer_now w = Some (hd (w_now w), w\<lparr>w_now := tl (w_now w)\<rparr>)"
  by (cases "w_now w") (simp_all add: timer_now_def)

lemma rssi_total: "w_rssi w \<noteq> [] \<Longrightarrow> rssi w = Some (hd (w_rssi w), w\<lparr>w_rssi := tl (w_rssi w)\<rparr>)"
  by (cases "w_rssi w") (simp_all add: rssi_def)

lemma wait_answered:
  assumes "0 < answers f w"
  shows "\<exists>xs. wait f w = Some (w\<lparr>w_flag := (w_flag w)(f := xs)\<rparr>) \<and>
    (\<forall>g. answers g (w\<lparr>w_flag := (w_flag w)(f := xs)\<rparr>) = answers g w - of_bool (g = f))"
  using wait_total [OF assms] by (metis wait_SomeD)

text \<open>What a reception that succeeds at once leaves of the device.\<close>

lemma receive_hits:
  assumes "hears k p w" and "0 < k" and "length p \<le> length buf" and "adv_pdu_decode p = Inr pdu"
  shows "\<exists>w1 w2. receive_start w = Some w1 \<and> ble_poll d buf w1 = Some (Some (length p), set_prefix buf p, w2) \<and>
    w_air w2 = w_air w \<and> w_now w2 = w_now w \<and> w_rssi w2 = w_rssi w \<and> w_radio w2 = w_radio w \<and>
    (\<forall>f \<in> {READY, END, DISABLED}. k - 1 \<le> answers f w2)"
proof -
  obtain x xs cs ps where s: "w_flag w END = x # xs" "x \<noteq> 0" "w_flag w CRCERROR = 0 # cs" "w_dma w = p # ps"
    and a: "k \<le> answers READY w" "k \<le> answers END w" "k \<le> answers DISABLED w"
    using assms(1) by (auto simp: hears_def)
  obtain rs where r: "wait READY (task RXEN w) = Some ((task RXEN w)\<lparr>w_flag := (w_flag w)(READY := rs)\<rparr>)"
      "\<And>g. answers g ((task RXEN w)\<lparr>w_flag := (w_flag w)(READY := rs)\<rparr>) = answers g w - of_bool (g = READY)"
    using wait_answered [of READY "task RXEN w"] a assms(2) by (auto simp: task_def)
  let ?w1 = "task START ((task RXEN w)\<lparr>w_flag := (w_flag w)(READY := rs)\<rparr>)"
  have w1: "receive_start w = Some ?w1" "\<And>g. answers g ?w1 = answers g w - of_bool (g = READY)"
    using r by (simp_all add: receive_start_def)
  let ?w2 = "task DISABLE (?w1\<lparr>w_flag := (w_flag ?w1)(END := xs, CRCERROR := cs), w_dma := ps\<rparr>)"
  have a2: "answers g ?w2 = answers g ?w1 - of_bool (g = END)" for g
    using s by (auto simp: answers_def task_def)
  obtain ds where d: "wait DISABLED ?w2 = Some (?w2\<lparr>w_flag := (w_flag ?w2)(DISABLED := ds)\<rparr>)"
      "\<And>g. answers g (?w2\<lparr>w_flag := (w_flag ?w2)(DISABLED := ds)\<rparr>) = answers g ?w2 - of_bool (g = DISABLED)"
    using wait_answered [of DISABLED ?w2] a assms(2) a2 w1(2) by auto
  let ?w3 = "?w2\<lparr>w_flag := (w_flag ?w2)(DISABLED := ds)\<rparr>"
  have l: "2 \<le> length p" "length p = 2 + unat (drop_bit 1 (p ! 1) AND 0x3F)" using decode_length [OF assms(4)] by simp_all
  have "set_prefix buf p ! 1 = p ! 1" "1 < length (set_prefix buf p)" using l(1) assms(3) by (simp_all add: set_prefix_def nth_append)
  moreover have "read_flag END ?w1 = Some (x, ?w1\<lparr>w_flag := (w_flag ?w1)(END := xs)\<rparr>)"
    using s by (simp add: read_flag_def task_def)
  moreover have "read_flag CRCERROR (?w1\<lparr>w_flag := (w_flag ?w1)(END := xs), w_dma := ps\<rparr>) =
      Some (0, ?w1\<lparr>w_flag := (w_flag ?w1)(END := xs, CRCERROR := cs), w_dma := ps\<rparr>)"
    using s by (simp add: read_flag_def task_def)
  ultimately have "receive_poll buf ?w1 = Some (Inr (Some (length p)), set_prefix buf p, ?w3)"
    using s assms(3) d(1) l by (simp add: receive_poll_def task_def)
  then have "ble_poll d buf ?w1 = Some (Some (length p), set_prefix buf p, ?w3)" by (simp add: ble_poll.simps)
  moreover have "w_air ?w3 = w_air w" "w_now ?w3 = w_now w" "w_rssi ?w3 = w_rssi w" "w_radio ?w3 = w_radio w"
    by (simp_all add: task_def)
  moreover have "k - 1 \<le> answers f ?w3" if "f \<in> {READY, END, DISABLED}" for f
    using that a d(2) a2 w1(2) by auto
  ultimately show ?thesis using w1(1) by blast
qed


lemma hears_cong: "w_flag w' = w_flag w \<Longrightarrow> w_dma w' = w_dma w \<Longrightarrow> w_rssi w' = w_rssi w \<Longrightarrow> hears k p w' = hears k p w"
  by (simp add: hears_def answers_def)

lemma set_channel_keeps:
  "w_flag (snd (set_channel ch w)) = w_flag w" "w_dma (snd (set_channel ch w)) = w_dma w"
  "w_rssi (snd (set_channel ch w)) = w_rssi w" "w_now (snd (set_channel ch w)) = w_now w"
  "w_air (snd (set_channel ch w)) = w_air w"
  by (simp_all add: set_channel_def set_radio_def Let_def split: sum.split)

lemma ble_poll_air: "ble_poll t buf w = Some (got, buf', w') \<Longrightarrow> w_air w' = w_air w \<and> w_radio w' = w_radio w"
proof (induction t buf w rule: ble_poll.induct)
  case (1 t buf w)
  obtain r b w1 where p: "receive_poll buf w = Some (r, b, w1)"
    using "1.prems" by (cases "receive_poll buf w") (auto simp: ble_poll.simps [of t buf w])
  note e = receive_poll_effect [OF p]
  show ?case
  proof (cases "r = Inr None")
    case False
    then show ?thesis using "1.prems" p e by (cases r) (auto simp: ble_poll.simps [of t buf w])
  next
    case True
    obtain v w2 where n: "timer_now w1 = Some (v, w2)"
      using "1.prems" p True by (cases "timer_now w1") (auto simp: ble_poll.simps [of t buf w])
    have w2: "w_air w2 = w_air w" "w_radio w2 = w_radio w" using e timer_now_SomeD [OF n] by auto
    show ?thesis
    proof (cases "t \<le> v")
      case True
      with \<open>r = Inr None\<close> "1.prems" p n have "receive_cancel w2 = Some w'" by (auto simp: ble_poll.simps [of t buf w] bind_eq_Some_conv)
      with w2 receive_cancel_effect show ?thesis by auto
    next
      case False
      with True "1.prems" p n have "ble_poll t b w2 = Some (got, buf', w')" by (simp add: ble_poll.simps [of t buf w])
      with "1.IH" [OF p] False True n w2 show ?thesis by simp
    qed
  qed
qed

lemma radio_window_air:
  assumes "radio_window am us (b, w) = Some (ok, b', w')"
  shows "w_air w' = w_air w"
proof -
  obtain t w1 w2 got buf w3 where l: "timer_now w = Some (t, w1)" "receive_start w1 = Some w2"
      "ble_poll (t + timeout_ticks us) (bl_rx_buf b) w2 = Some (got, buf, w3)"
    using assms by (auto simp: radio_window_def bind_eq_Some_conv Let_def)
  then have "w_air w3 = w_air w"
    using ble_poll_air [OF l(3)] receive_start_effect [OF l(2)] timer_now_SomeD [OF l(1)] by auto
  with assms l show ?thesis by (auto simp: radio_window_def Let_def split: option.splits if_splits)
qed

lemma ble_transmit_air: "ble_transmit n (b, w) = Some (b', w') \<Longrightarrow> w_air w' = w_air w @ [(w_radio w, take n (bl_tx_buf b))] \<and> b' = b"
  by (auto simp: ble_transmit_def bind_eq_Some_conv slice_def split: if_splits dest!: radio_transmit_effect)

lemma listen_for_scan_req_air:
  assumes "listen_for_scan_req (b, w) = Some (b', w')"
  shows "\<exists>rest. w_air w' = w_air w @ rest"
  using assms
  by (auto simp: listen_for_scan_req_def bind_eq_Some_conv Let_def dest!: radio_window_air ble_transmit_air split: if_splits)

lemma listen_for_scan_and_connect_air:
  assumes "listen_for_scan_and_connect ch (b, w) = Some (b', w')"
  shows "\<exists>rest. w_air w' = w_air w @ rest"
proof -
  obtain ok b1 w1 where l: "radio_window (push_bit (unat PDU_SCAN_REQ) 1 OR push_bit (unat PDU_CONNECT_REQ) 1)
      CONNECT_REQ_WINDOW_MICROS (b, w) = Some (ok, b1, w1)"
    using assms(1) by (auto simp: listen_for_scan_and_connect_def bind_eq_Some_conv Let_def)
  note a = radio_window_air [OF l]
  show ?thesis
  proof (cases ok)
    case False
    with assms l a show ?thesis by (simp add: listen_for_scan_and_connect_def)
  next
    case True
    obtain pkt where pkt: "slice (bl_rx_buf b1) 0 (bl_rx_pdu_len b1) = Some pkt"
      using assms l True by (auto simp: listen_for_scan_and_connect_def bind_eq_Some_conv)
    show ?thesis
    proof (cases "adv_pdu_decode pkt")
      case (Inl e)
      with assms l True pkt a show ?thesis by (simp add: listen_for_scan_and_connect_def)
    next
      case (Inr pdu)
      with assms l True pkt a show ?thesis
        by (cases pdu)
          (auto simp: listen_for_scan_and_connect_def bind_eq_Some_conv Let_def dest!: ble_transmit_air timer_now_SomeD
            split: if_splits sum.splits)
    qed
  qed
qed

section \<open>The advertiser\<close>

text \<open>The PDU that a legacy advertising event sends.\<close>

definition legacy_pdu :: "ble \<Rightarrow> adv_pdu" where
  "legacy_pdu b =
     (let data = take (bl_adv_data_len b) (bl_adv_data b) in
      case ap_adv_type (bl_adv_params b) of
        ConnectableDirected \<Rightarrow> AdvDirectInd (bl_own_addr b) (the (ap_peer_addr (bl_adv_params b)))
      | ConnectableUndirected \<Rightarrow> AdvInd (bl_own_addr b) data
      | ScannableUndirected \<Rightarrow> AdvScanInd (bl_own_addr b) data
      | NonConnectableUndirected \<Rightarrow> AdvNonconnInd (bl_own_addr b) data)"

lemma encode_total:
  assumes "adv_pdu_ok pdu" and "length (payload_of pdu) \<le> 63" and "length out = 257"
  shows "\<exists>buf n. encode_typed pdu out tx rx = Some (Inr (n, buf)) \<and> length buf = 257 \<and> n \<le> 65 \<and>
    adv_pdu_decode (take n buf) = wire_view pdu"
proof -
  obtain buf n where e: "encode_typed pdu out tx rx = Some (Inr (n, buf))"
    using encode_typed_spec [OF assms(1), of out tx rx] assms(2,3) by simp
  with encode_typed_length [OF e] encode_typed_decode [OF assms(1) e] assms(3) show ?thesis by simp
qed

lemma build_adv_pdu_total:
  assumes "ble_ok b" and "adv_valid (bl_adv_params b)"
  shows "\<exists>buf n. build_adv_pdu b = Some (b\<lparr>bl_tx_buf := buf, bl_tx_pdu_len := n\<rparr>) \<and> length buf = 257 \<and> n \<le> 65 \<and>
    adv_pdu_decode (take n buf) = Inr (legacy_pdu b)"
proof -
  have ok: "length (bl_adv_data b) = 31" "bl_adv_data_len b \<le> 31" "length (bl_own_addr b) = 6" "length (bl_tx_buf b) = 257"
    "\<And>a. ap_peer_addr (bl_adv_params b) = Some a \<Longrightarrow> length a = 6"
    using assms(1) ble_ok_lengths(9) [OF assms(1)] by (auto simp: ble_ok_def peer_typed_def)
  have peer: "ap_adv_type (bl_adv_params b) = ConnectableDirected \<Longrightarrow> \<exists>a. ap_peer_addr (bl_adv_params b) = Some a"
    using assms(2) by (auto simp: adv_valid_def)
  have l: "adv_pdu_ok (legacy_pdu b)" "length (payload_of (legacy_pdu b)) \<le> 63" "wire_view (legacy_pdu b) = Inr (legacy_pdu b)"
    using ok peer by (auto simp: legacy_pdu_def Let_def split: adv_type.split)
  obtain buf n where e: "encode_typed (legacy_pdu b) (bl_tx_buf b) (is_random (bl_own_addr_type b)) False = Some (Inr (n, buf))"
      "length buf = 257" "n \<le> 65" "adv_pdu_decode (take n buf) = wire_view (legacy_pdu b)"
    using encode_total [OF l(1,2) ok(4)] by blast
  have "build_adv_pdu b = Some (b\<lparr>bl_tx_buf := buf, bl_tx_pdu_len := n\<rparr>)"
    using e(1) ok peer
    by (cases "ap_adv_type (bl_adv_params b)")
      (auto simp: build_adv_pdu_def legacy_pdu_def ble_encode_def unwrap_def Let_def)
  with e(2-) l(3) show ?thesis by auto
qed

lemma and_push_bit_1: "(m :: u8) AND push_bit i 1 \<noteq> 0 \<longleftrightarrow> bit m i"
proof -
  have "m AND push_bit i 1 = (if bit m i then push_bit i 1 else 0)"
    by (rule bit_word_eqI) (auto simp: bit_simps)
  moreover have "push_bit i 1 \<noteq> (0 :: u8)" if "bit m i"
    using that bit_u8D [OF that] by (auto simp: bit_eq_iff bit_simps intro!: exI [of _ i])
  ultimately show ?thesis by auto
qed

lemma adv_channel_loop_3:
  "adv_channel_loop 3 m i =
     (if bit m i then i else if bit m ((i + 1) mod 3) then (i + 1) mod 3
      else if bit m (((i + 1) mod 3 + 1) mod 3) then ((i + 1) mod 3 + 1) mod 3 else (((i + 1) mod 3 + 1) mod 3 + 1) mod 3)"
  unfolding numeral_3_eq_3 adv_channel_loop.simps and_push_bit_1 by (rule refl)

lemma channel_enabled:
  assumes "(m :: u8) AND 7 \<noteq> 0" and "i < 3"
  shows "bit m (adv_channel_loop 3 m i) \<and> adv_channel_loop 3 m i < 3"
proof -
  have "\<exists>j < 3. bit m j"
  proof (rule ccontr)
    assume "\<not> (\<exists>j < 3. bit m j)"
    then have "take_bit 3 m = 0" by (intro bit_word_eqI) (auto simp: bit_simps)
    then show False using assms(1) by (simp add: take_bit_eq_mask mask_eq_exp_minus_1 and.commute)
  qed
  then have "bit m 0 \<or> bit m 1 \<or> bit m 2" by (auto simp: less_Suc_eq numeral_eq_Suc)
  moreover have "i = 0 \<or> i = 1 \<or> i = 2" using assms(2) by auto
  ultimately show ?thesis unfolding adv_channel_loop_3 by (elim disjE) (simp_all add: numeral_2_eq_2)
qed

text \<open>The channel of the next advertising event.\<close>

definition next_adv_idx :: "ble \<Rightarrow> nat" where
  "next_adv_idx b = adv_channel_loop 3 (ap_channel_map (bl_adv_params b)) (bl_adv_channel_idx b)"

lemma adv_tick_air:
  assumes "adv_tick (b, w) = Some (b', w')" and "ble_ok b" and "bl_adv_state b = AdvRunning" and "\<not> ap_extended (bl_adv_params b)"
  shows "\<exists>p rest. w_air w' = w_air w @ (w_radio (snd (set_channel (ADV_CHANNELS ! next_adv_idx b) w)), p) # rest \<and>
    adv_pdu_decode p = Inr (legacy_pdu b) \<and> length p \<le> 65"
proof -
  let ?i = "next_adv_idx b"
  let ?b = "b\<lparr>bl_adv_channel_idx := Suc ?i mod 3\<rparr>" and ?ch = "ADV_CHANNELS ! ?i"
  have v: "adv_valid (bl_adv_params b)" using assms(2,3) by (simp add: ble_ok_def)
  then have i: "?i < 3"
    using channel_enabled assms(2) by (simp add: next_adv_idx_def adv_valid_def ble_ok_def)
  then have ch: "get ADV_CHANNELS ?i = Some ?ch" by (simp add: ADV_CHANNELS_def)
  have "ble_ok ?b" using assms(2) by (intro ble_ok_set) simp_all
  then obtain buf n where b: "build_adv_pdu ?b = Some (?b\<lparr>bl_tx_buf := buf, bl_tx_pdu_len := n\<rparr>)" "n \<le> 65"
      "adv_pdu_decode (take n buf) = Inr (legacy_pdu ?b)"
    using build_adv_pdu_total [of ?b] v by auto
  let ?b1 = "?b\<lparr>bl_tx_buf := buf, bl_tx_pdu_len := n\<rparr>"
  obtain b2 w2 b3 w3 where s: "ble_transmit n (?b1, snd (set_channel ?ch w)) = Some (b2, w2)"
      "adv_follow ?ch (b2, w2) = Some (b3, w3)" "adv_rearm (b3, w3) = Some (b', w')"
    using assms(1,3,4) ch b(1) by (auto simp: adv_tick_def next_adv_idx_def bind_eq_Some_conv Let_def)
  have t: "w_air w2 = w_air w @ [(w_radio (snd (set_channel ?ch w)), take n buf)]" "b2 = ?b1"
    using ble_transmit_air [OF s(1)] by (simp_all add: set_channel_keeps)
  have "\<exists>rest. w_air w3 = w_air w2 @ rest"
    using s(2) t(2) assms(4) listen_for_scan_and_connect_air listen_for_scan_req_air
    by (auto simp: adv_follow_def split: adv_type.splits)
  moreover have "w_air w' = w_air w3"
    using s(3) by (auto simp: adv_rearm_def bind_eq_Some_conv Let_def case_prod_beta set_compare_def dest!: timer_now_SomeD)
  moreover have "legacy_pdu ?b = legacy_pdu b" by (simp add: legacy_pdu_def Let_def split: adv_type.split)
  ultimately show ?thesis using t(1) b(2,3) by (intro exI [of _ "take n buf"]) auto
qed

section \<open>The scanner\<close>

lemma scan_channel_hears:
  assumes "ble_ok s" and "bl_scan_channel_idx s < 3" and "hears k p v" and "0 < k" and "2 \<le> length (w_now v)"
    and "adv_pdu_decode p = Inr pdu" and "length p \<le> 65"
  defines "ch \<equiv> ADV_CHANNELS ! bl_scan_channel_idx s"
  shows "\<exists>t v2. scan_channel (s, v) = handle_scan_pdu
      (s\<lparr>bl_scan_cycle_start := t, bl_scan_channel_idx := Suc (bl_scan_channel_idx s), bl_last_radio_channel := Some ch,
         bl_rx_buf := set_prefix (bl_rx_buf s) p, bl_rx_pdu_len := length p\<rparr>, v2) \<and>
    w_air v2 = w_air v \<and> w_rssi v2 = w_rssi v \<and> length (w_now v) - 2 \<le> length (w_now v2) \<and>
    w_radio v2 = w_radio (snd (set_channel ch v)) \<and> (\<forall>f \<in> {READY, END, DISABLED}. k - 1 \<le> answers f v2)"
proof -
  let ?first = "bl_scan_channel_idx s = 0"
  let ?t = "if ?first then hd (w_now v) else bl_scan_cycle_start s"
  let ?ts = "if ?first then tl (w_now v) else w_now v"
  let ?s1 = "s\<lparr>bl_scan_cycle_start := ?t\<rparr>" and ?v1 = "v\<lparr>w_now := ?ts\<rparr>"
  have ts: "?ts \<noteq> []" using assms(5) by (cases "w_now v"; cases "tl (w_now v)") auto
  have nonempty: "w_now v \<noteq> []" using assms(5) by auto
  have first: "(if ?first then do { (t, w) \<leftarrow> timer_now v; Some (s\<lparr>bl_scan_cycle_start := t\<rparr>, w) } else Some (s, v)) = Some (?s1, ?v1)"
    using nonempty timer_now_total [of v] by auto
  let ?v2 = "(snd (set_channel ch ?v1))\<lparr>w_now := tl ?ts\<rparr>"
  have t2: "timer_now (snd (set_channel ch ?v1)) = Some (hd ?ts, ?v2)"
    using timer_now_total [of "snd (set_channel ch ?v1)"] ts by (simp add: set_channel_keeps)
  define d where "d = hd ?ts + window_ticks (sp_window (bl_scan_params s)) div 3"
  have "hears k p (set_compare d ?v2)"
    using assms(3) hears_cong [of "set_compare d ?v2" v] by (simp add: set_compare_def set_channel_keeps)
  then obtain w1 w2 where r: "receive_start (set_compare d ?v2) = Some w1"
      "ble_poll d (bl_rx_buf s) w1 = Some (Some (length p), set_prefix (bl_rx_buf s) p, w2)"
      "w_air w2 = w_air v" "w_now w2 = tl ?ts" "w_rssi w2 = w_rssi v" "w_radio w2 = w_radio (snd (set_channel ch ?v1))"
      "\<forall>f \<in> {READY, END, DISABLED}. k - 1 \<le> answers f w2"
    using receive_hits [OF _ assms(4) _ assms(6), of "set_compare d ?v2" "bl_rx_buf s" d] assms(1,7)
    by (auto simp: ble_ok_lengths set_compare_def set_channel_keeps)
  have ch: "get ADV_CHANNELS (bl_scan_channel_idx s) = Some ch" using assms(2) by (simp add: ADV_CHANNELS_def ch_def)
  have "scan_channel (s, v) = handle_scan_pdu
      (s\<lparr>bl_scan_cycle_start := ?t, bl_scan_channel_idx := Suc (bl_scan_channel_idx s), bl_last_radio_channel := Some ch,
         bl_rx_buf := set_prefix (bl_rx_buf s) p, bl_rx_pdu_len := length p\<rparr>, w2)"
    unfolding scan_channel_def prod.case first using ch t2 r(1,2) by (simp add: Let_def d_def)
  moreover have "w_radio (snd (set_channel ch ?v1)) = w_radio (snd (set_channel ch v))"
    by (simp add: set_channel_def set_radio_def Let_def split: sum.split)
  moreover have "length (w_now v) - 2 \<le> length (w_now w2)" using r(4) by (simp add: numeral_2_eq_2 diff_le_mono2)
  ultimately show ?thesis using r(3,5,6,7) by (intro exI [of _ ?t] exI [of _ w2]) simp
qed


lemma handle_scan_pdu_decoded:
  assumes "length p \<le> length buf" and "adv_pdu_decode p = Inr pdu" and "w_rssi v = r # rs"
    and "bl_rx_buf s = set_prefix buf p" and "bl_rx_pdu_len s = length p"
  shows "handle_scan_pdu (s, v) =
    (case pdu of
       AdvInd a data \<Rightarrow> handle_adv_report r a PDU_ADV_IND data (s, v\<lparr>w_rssi := rs\<rparr>)
     | AdvScanInd a data \<Rightarrow> handle_adv_report r a PDU_ADV_SCAN_IND data (s, v\<lparr>w_rssi := rs\<rparr>)
     | AdvExtInd a _ _ ptr \<Rightarrow> do {
         (got, b, w) \<leftarrow> follow_aux ptr (s, v\<lparr>w_rssi := rs\<rparr>);
         case got of
           None \<Rightarrow> Some (b, w)
         | Some (_, aux_data, aux_len) \<Rightarrow>
             Some (ble_push (scan_report a PDU_ADV_EXT_IND r (take aux_len aux_data)) b, w)
       }
     | _ \<Rightarrow> Some (s, v\<lparr>w_rssi := rs\<rparr>))"
  using assms by (simp add: handle_scan_pdu_def rssi_def)

section \<open>The initiator and the advertiser\<close>

lemma initiator_params_ok: "connect_req_ok initiator_params"
  by (simp add: connect_req_ok_def initiator_params_def)

text \<open>What both sides of a connection have to share.\<close>

definition link_params :: "conn \<Rightarrow> u32 \<times> u32 \<times> u16 \<times> u16 \<times> bytes \<times> u8" where
  "link_params c = (cn_access_addr c, cn_crc_init c, cn_interval c, cn_timeout c, cn_channel_map c, cn_hop c)"

lemma link_params_new:
  "link_params (conn_new p ch t r) = (cr_access_addr p, cr_crc_init p, cr_interval p, cr_timeout p, cr_channel_map p, cr_hop p)"
  "cn_role (conn_new p ch t r) = r" "cn_channel (conn_new p ch t r) = ch"
  by (simp_all add: link_params_def conn_new_def Let_def)

lemma send_connect_req_total:
  assumes "ble_ok s" and "bl_connect_target s = Some a" and "w_now v \<noteq> []"
    and "\<forall>f \<in> {READY, END, DISABLED}. 0 < answers f v"
  shows "\<exists>s' v' q t ll. send_connect_req (s, v) = Some (s', v') \<and> w_air v' = w_air v @ [(w_radio v, q)] \<and>
    bl_scan_state s' = ScanIdle \<and> length q \<le> 65 \<and> adv_pdu_decode q = Inr (ConnectReq (bl_own_addr s) a ll) \<and>
    connect_req_decode ll = Inr initiator_params \<and>
    bl_conn s' = Some (set_peer a (conn_new initiator_params (case bl_last_radio_channel s of Some ch \<Rightarrow> ch | None \<Rightarrow> 37) t Master))"
proof -
  let ?ll = "connect_req_bytes initiator_params"
  have ll: "length ?ll = 22" by (simp add: connect_req_bytes_def initiator_params_def le32_def le16_def)
  then have enc: "connect_req_encode initiator_params (replicate 22 0) = Inr (22, ?ll)"
    by (simp add: connect_req_encode_def CONNECT_LL_DATA_LEN_def set_prefix_def)
  have ok: "length (bl_own_addr s) = 6" "length a = 6" "length (bl_tx_buf s) = 257" using assms(1,2) by (simp_all add: ble_ok_lengths)
  obtain buf n where e: "encode_typed (ConnectReq (bl_own_addr s) a ?ll) (bl_tx_buf s) (is_random (bl_own_addr_type s))
      (is_random (bl_connect_target_type s)) = Some (Inr (n, buf))" "length buf = 257" "n \<le> 65"
      "adv_pdu_decode (take n buf) = Inr (ConnectReq (bl_own_addr s) a ?ll)"
    using encode_total [of "ConnectReq (bl_own_addr s) a ?ll" "bl_tx_buf s" "is_random (bl_own_addr_type s)"
        "is_random (bl_connect_target_type s)"] ok ll by auto
  obtain v1 where t: "radio_transmit (take n buf) v = Some v1" using radio_transmit_total assms(4) by (metis insertCI)
  have v1: "w_air v1 = w_air v @ [(w_radio v, take n buf)]" "w_now v1 = w_now v" using radio_transmit_effect [OF t] by simp_all
  have tx: "ble_transmit n (s\<lparr>bl_tx_buf := buf\<rparr>, v) = Some (s\<lparr>bl_tx_buf := buf\<rparr>, v1)"
    using t e(2,3) by (simp add: ble_transmit_def)
  have "timer_now v1 = Some (hd (w_now v), v1\<lparr>w_now := tl (w_now v)\<rparr>)" using timer_now_total [of v1] v1(2) assms(3) by simp
  with assms(2) enc e(1) tx v1(1) connect_req_roundtrip [OF initiator_params_ok] e(3,4) show ?thesis
    by (auto simp: send_connect_req_def Let_def ble_push_def)
qed

lemma listen_accepts:
  assumes "ble_ok b" and "hears 1 q w" and "2 \<le> length (w_now w)" and "length q \<le> 65"
    and "adv_pdu_decode q = Inr (ConnectReq ia a ll)" and "connect_req_decode ll = Inr p"
  shows "\<exists>b' w' t. listen_for_scan_and_connect ch (b, w) = Some (b', w') \<and> bl_conn b' = Some (conn_new p ch t Slave) \<and>
    bl_adv_state b' = AdvIdle"
proof -
  let ?m = "push_bit (unat PDU_SCAN_REQ) 1 OR push_bit (unat PDU_CONNECT_REQ) 1 :: u32"
  obtain t0 t1 ts where now: "w_now w = t0 # t1 # ts" using assms(3) by (cases "w_now w"; cases "tl (w_now w)") auto
  let ?w1 = "w\<lparr>w_now := t1 # ts\<rparr>"
  have "hears 1 q ?w1" using assms(2) hears_cong [of ?w1 w] by simp
  then obtain w2 w3 where r: "receive_start ?w1 = Some w2" "w_now w3 = t1 # ts"
      "ble_poll (t0 + timeout_ticks CONNECT_REQ_WINDOW_MICROS) (bl_rx_buf b) w2 = Some (Some (length q), set_prefix (bl_rx_buf b) q, w3)"
    using receive_hits [of 1 q ?w1 "bl_rx_buf b" _ "t0 + timeout_ticks CONNECT_REQ_WINDOW_MICROS"] assms(1,4,5)
    by (auto simp: ble_ok_lengths)
  have q: "2 \<le> length q" "q ! 0 AND 0x0F = PDU_CONNECT_REQ"
    using decode_length [OF assms(5)] adv_pdu_decode_lossless [OF assms(5)] by (simp_all add: pdu_types)
  have q0: "set_prefix (bl_rx_buf b) q ! 0 = q ! 0" using q(1) by (cases q) (simp_all add: set_prefix_def)
  let ?b = "b\<lparr>bl_rx_buf := set_prefix (bl_rx_buf b) q, bl_rx_pdu_len := length q\<rparr>"
  have win: "radio_window ?m CONNECT_REQ_WINDOW_MICROS (b, w) = Some (True, ?b, w3)"
    using now r q q0 by (simp add: radio_window_def timer_now_def pdu_types Let_def)
  have "slice (bl_rx_buf ?b) 0 (bl_rx_pdu_len ?b) = Some q" using assms(1,4) by (simp add: ble_ok_lengths)
  with win assms(5,6) r(2) show ?thesis
    by (auto simp: listen_for_scan_and_connect_def timer_now_def ble_push_def Let_def)
qed

section \<open>Properties\<close>

text \<open>C8. What a scanner makes of an advertisement. When the tick of a legacy advertiser returns, the
  first packet it has put on air went out on an enabled advertising channel (frequency and
  whitening of that channel). Take a scanner whose radio delivers that packet during a passive
  scan, that initiates no connection to the advertiser and whose filter policy accepts all. If the
  advertiser is connectable or scannable and undirected, the scanner returns from its channel with
  exactly one new event: the report of the advertiser's address, PDU type and advertising data,
  unchanged, with the signal strength read for the packet. Directed and non-connectable
  advertisements are never reported: the scanner returns with its events as they were.\<close>

theorem advertisement_is_reported:
  assumes "adv_tick (b, w) = Some (b', w')" and "ble_ok b" and "bl_adv_state b = AdvRunning"
    and "\<not> ap_extended (bl_adv_params b)"
  shows "\<exists>i rg p rest. i < 3 \<and> bit (ap_channel_map (bl_adv_params b)) i \<and> w_air w' = w_air w @ (rg, p) # rest \<and>
    channel_frequency (ADV_CHANNELS ! i) = Inr (2400 + ucast (rg_frequency rg)) \<and>
    rg_datawhiteiv rg = whitening_init (ADV_CHANNELS ! i) \<and>
    (\<forall>s v. ble_ok s \<and> bl_scan_channel_idx s < 3 \<and> hears 1 p v \<and> 2 \<le> length (w_now v) \<and>
       bl_connect_target s \<noteq> Some (bl_own_addr b) \<and> sp_filter_policy (bl_scan_params s) = AcceptAll \<and>
       \<not> sp_active (bl_scan_params s) \<longrightarrow>
       (\<exists>s' v'. scan_channel (s, v) = Some (s', v') \<and>
          bl_events s' = (if ap_adv_type (bl_adv_params b) \<in> {ConnectableUndirected, ScannableUndirected}
            then push_event (bl_events s)
              (ScanReport (bl_own_addr b) (ba_addr_type (parse_addr (bl_own_addr b))) (pdu_type (legacy_pdu b)) (hd (w_rssi v))
                 (set_prefix (replicate 31 0) (take (bl_adv_data_len b) (bl_adv_data b))) (bl_adv_data_len b))
            else bl_events s)))"
proof -
  let ?i = "next_adv_idx b" and ?d = "take (bl_adv_data_len b) (bl_adv_data b)"
  have i: "?i < 3" "bit (ap_channel_map (bl_adv_params b)) ?i"
    using channel_enabled assms(2,3) by (simp_all add: next_adv_idx_def adv_valid_def ble_ok_def)
  obtain p rest where p: "w_air w' = w_air w @ (w_radio (snd (set_channel (ADV_CHANNELS ! ?i) w)), p) # rest"
      "adv_pdu_decode p = Inr (legacy_pdu b)" "length p \<le> 65"
    using adv_tick_air [OF assms(1-4)] by blast
  have d: "length ?d = bl_adv_data_len b" "bl_adv_data_len b \<le> 31" using assms(2) by (simp_all add: ble_ok_def)
  have "?i = 0 \<or> ?i = 1 \<or> ?i = 2" using i(1) by linarith
  then have "ADV_CHANNELS ! ?i < 40" by (auto simp: ADV_CHANNELS_def)
  then obtain f where f: "channel_frequency (ADV_CHANNELS ! ?i) = Inr f" "2400 + ucast (ucast (f - 2400) :: u8) = f"
    using channel_frequency_offset by blast
  have "\<exists>s' v'. scan_channel (s, v) = Some (s', v') \<and>
      bl_events s' = (if ap_adv_type (bl_adv_params b) \<in> {ConnectableUndirected, ScannableUndirected}
        then push_event (bl_events s)
          (ScanReport (bl_own_addr b) (ba_addr_type (parse_addr (bl_own_addr b))) (pdu_type (legacy_pdu b)) (hd (w_rssi v))
             (set_prefix (replicate 31 0) ?d) (bl_adv_data_len b))
        else bl_events s)"
    if s: "ble_ok s" "bl_scan_channel_idx s < 3" "hears 1 p v" "2 \<le> length (w_now v)"
      "bl_connect_target s \<noteq> Some (bl_own_addr b)" "sp_filter_policy (bl_scan_params s) = AcceptAll" "\<not> sp_active (bl_scan_params s)"
    for s v
  proof -
    obtain t v2 where c: "scan_channel (s, v) = handle_scan_pdu
        (s\<lparr>bl_scan_cycle_start := t, bl_scan_channel_idx := Suc (bl_scan_channel_idx s),
           bl_last_radio_channel := Some (ADV_CHANNELS ! bl_scan_channel_idx s),
           bl_rx_buf := set_prefix (bl_rx_buf s) p, bl_rx_pdu_len := length p\<rparr>, v2)" "w_rssi v2 = w_rssi v"
      using scan_channel_hears [OF s(1-3) _ s(4) p(2,3)] by auto
    obtain r rs where r: "w_rssi v2 = r # rs" using s(3) c(2) by (cases "w_rssi v") (auto simp: hears_def)
    have l: "length p \<le> length (bl_rx_buf s)" using p(3) s(1) by (simp add: ble_ok_lengths)
    let ?s = "s\<lparr>bl_scan_cycle_start := t, bl_scan_channel_idx := Suc (bl_scan_channel_idx s),
           bl_last_radio_channel := Some (ADV_CHANNELS ! bl_scan_channel_idx s),
           bl_rx_buf := set_prefix (bl_rx_buf s) p, bl_rx_pdu_len := length p\<rparr>"
    have rx: "bl_rx_buf ?s = set_prefix (bl_rx_buf s) p" "bl_rx_pdu_len ?s = length p" by simp_all
    show ?thesis
      unfolding c(1) handle_scan_pdu_decoded [OF l p(2) r rx]
      using s(5-) d r c(2)
      by (auto simp: legacy_pdu_def handle_adv_report_def ble_push_def scan_report_def Let_def split: adv_type.splits)
  qed
  then show ?thesis
    using i p(1) f
    by (intro exI [of _ ?i] exI [of _ "w_radio (snd (set_channel (ADV_CHANNELS ! ?i) w))"] exI [of _ p] exI [of _ rest])
      (auto simp: set_channel_def set_radio_def whitening_init_def)
qed


text \<open>A device that receives the packet \<open>p\<close>.\<close>

definition example_receiver :: "bytes \<Rightarrow> world" where
  "example_receiver p = (example_world [0, 1, 2] [p])\<lparr>w_rssi := [55]\<rparr>"

lemma example_receiver_hears: "hears 2 p (example_receiver p)" "hears 1 p (example_receiver p)"
  "w_now (example_receiver p) = [0, 1, 2]"
proof -
  have a: "f \<noteq> CRCERROR \<Longrightarrow> answers f (example_receiver p) = 20" for f
    by (simp add: answers_def example_receiver_def example_world_def)
  have "\<exists>x xs. w_flag (example_receiver p) END = x # xs \<and> x \<noteq> 0" "\<exists>xs. w_flag (example_receiver p) CRCERROR = 0 # xs"
    by (simp_all add: example_receiver_def example_world_def numeral_eq_Suc)
  then show "hears 2 p (example_receiver p)" "hears 1 p (example_receiver p)"
    by (simp_all add: hears_def a) (simp_all add: example_receiver_def example_world_def)
  show "w_now (example_receiver p) = [0, 1, 2]" by (simp add: example_receiver_def example_world_def)
qed

definition example_ble :: ble where
  "example_ble = fst (ble_new (example_world [] []))"

lemma example_ble_ok: "ble_ok example_ble" "bl_scan_channel_idx example_ble = 0" "bl_scan_params example_ble = scan_params_default"
  "bl_connect_target example_ble = None" "bl_events example_ble = ring_new 8" "bl_own_addr example_ble = replicate 6 0"
  using ble_new_ok [of "example_world [] []"]
  by (simp_all add: example_ble_def stack_ok_def radio_off_def example_world_def) (simp_all add: ble_new_def EVENT_QUEUE_LEN_def)

text \<open>An advertiser in its first event, in which it hears a packet that is no request.\<close>

definition example_advertiser :: ble where
  "example_advertiser = example_ble\<lparr>bl_adv_state := AdvRunning\<rparr>"

theorem advertisement_is_reported_witness:
  "\<exists>b' w' s' v'. adv_tick (example_advertiser, example_world [0, 1] [[0, 0]]) = Some (b', w') \<and>
     map snd (w_air w') = [[0, 0x0C, 0, 0, 0, 0, 0, 0]] \<and>
     scan_channel (example_ble, example_receiver [0, 0x0C, 0, 0, 0, 0, 0, 0]) = Some (s', v') \<and>
     bl_events s' = push_event (ring_new 8)
       (ScanReport (replicate 6 0) RandomPrivateNonResolvable PDU_ADV_IND 55 (replicate 31 0) 0)"
proof -
  have "map_option (\<lambda>(b, w). map snd (w_air w)) (adv_tick (example_advertiser, example_world [0, 1] [[0, 0]])) =
      Some [[0, 0x0C, 0, 0, 0, 0, 0, 0]]" by code_simp
  then obtain b' w' where t: "adv_tick (example_advertiser, example_world [0, 1] [[0, 0]]) = Some (b', w')"
      "map snd (w_air w') = [[0, 0x0C, 0, 0, 0, 0, 0, 0]]" by auto
  have par: "bl_adv_params example_advertiser = adv_params_default" "bl_own_addr example_advertiser = replicate 6 0"
    "bl_adv_data_len example_advertiser = 0" "bl_adv_state example_advertiser = AdvRunning"
    by (simp_all add: example_advertiser_def example_ble_def ble_new_def)
  have "ble_ok example_advertiser"
    unfolding example_advertiser_def using example_ble_ok(1)
    by (intro ble_ok_set) (simp_all add: example_ble_def ble_new_def adv_valid_def adv_params_default_def)
  from advertisement_is_reported [OF t(1) this, unfolded par] obtain rg p rest where
      p: "w_air w' = w_air (example_world [0, 1] [[0, 0]]) @ (rg, p) # rest" and
      s: "\<And>s v. ble_ok s \<Longrightarrow> bl_scan_channel_idx s < 3 \<Longrightarrow> hears 1 p v \<Longrightarrow> 2 \<le> length (w_now v) \<Longrightarrow>
        bl_connect_target s \<noteq> Some (replicate 6 0) \<Longrightarrow> sp_filter_policy (bl_scan_params s) = AcceptAll \<Longrightarrow>
        \<not> sp_active (bl_scan_params s) \<Longrightarrow>
        \<exists>s' v'. scan_channel (s, v) = Some (s', v') \<and> bl_events s' = push_event (bl_events s)
          (ScanReport (replicate 6 0) (ba_addr_type (parse_addr (replicate 6 0))) (pdu_type (legacy_pdu example_advertiser)) (hd (w_rssi v))
             (set_prefix (replicate 31 0) (take 0 (bl_adv_data example_advertiser))) 0)"
    by (auto simp: adv_params_default_def)
  have "p = [0, 0x0C, 0, 0, 0, 0, 0, 0]" using t(2) p by (simp add: example_world_def)
  moreover have "\<exists>s' v'. scan_channel (example_ble, example_receiver p) = Some (s', v') \<and> bl_events s' = push_event (ring_new 8)
      (ScanReport (replicate 6 0) (ba_addr_type (parse_addr (replicate 6 0))) (pdu_type (legacy_pdu example_advertiser))
         (hd (w_rssi (example_receiver p))) (set_prefix (replicate 31 0) (take 0 (bl_adv_data example_advertiser))) 0)"
    using s [of example_ble "example_receiver p"] example_ble_ok example_receiver_hears [of p] by (simp add: scan_params_default_def)
  moreover have "pdu_type (legacy_pdu example_advertiser) = PDU_ADV_IND"
    by (simp add: legacy_pdu_def par adv_params_default_def Let_def)
  moreover have "ba_addr_type (parse_addr (replicate 6 0)) = RandomPrivateNonResolvable" by (simp add: parse_addr_def)
  moreover have "hd (w_rssi (example_receiver p)) = 55" by (simp add: example_receiver_def)
  moreover have "set_prefix (replicate 31 0) (take 0 d) = replicate 31 (0 :: u8)" for d by (simp add: set_prefix_def)
  ultimately show ?thesis using t by auto
qed

lemma initiator_connects:
  assumes "ble_ok s" and "bl_scan_channel_idx s < 3" and "hears 2 p v" and "3 \<le> length (w_now v)"
    and "adv_pdu_decode p = Inr pdu" and "length p \<le> 65" and "bl_connect_target s = Some a"
    and "pdu \<in> {AdvInd a d, AdvScanInd a d}"
  defines "ch \<equiv> ADV_CHANNELS ! bl_scan_channel_idx s"
  shows "\<exists>s' v' q tm ll. scan_channel (s, v) = Some (s', v') \<and> w_air v' = w_air v @ [(w_radio (snd (set_channel ch v)), q)] \<and>
    bl_scan_state s' = ScanIdle \<and> length q \<le> 65 \<and> adv_pdu_decode q = Inr (ConnectReq (bl_own_addr s) a ll) \<and>
    connect_req_decode ll = Inr initiator_params \<and> bl_conn s' = Some (set_peer a (conn_new initiator_params ch tm Master))"
proof -
  obtain t v2 where c: "scan_channel (s, v) = handle_scan_pdu
      (s\<lparr>bl_scan_cycle_start := t, bl_scan_channel_idx := Suc (bl_scan_channel_idx s), bl_last_radio_channel := Some ch,
         bl_rx_buf := set_prefix (bl_rx_buf s) p, bl_rx_pdu_len := length p\<rparr>, v2)"
      "w_air v2 = w_air v" "w_rssi v2 = w_rssi v" "length (w_now v) - 2 \<le> length (w_now v2)"
      "w_radio v2 = w_radio (snd (set_channel ch v))" "\<forall>f \<in> {READY, END, DISABLED}. 1 \<le> answers f v2"
    using scan_channel_hears [OF assms(1-3) _ _ assms(5,6)] assms(4) unfolding ch_def by auto
  let ?s = "s\<lparr>bl_scan_cycle_start := t, bl_scan_channel_idx := Suc (bl_scan_channel_idx s), bl_last_radio_channel := Some ch,
         bl_rx_buf := set_prefix (bl_rx_buf s) p, bl_rx_pdu_len := length p\<rparr>"
  obtain r rs where r: "w_rssi v2 = r # rs" using assms(3) c(3) by (cases "w_rssi v") (auto simp: hears_def)
  let ?v = "v2\<lparr>w_rssi := rs\<rparr>"
  have "length p \<le> length (bl_rx_buf s)" using assms(1,6) by (simp add: ble_ok_lengths)
  from handle_scan_pdu_decoded [OF this assms(5) r, of ?s] assms(7,8)
  have sc: "scan_channel (s, v) = send_connect_req (?s, ?v)" unfolding c(1) by (auto simp: handle_adv_report_def)
  have "ble_ok ?s" using assms(1,2,6) by (auto intro!: ble_ok_set simp: ble_ok_lengths)
  moreover have "w_now ?v \<noteq> []" using c(4) assms(4) by auto
  moreover have "\<forall>f \<in> {READY, END, DISABLED}. 0 < answers f ?v" using c(6) by (simp add: answers_def Suc_le_eq)
  ultimately obtain s' v' q tm ll where q: "send_connect_req (?s, ?v) = Some (s', v')" "w_air v' = w_air v @ [(w_radio v2, q)]"
      "bl_scan_state s' = ScanIdle" "length q \<le> 65" "adv_pdu_decode q = Inr (ConnectReq (bl_own_addr s) a ll)"
      "connect_req_decode ll = Inr initiator_params" "bl_conn s' = Some (set_peer a (conn_new initiator_params ch tm Master))"
    using send_connect_req_total [of ?s a ?v] assms(7) c(2) by auto
  with sc c(5) show ?thesis by metis
qed

text \<open>An initiator takes no notice of any other legacy advertisement, and neither does a scanner.\<close>

lemma other_pdus_ignored:
  assumes "ble_ok s" and "bl_scan_channel_idx s < 3" and "hears k p v" and "0 < k" and "2 \<le> length (w_now v)"
    and "adv_pdu_decode p = Inr pdu" and "length p \<le> 65" and "pdu_type pdu \<notin> {PDU_ADV_IND, PDU_ADV_SCAN_IND, PDU_ADV_EXT_IND}"
  shows "\<exists>s' v'. scan_channel (s, v) = Some (s', v') \<and> w_air v' = w_air v \<and> bl_conn s' = bl_conn s \<and>
    bl_scan_state s' = bl_scan_state s \<and> bl_connect_target s' = bl_connect_target s \<and> bl_events s' = bl_events s"
proof -
  let ?ch = "ADV_CHANNELS ! bl_scan_channel_idx s"
  obtain t v2 where c: "scan_channel (s, v) = handle_scan_pdu
      (s\<lparr>bl_scan_cycle_start := t, bl_scan_channel_idx := Suc (bl_scan_channel_idx s), bl_last_radio_channel := Some ?ch,
         bl_rx_buf := set_prefix (bl_rx_buf s) p, bl_rx_pdu_len := length p\<rparr>, v2)" "w_air v2 = w_air v" "w_rssi v2 = w_rssi v"
    using scan_channel_hears [OF assms(1-7)] by blast
  let ?s = "s\<lparr>bl_scan_cycle_start := t, bl_scan_channel_idx := Suc (bl_scan_channel_idx s), bl_last_radio_channel := Some ?ch,
         bl_rx_buf := set_prefix (bl_rx_buf s) p, bl_rx_pdu_len := length p\<rparr>"
  obtain r rs where r: "w_rssi v2 = r # rs" using assms(3) c(3) by (cases "w_rssi v") (auto simp: hears_def)
  have l: "length p \<le> length (bl_rx_buf s)" using assms(1,7) by (simp add: ble_ok_lengths)
  have rx: "bl_rx_buf ?s = set_prefix (bl_rx_buf s) p" "bl_rx_pdu_len ?s = length p" by simp_all
  show ?thesis
    unfolding c(1) handle_scan_pdu_decoded [OF l assms(6) r rx] using assms(8) c(2) by (cases pdu) simp_all
qed

text \<open>C3. A connection request puts both sides on the same link. An initiator that hears an ADV_IND
  (or ADV_SCAN_IND) of the device it is to connect to answers with one packet, stops scanning and
  is master of a connection; any advertiser that hears that packet while it listens for connection
  requests stops advertising and is slave of a connection with the same access address, CRC start
  value, interval, timeout, channel map and hop; and when both were on the same advertising
  channel, they are on the same channel after any number of connection events, whatever traffic
  the events carry. A directed advertisement of the same device is not answered, although it is
  connectable: like a non-connectable one it is dropped, nothing is sent and the initiator goes on
  scanning.\<close>

theorem connection_established:
  assumes "ble_ok s" and "bl_scan_channel_idx s < 3" and "hears 2 p v" and "3 \<le> length (w_now v)"
    and "adv_pdu_decode p = Inr pdu" and "length p \<le> 65" and "bl_connect_target s = Some a"
  defines "ch \<equiv> ADV_CHANNELS ! bl_scan_channel_idx s"
  shows "(pdu \<in> {AdvInd a d, AdvScanInd a d} \<longrightarrow> (\<exists>s' v' rg q cm. scan_channel (s, v) = Some (s', v') \<and> bl_scan_state s' = ScanIdle \<and> bl_conn s' = Some cm \<and>
    w_air v' = w_air v @ [(rg, q)] \<and> rg = w_radio (snd (set_channel ch v)) \<and>
    cn_role cm = Master \<and> cn_peer_addr cm = a \<and>
    (\<forall>b w ch'. ble_ok b \<and> hears 1 q w \<and> 2 \<le> length (w_now w) \<longrightarrow>
       (\<exists>b' w' cs. listen_for_scan_and_connect ch' (b, w) = Some (b', w') \<and> bl_adv_state b' = AdvIdle \<and>
          bl_conn b' = Some cs \<and> cn_role cs = Slave \<and> link_params cs = link_params cm \<and>
          (ch' = ch \<longrightarrow> (\<forall>cx eng n wm ws tm ts cm' cs' wm' ws'.
             run_events cx eng n cm wm = Some (tm, cm', wm') \<and> run_events cx eng n cs ws = Some (ts, cs', ws') \<longrightarrow>
             cn_channel cm' = cn_channel cs')))))) \<and>
    (pdu \<in> {AdvDirectInd a i, AdvNonconnInd a d} \<longrightarrow> (\<exists>s' v'. scan_channel (s, v) = Some (s', v') \<and> w_air v' = w_air v \<and>
       bl_conn s' = bl_conn s \<and> bl_scan_state s' = bl_scan_state s \<and> bl_connect_target s' = bl_connect_target s))"
proof (intro conjI impI)
  assume "pdu \<in> {AdvDirectInd a i, AdvNonconnInd a d}"
  then have "pdu_type pdu \<notin> {PDU_ADV_IND, PDU_ADV_SCAN_IND, PDU_ADV_EXT_IND}" by (auto simp: pdu_types)
  moreover have "2 \<le> length (w_now v)" using assms(4) by simp
  ultimately show "\<exists>s' v'. scan_channel (s, v) = Some (s', v') \<and> w_air v' = w_air v \<and>
       bl_conn s' = bl_conn s \<and> bl_scan_state s' = bl_scan_state s \<and> bl_connect_target s' = bl_connect_target s"
    using other_pdus_ignored [OF assms(1-3) _ _ assms(5,6)] by auto
next
  assume pdu: "pdu \<in> {AdvInd a d, AdvScanInd a d}"
  obtain s' v' q tm ll where q: "scan_channel (s, v) = Some (s', v')" "w_air v' = w_air v @ [(w_radio (snd (set_channel ch v)), q)]"
      "bl_scan_state s' = ScanIdle" "length q \<le> 65" "adv_pdu_decode q = Inr (ConnectReq (bl_own_addr s) a ll)"
      "connect_req_decode ll = Inr initiator_params" "bl_conn s' = Some (set_peer a (conn_new initiator_params ch tm Master))"
    using initiator_connects [OF assms(1-7) pdu] unfolding ch_def by blast
  let ?cm = "set_peer a (conn_new initiator_params ch tm Master)"
  have cm: "cn_role ?cm = Master" "cn_peer_addr ?cm = a" "cn_channel ?cm = ch"
    "link_params ?cm = link_params (conn_new initiator_params ch' t' Slave)" for ch' t'
    using link_params_new by (auto simp: set_peer_def link_params_def)
  have hop: "cn_hop c1 = cn_hop c2 \<and> cn_channel_map c1 = cn_channel_map c2" if "link_params c1 = link_params c2" for c1 c2
    using that by (simp add: link_params_def)
  have "\<exists>b' w' cs. listen_for_scan_and_connect ch' (b, w) = Some (b', w') \<and> bl_adv_state b' = AdvIdle \<and>
      bl_conn b' = Some cs \<and> cn_role cs = Slave \<and> link_params cs = link_params ?cm \<and>
      (ch' = ch \<longrightarrow> (\<forall>cx eng n wm ws tm ts cm' cs' wm' ws'.
         run_events cx eng n ?cm wm = Some (tm, cm', wm') \<and> run_events cx eng n cs ws = Some (ts, cs', ws') \<longrightarrow>
         cn_channel cm' = cn_channel cs'))"
    if b: "ble_ok b" "hears 1 q w" "2 \<le> length (w_now w)" for b w ch'
  proof -
    obtain b' w' t' where l: "listen_for_scan_and_connect ch' (b, w) = Some (b', w')" "bl_adv_state b' = AdvIdle"
        "bl_conn b' = Some (conn_new initiator_params ch' t' Slave)"
      using listen_accepts [OF b q(4-6)] by blast
    have "cn_channel cm' = cn_channel cs'"
      if "ch' = ch" "run_events cx eng n ?cm wm = Some (tm, cm', wm')"
        "run_events cx eng n (conn_new initiator_params ch' t' Slave) ws = Some (ts, cs', ws')" for cx eng n wm ws tm ts cm' cs' wm' ws'
      using run_events_schedule(1) [OF that(2)] run_events_schedule(1) [OF that(3)] hop [OF cm(4)] that(1) cm(3)
      by (simp add: link_params_new)
    with l cm(4) show ?thesis
      by (intro exI [of _ b'] exI [of _ w'] exI [of _ "conn_new initiator_params ch' t' Slave"]) (auto simp: link_params_new)
  qed
  then show "\<exists>s' v' rg q cm. scan_channel (s, v) = Some (s', v') \<and> bl_scan_state s' = ScanIdle \<and> bl_conn s' = Some cm \<and>
    w_air v' = w_air v @ [(rg, q)] \<and> rg = w_radio (snd (set_channel ch v)) \<and>
    cn_role cm = Master \<and> cn_peer_addr cm = a \<and>
    (\<forall>b w ch'. ble_ok b \<and> hears 1 q w \<and> 2 \<le> length (w_now w) \<longrightarrow>
       (\<exists>b' w' cs. listen_for_scan_and_connect ch' (b, w) = Some (b', w') \<and> bl_adv_state b' = AdvIdle \<and>
          bl_conn b' = Some cs \<and> cn_role cs = Slave \<and> link_params cs = link_params cm \<and>
          (ch' = ch \<longrightarrow> (\<forall>cx eng n wm ws tm ts cm' cs' wm' ws'.
             run_events cx eng n cm wm = Some (tm, cm', wm') \<and> run_events cx eng n cs ws = Some (ts, cs', ws') \<longrightarrow>
             cn_channel cm' = cn_channel cs'))))"
    using q cm(1,2)
    by (intro exI [of _ s'] exI [of _ v'] exI [of _ "w_radio (snd (set_channel ch v))"] exI [of _ q] exI [of _ ?cm]) simp
qed

theorem connection_established_witness:
  "\<exists>s' v' rg q cm b' w' cs.
     scan_channel (example_ble\<lparr>bl_connect_target := Some (replicate 6 0)\<rparr>, example_receiver [0, 0x0C, 0, 0, 0, 0, 0, 0]) = Some (s', v') \<and>
     w_air v' = [(rg, q)] \<and> bl_conn s' = Some cm \<and> cn_role cm = Master \<and>
     listen_for_scan_and_connect 37 (example_ble, example_receiver q) = Some (b', w') \<and> bl_conn b' = Some cs \<and>
     cn_role cs = Slave \<and> link_params cs = link_params cm"
proof -
  let ?s = "example_ble\<lparr>bl_connect_target := Some (replicate 6 0)\<rparr>" and ?p = "[0, 0x0C, 0, 0, 0, 0, 0, 0]"
  have h: "ble_ok ?s" "bl_scan_channel_idx ?s < 3" "hears 2 ?p (example_receiver ?p)" "3 \<le> length (w_now (example_receiver ?p))"
      "length ?p \<le> 65" "bl_connect_target ?s = Some (replicate 6 0)"
    using example_ble_ok(1,2) example_receiver_hears(1,3) [of ?p] by (auto intro!: ble_ok_set)
  have d: "adv_pdu_decode ?p = Inr (AdvInd (replicate 6 0) [])" by code_simp
  obtain s' v' rg q cm where q: "scan_channel (?s, example_receiver ?p) = Some (s', v')" "bl_conn s' = Some cm"
      "w_air v' = w_air (example_receiver ?p) @ [(rg, q)]" "cn_role cm = Master" and
      l: "\<forall>b w ch'. ble_ok b \<and> hears 1 q w \<and> 2 \<le> length (w_now w) \<longrightarrow>
       (\<exists>b' w' cs. listen_for_scan_and_connect ch' (b, w) = Some (b', w') \<and> bl_adv_state b' = AdvIdle \<and>
          bl_conn b' = Some cs \<and> cn_role cs = Slave \<and> link_params cs = link_params cm \<and>
          (ch' = ADV_CHANNELS ! bl_scan_channel_idx ?s \<longrightarrow> (\<forall>cx eng n wm ws tm ts cm' cs' wm' ws'.
             run_events cx eng n cm wm = Some (tm, cm', wm') \<and> run_events cx eng n cs ws = Some (ts, cs', ws') \<longrightarrow>
             cn_channel cm' = cn_channel cs')))"
    using connection_established [where d = "[]", OF h(1-4) d h(5,6), THEN conjunct1, THEN mp, OF insertI1]
    by (elim exE conjE) (rule that)
  have air: "w_air v' = [(rg, q)]" using q(3) by (simp add: example_receiver_def example_world_def)
  obtain b' w' cs where "listen_for_scan_and_connect 37 (example_ble, example_receiver q) = Some (b', w')" "bl_conn b' = Some cs"
      "cn_role cs = Slave" "link_params cs = link_params cm"
    using l [rule_format, of example_ble "example_receiver q" 37] example_ble_ok(1) example_receiver_hears(2,3) [of q] by auto
  with q air show ?thesis by blast
qed

text \<open>Filling the accept list anew: \<open>gap_accept_list_clear\<close>, then one \<open>gap_accept_list_add\<close> for each
  entry.\<close>

definition accept_devices :: "(addr_type \<times> bytes) list \<Rightarrow> ble \<Rightarrow> ble" where
  "accept_devices ks b = foldl (\<lambda>b (t, a). snd (gap_accept_list_add a t b)) (gap_accept_list_clear b) ks"

lemma accept_devices_list:
  "foldl (\<lambda>b (t, a). snd (gap_accept_list_add a t b)) (b\<lparr>bl_accept_list := l\<rparr>) ks = b\<lparr>bl_accept_list := al.insert_all l ks\<rparr>"
  by (induction ks arbitrary: l)
    (auto simp: al.insert_all_def gap_accept_list_add_def al_insert_def case_prod_beta)

lemma accept_devices_contains:
  assumes "al_ok (bl_accept_list b)" and "card (set ks) \<le> ACCEPT_LIST_MAX"
  shows "\<exists>l. accept_devices ks b = b\<lparr>bl_accept_list := l\<rparr> \<and> (\<forall>a t. al_contains l a t \<longleftrightarrow> (t, a) \<in> set ks)"
proof -
  let ?c = "al_clear (bl_accept_list b)"
  have c: "al_ok ?c" "set (al_slice ?c) = {}" using al.invar_clear al.keys_clear assms(1) by blast+
  have "al_contains (al.insert_all ?c ks) a t \<longleftrightarrow> (t, a) \<in> set ks" for a t
    using al.insert_all_member [OF c(1), of ks "(t, a)"] assms(2) c(2) by (simp add: al_member_def al_contains_iff)
  moreover have "accept_devices ks b = b\<lparr>bl_accept_list := al.insert_all ?c ks\<rparr>"
    unfolding accept_devices_def gap_accept_list_clear_def accept_devices_list by (rule refl)
  ultimately show ?thesis by blast
qed

text \<open>C16. Filtering by the accept list. A passive scan with the filter policy \<open>AcceptList\<close>, after the
  list has been cleared and filled with at most eight entries, reports an ADV_IND or ADV_SCAN_IND
  that it hears, of a device other than the one it is to connect to, exactly when the list has an
  entry with the advertiser's address and the type that the address's top bits give it, and is
  silent otherwise. That type is never \<open>Public\<close>: a device entered with its public address type is
  not reported. The other legacy PDUs, directed and non-connectable advertisements among them, are
  not reported whatever the list holds.\<close>

theorem accept_list_filter:
  assumes "ble_ok s" and "bl_scan_channel_idx s < 3" and "hears 1 p v" and "2 \<le> length (w_now v)"
    and "adv_pdu_decode p = Inr pdu" and "length p \<le> 65" and "pdu_type pdu \<noteq> PDU_ADV_EXT_IND"
    and "al_ok (bl_accept_list s)" and "card (set ks) \<le> ACCEPT_LIST_MAX"
    and "sp_filter_policy (bl_scan_params s) = AcceptList" and "\<not> sp_active (bl_scan_params s)"
    and "\<And>a d. pdu \<in> {AdvInd a d, AdvScanInd a d} \<Longrightarrow> bl_connect_target s \<noteq> Some a"
  shows "\<exists>s' v'. scan_channel (accept_devices ks s, v) = Some (s', v') \<and> w_air v' = w_air v \<and>
    (let reported = (\<lambda>a ty d. if (ba_addr_type (parse_addr a), a) \<in> set ks
       then push_event (bl_events s) (scan_report a ty (hd (w_rssi v)) d) else bl_events s) in
     bl_events s' = (case pdu of AdvInd a d \<Rightarrow> reported a PDU_ADV_IND d | AdvScanInd a d \<Rightarrow> reported a PDU_ADV_SCAN_IND d
       | _ \<Rightarrow> bl_events s)) \<and>
    (\<forall>a. ba_addr_type (parse_addr a) \<noteq> Public)"
proof -
  obtain l where l: "accept_devices ks s = s\<lparr>bl_accept_list := l\<rparr>" "\<And>a t. al_contains l a t \<longleftrightarrow> (t, a) \<in> set ks"
    using accept_devices_contains [OF assms(8,9)] by blast
  let ?s = "s\<lparr>bl_accept_list := l\<rparr>"
  have s: "ble_ok ?s" "bl_scan_channel_idx ?s < 3" using assms(1,2) by simp_all
  obtain t v2 where c: "scan_channel (?s, v) = handle_scan_pdu
      (?s\<lparr>bl_scan_cycle_start := t, bl_scan_channel_idx := Suc (bl_scan_channel_idx ?s),
         bl_last_radio_channel := Some (ADV_CHANNELS ! bl_scan_channel_idx ?s),
         bl_rx_buf := set_prefix (bl_rx_buf ?s) p, bl_rx_pdu_len := length p\<rparr>, v2)" "w_rssi v2 = w_rssi v" "w_air v2 = w_air v"
    using scan_channel_hears [OF s assms(3) _ assms(4-6)] by auto
  let ?s2 = "?s\<lparr>bl_scan_cycle_start := t, bl_scan_channel_idx := Suc (bl_scan_channel_idx ?s),
         bl_last_radio_channel := Some (ADV_CHANNELS ! bl_scan_channel_idx ?s),
         bl_rx_buf := set_prefix (bl_rx_buf ?s) p, bl_rx_pdu_len := length p\<rparr>"
  obtain r rs where r: "w_rssi v2 = r # rs" using assms(3) c(2) by (cases "w_rssi v") (auto simp: hears_def)
  have b: "length p \<le> length (bl_rx_buf ?s)" using assms(1,6) by (simp add: ble_ok_lengths)
  have rx: "bl_rx_buf ?s2 = set_prefix (bl_rx_buf ?s) p" "bl_rx_pdu_len ?s2 = length p" by simp_all
  have "ba_addr_type (parse_addr a) \<noteq> Public" for a by (simp add: parse_addr_def Let_def)
  moreover have "handle_adv_report r a ty d (?s2, v2\<lparr>w_rssi := rs\<rparr>) = Some (if (ba_addr_type (parse_addr a), a) \<in> set ks
      then ble_push (scan_report a ty r d) ?s2 else ?s2, v2\<lparr>w_rssi := rs\<rparr>)" if "bl_connect_target s \<noteq> Some a" for a ty d
    using assms(10,11) that l(2) by (auto simp: handle_adv_report_def ble_push_def Let_def)
  ultimately show ?thesis
    unfolding l(1) c(1) handle_scan_pdu_decoded [OF b assms(5) r rx]
    using assms(7,12) r c(2,3) by (cases pdu) (auto simp: ble_push_def)
qed

theorem accept_list_filter_witness:
  "\<exists>s' v' s'' v''. let s = example_ble\<lparr>bl_scan_params := scan_params_default\<lparr>sp_filter_policy := AcceptList\<rparr>\<rparr>;
       v = example_receiver [0, 0x0C, 0, 0, 0, 0, 0, 0] in
     scan_channel (accept_devices [(RandomPrivateNonResolvable, replicate 6 0)] s, v) = Some (s', v') \<and>
     bl_events s' = push_event (ring_new 8) (scan_report (replicate 6 0) PDU_ADV_IND 55 []) \<and>
     scan_channel (accept_devices [(Public, replicate 6 0)] s, v) = Some (s'', v'') \<and> bl_events s'' = ring_new 8"
proof -
  let ?s = "example_ble\<lparr>bl_scan_params := scan_params_default\<lparr>sp_filter_policy := AcceptList\<rparr>\<rparr>"
    and ?p = "[0, 0x0C, 0, 0, 0, 0, 0, 0]"
  have v: "scan_valid (scan_params_default\<lparr>sp_filter_policy := AcceptList\<rparr>)"
    by (simp add: scan_valid_def scan_params_default_def)
  have ok: "ble_ok ?s" using example_ble_ok(1) v by (rule ble_ok_set)
  have al: "al_ok (bl_accept_list example_ble)" using al.invar_empty by (simp add: example_ble_def ble_new_def)
  have s: "ble_ok ?s" "bl_scan_channel_idx ?s < 3" "hears 1 ?p (example_receiver ?p)"
    "2 \<le> length (w_now (example_receiver ?p))" "length ?p \<le> 65" "al_ok (bl_accept_list ?s)"
    "sp_filter_policy (bl_scan_params ?s) = AcceptList" "\<not> sp_active (bl_scan_params ?s)" "bl_connect_target ?s \<noteq> Some (replicate 6 0)"
    using ok al example_ble_ok(2,4) example_receiver_hears [of ?p] by (simp_all add: scan_params_default_def)
  have d: "adv_pdu_decode ?p = Inr (AdvInd (replicate 6 0) [])" by code_simp
  have e: "ba_addr_type (parse_addr (replicate 6 0)) = RandomPrivateNonResolvable" "hd (w_rssi (example_receiver ?p)) = 55"
    "bl_events ?s = ring_new 8"
    using example_ble_ok(5) by (simp_all add: parse_addr_def example_receiver_def)
  show ?thesis
    using accept_list_filter [OF s(1-4) d s(5) _ s(6) _ s(7,8), of "[(RandomPrivateNonResolvable, replicate 6 0)]"]
      accept_list_filter [OF s(1-4) d s(5) _ s(6) _ s(7,8), of "[(Public, replicate 6 0)]"] s(9)
    unfolding e Let_def by (auto simp: e(1) ACCEPT_LIST_MAX_def pdu_types)
qed

end
