(* ===== verification/Hci_Controller.thy ===== *)
theory Hci_Controller
  imports Hci_Framing Ble_Air
begin

text \<open>
  The controller of \<^verbatim>\<open>src/hci.rs\<close> over the framer and the stack: every command that comes out of
  the framer is answered, and the events of the stack are handed to the host.
\<close>


section \<open>Answers\<close>

text \<open>The Command Complete event with the returned parameters \<open>ps\<close>, and the Command Status event,
  both with status 0, for the opcode \<open>lo, hi\<close>, as the host receives them.\<close>

definition complete_view :: "u8 \<Rightarrow> u8 \<Rightarrow> bytes \<Rightarrow> u8 \<times> bytes" where
  "complete_view lo hi ps = (HCI_EVENT, [HCI_EVT_COMMAND_COMPLETE, of_nat (4 + length ps), 1, lo, hi, 0] @ ps)"

definition status_view :: "u8 \<Rightarrow> u8 \<Rightarrow> u8 \<times> bytes" where
  "status_view lo hi = (HCI_EVENT, [HCI_EVT_COMMAND_STATUS, 5, 0, 1, lo, hi, 0])"

lemma hci_event_total:
  "length d \<le> 258 \<Longrightarrow> \<exists>e. hci_event code d = Some e \<and> packet_view e = (HCI_EVENT, [code, of_nat (length d)] @ d)"
  using packet_of_view [of HCI_EVENT "[code, of_nat (length d)] @ d"] by (simp add: hci_event_def packet_of_def)

lemma command_complete_total:
  "length ps \<le> 8 \<Longrightarrow> \<exists>e. command_complete (lo, hi) 0 ps h = Some (hci_push e h) \<and> packet_view e = complete_view lo hi ps"
  using hci_event_total [of "[1, lo, hi, 0] @ ps" HCI_EVT_COMMAND_COMPLETE]
  by (auto simp: command_complete_def complete_view_def)

lemma command_status_total:
  "\<exists>e. command_status (lo, hi) 0 h = Some (hci_push e h) \<and> packet_view e = status_view lo hi"
  using hci_event_total [of "[0, 1, lo, hi, 0]" HCI_EVT_COMMAND_STATUS]
  by (auto simp: command_status_def status_view_def)

lemma gap_adv_start_total: "w_now w \<noteq> [] \<Longrightarrow> \<exists>r b' w'. gap_adv_start p (b, w) = Some (r, b', w')"
  by (simp add: gap_adv_start_def timer_now_total Let_def case_prod_beta)

lemma gap_scan_start_total: "w_now w \<noteq> [] \<Longrightarrow> \<exists>r b' w'. gap_scan_start p (b, w) = Some (r, b', w')"
  by (simp add: gap_scan_start_def timer_now_total Let_def case_prod_beta)

lemma gap_connect_total: "w_now w \<noteq> [] \<Longrightarrow> \<exists>r b' w'. gap_connect a t (b, w) = Some (r, b', w')"
  using gap_scan_start_total by (simp add: gap_connect_def Let_def)

text \<open>The commands that reach the stack.\<close>

definition stack_commands :: "u16 set" where
  "stack_commands = {OCF_LE_SET_ADV_DATA, OCF_LE_SET_ADV_ENABLE, OCF_LE_SET_SCAN_ENABLE, OCF_LE_CREATE_CONNECTION}"

text \<open>What every answered command has in common.\<close>

definition answered :: "u8 \<times> bytes \<Rightarrow> hci \<Rightarrow> hci \<Rightarrow> bool" where
  "answered view h h' \<longleftrightarrow> (\<exists>e. hc_events h' = push_event (hc_events h) e \<and> packet_view e = view)"

lemma complete_answers:
  assumes "hc_events h = hc_events h0"
  shows "\<exists>h'. command_complete (lo, hi) 0 [] h = Some h' \<and> answered (complete_view lo hi []) h0 h'"
  using command_complete_total [of "[]" lo hi h] assms by (auto simp: answered_def hci_push_def)

lemma le_command_answered:
  assumes "w_now w \<noteq> []"
  shows "\<exists>h' b' w'. le_command (lo, hi) ocf params (h, b, w) = Some (h', b', w') \<and>
    answered (if ocf = OCF_LE_CREATE_CONNECTION then status_view lo hi else complete_view lo hi []) h h' \<and>
    (ocf \<notin> stack_commands \<longrightarrow> b' = b \<and> w' = w)"
proof -
  note ocfs = OCF_LE_SET_ADV_DATA_def OCF_LE_SET_ADV_PARAMS_def OCF_LE_SET_ADV_ENABLE_def OCF_LE_SET_SCAN_PARAMS_def
    OCF_LE_SET_SCAN_ENABLE_def OCF_LE_CREATE_CONNECTION_def OCF_LE_SET_RANDOM_ADDRESS_def
  let ?enable = "case params of x # _ \<Rightarrow> x = 1 | [] \<Rightarrow> False"
  consider (data) "ocf = OCF_LE_SET_ADV_DATA" | (adv) "ocf = OCF_LE_SET_ADV_ENABLE" | (scan) "ocf = OCF_LE_SET_SCAN_ENABLE"
    | (create) "ocf = OCF_LE_CREATE_CONNECTION" | (rest) "ocf \<notin> stack_commands"
    by (auto simp: stack_commands_def)
  then show ?thesis
  proof cases
    case data
    have "\<exists>b'. (if length params \<ge> 32 then do {
        let n = min (unat (params ! 0)) 31;
        data \<leftarrow> slice params 1 (1 + n);
        Some (snd (gap_adv_set_configure data [] b)) } else Some b) = Some b'"
      by (simp add: Let_def)
    with data complete_answers [of h h lo hi] show ?thesis
      by (auto simp: le_command_def stack_commands_def ocfs Let_def)
  next
    case adv
    obtain r b1 w1 where "gap_adv_start adv_params_default (b, w) = Some (r, b1, w1)" using gap_adv_start_total [OF assms] by blast
    with adv complete_answers [of "h\<lparr>hc_adv_enabled := ?enable\<rparr>" h lo hi] show ?thesis
      by (cases ?enable) (auto simp: le_command_def stack_commands_def ocfs Let_def)
  next
    case scan
    obtain r b1 w1 where "gap_scan_start scan_params_default (b, w) = Some (r, b1, w1)" using gap_scan_start_total [OF assms] by blast
    with scan complete_answers [of "h\<lparr>hc_scan_enabled := ?enable\<rparr>" h lo hi] show ?thesis
      by (cases ?enable) (auto simp: le_command_def stack_commands_def ocfs Let_def)
  next
    case create
    obtain e where e: "command_status (lo, hi) 0 h = Some (hci_push e h)" "packet_view e = status_view lo hi"
      using command_status_total by blast
    obtain r b1 w1 where g: "gap_connect (take 6 (drop 14 params)) Public (b, w) = Some (r, b1, w1)"
      using gap_connect_total [OF assms] by blast
    have "le_command (lo, hi) ocf params (h, b, w) =
        Some (hci_push e h, if length params \<ge> 25 then b1 else b, if length params \<ge> 25 then w1 else w)"
      using create e(1) g by (simp add: le_command_def ocfs Let_def)
    with create e(2) show ?thesis by (auto simp: answered_def hci_push_def stack_commands_def)
  next
    case rest
    with complete_answers [of h h lo hi] complete_answers [of "h\<lparr>hc_own_addr := take 6 params\<rparr>" h lo hi] show ?thesis
      by (auto simp: le_command_def stack_commands_def Let_def)
  qed
qed

text \<open>The answer to the opcode \<open>lo, hi\<close>: a Command Status for LE Create Connection and a Command Complete for
  every other command, with return parameters for the three informational commands.\<close>

definition command_ocf :: "u8 \<Rightarrow> u8 \<Rightarrow> u16" where
  "command_ocf lo hi = of_le16 lo hi AND 0x03FF"

definition command_ogf :: "u8 \<Rightarrow> u8 \<Rightarrow> u8" where
  "command_ogf lo hi = ucast (drop_bit 10 (of_le16 lo hi) AND 0x3F)"

definition returned :: "u8 \<Rightarrow> u8 \<Rightarrow> hci \<Rightarrow> bytes" where
  "returned lo hi h =
    (if command_ogf lo hi = OGF_HOST \<and> command_ocf lo hi = OCF_READ_LOCAL_VERSION then [0x0C, 0, 0, 0, 0, 0, 0, 0]
     else if command_ogf lo hi = OGF_HOST \<and> command_ocf lo hi = OCF_READ_BD_ADDR then hc_own_addr h
     else if command_ogf lo hi = OGF_HOST \<and> command_ocf lo hi = OCF_READ_BUFFER_SIZE then [0, 0, 0, 0, 0, 0, 0, 0] else [])"

definition answer :: "u8 \<Rightarrow> u8 \<Rightarrow> hci \<Rightarrow> u8 \<times> bytes" where
  "answer lo hi h =
    (if command_ogf lo hi = OGF_LE \<and> command_ocf lo hi = OCF_LE_CREATE_CONNECTION then status_view lo hi
     else complete_view lo hi (returned lo hi h))"

definition reaches_stack :: "u8 \<Rightarrow> u8 \<Rightarrow> bool" where
  "reaches_stack lo hi \<longleftrightarrow> command_ogf lo hi = OGF_LE \<and> command_ocf lo hi \<in> stack_commands"

lemma handle_command_answered:
  assumes "packet_ok p" and "hp_packet_type p = HCI_COMMAND" and "w_now w \<noteq> []" and "length (hc_own_addr h) = 6"
  defines "lo \<equiv> hp_payload p ! 0" and "hi \<equiv> hp_payload p ! 1"
  shows "\<exists>h' b' w'. handle_command p (h, b, w) = Some (h', b', w') \<and> answered (answer lo hi h) h h' \<and>
    (\<not> reaches_stack lo hi \<longrightarrow> b' = b \<and> w' = w)"
proof -
  have len: "length (hp_payload p) = 260" "3 \<le> hp_len p" "hp_len p \<le> 260"
    using assms(1,2) by (auto simp: packet_ok_def frame_ok_def header_len_def)
  let ?params = "take (hp_len p - 3) (drop 3 (hp_payload p))"
  have dec: "get (hp_payload p) 0 = Some lo" "get (hp_payload p) 1 = Some hi" "slice (hp_payload p) 3 (hp_len p) = Some ?params"
    "ucast lo OR push_bit 8 (ucast hi) = of_le16 lo hi"
    using len by (simp_all add: lo_def hi_def of_le16_def)
  note ops = command_ocf_def [symmetric] command_ogf_def [symmetric]
  show ?thesis
  proof (cases "command_ogf lo hi = OGF_LE")
    case True
    have ne: "OGF_LE \<noteq> OGF_HOST" by (simp add: OGF_LE_def OGF_HOST_def)
    with True have "handle_command p (h, b, w) = le_command (lo, hi) (command_ocf lo hi) ?params (h, b, w)"
      unfolding handle_command_def prod.case dec bind.bind_lunit Let_def by (simp add: ops dec(4))
    moreover have "returned lo hi h = []" using True ne by (simp add: returned_def)
    ultimately show ?thesis
      using True le_command_answered [OF assms(3), of lo hi "command_ocf lo hi" ?params h b]
      by (cases "command_ocf lo hi = OCF_LE_CREATE_CONNECTION") (simp_all add: answer_def reaches_stack_def)
  next
    case False
    have "handle_command p (h, b, w) = do { h \<leftarrow> command_complete (lo, hi) 0 (returned lo hi h) h; Some (h, b, w) }"
      unfolding handle_command_def prod.case dec bind.bind_lunit Let_def
      using False by (auto simp: ops dec(4) returned_def)
    moreover have "length (returned lo hi h) \<le> 8" using assms(4) by (simp add: returned_def)
    ultimately show ?thesis
      using command_complete_total [of "returned lo hi h" lo hi h] False by (auto simp: answer_def answered_def hci_push_def)
  qed
qed

section \<open>Events\<close>

text \<open>The packet the host gets for an event of the stack; \<open>master\<close> is the role of the connection.\<close>

fun host_view :: "bool \<Rightarrow> ble_event \<Rightarrow> (u8 \<times> bytes) option" where
  "host_view master (ScanReport addr t ty r data n) =
     Some (HCI_EVENT, [HCI_EVT_LE_META, of_nat (12 + min n 27), HCI_LE_ADVERTISING_REPORT, 1, ty, if is_random t then 1 else 0] @
       addr @ [of_nat (min n 27)] @ take (min n 27) data @ [r])"
| "host_view master (Connected p) =
     Some (HCI_EVENT, [HCI_EVT_LE_META, 21, HCI_LE_CONNECTION_COMPLETE, 0, 0, 0, 0, if master then 1 else 0, 0] @
       replicate 6 0 @ le16 (cr_interval p) @ [0, 0] @ le16 (cr_timeout p) @ [0, 0])"
| "host_view master (Disconnected reason) = Some (HCI_EVENT, [HCI_EVT_DISCONNECTION_COMPLETE, 4, 0, 0, 0, reason_code reason])"
| "host_view master _ = None"

fun link_open :: "bool \<Rightarrow> ble_event \<Rightarrow> bool" where
  "link_open u (Connected p) = True"
| "link_open u (Disconnected reason) = False"
| "link_open u _ = u"

lemma forward_event_total:
  assumes "event_typed evt"
  shows "\<exists>h' es. forward_event evt (h, b) = Some h' \<and> hc_events h' = foldl push_event (hc_events h) es \<and>
    map packet_view es = (case host_view (conn_is_master b) evt of None \<Rightarrow> [] | Some v \<Rightarrow> [v]) \<and>
    hc_connection_open h' = link_open (hc_connection_open h) evt"
proof (cases evt)
  case (ScanReport addr t ty r data n)
  let ?d = "[HCI_LE_ADVERTISING_REPORT, 1, ty, if is_random t then 1 else 0] @ addr @ [of_nat (min n 27)] @ take (min n 27) data @ [r]"
  have l: "length ?d = 12 + min n 27" "slice data 0 (min n 27) = Some (take (min n 27) data)"
    using assms ScanReport by auto
  have "min n 27 \<le> 27" by simp
  then have "length ?d \<le> 258" unfolding l(1) by linarith
  then obtain e where "hci_event HCI_EVT_LE_META ?d = Some e" "packet_view e = (HCI_EVENT, [HCI_EVT_LE_META, of_nat (12 + min n 27)] @ ?d)"
    using hci_event_total [of ?d HCI_EVT_LE_META] unfolding l(1) by blast
  with ScanReport l(2) show ?thesis by (auto simp: hci_push_def Let_def intro!: exI [of _ "[e]"])
next
  case (Connected p)
  let ?d = "[HCI_LE_CONNECTION_COMPLETE, 0] @ [0, 0, 0, if conn_is_master b then 1 else 0, 0] @ replicate 6 0 @
             le16 (cr_interval p) @ [0, 0] @ le16 (cr_timeout p) @ [0, 0]"
  have "length ?d = 21" by (simp add: le16_def)
  then obtain e where "hci_event HCI_EVT_LE_META ?d = Some e" "packet_view e = (HCI_EVENT, [HCI_EVT_LE_META, 21] @ ?d)"
    using hci_event_total [of ?d HCI_EVT_LE_META] by auto
  with Connected show ?thesis by (auto simp: hci_push_def Let_def intro!: exI [of _ "[e]"])
next
  case (Disconnected reason)
  obtain e where "hci_event HCI_EVT_DISCONNECTION_COMPLETE [0, 0, 0, reason_code reason] = Some e"
      "packet_view e = (HCI_EVENT, [HCI_EVT_DISCONNECTION_COMPLETE, 4, 0, 0, 0, reason_code reason])"
    using hci_event_total [of "[0, 0, 0, reason_code reason]" HCI_EVT_DISCONNECTION_COMPLETE] by auto
  with Disconnected show ?thesis by (auto simp: hci_push_def intro!: exI [of _ "[e]"])
qed (auto intro!: exI [of _ "[]"])

lemma hci_tick_drain:
  assumes "events_ok (bl_events b)" and "full_slots (bl_events b) \<le> n"
  shows "\<exists>h' es. hci_tick h b = Some (h', b\<lparr>bl_events := snd (drain n (bl_events b))\<rparr>) \<and>
    hc_events h' = foldl push_event (hc_events h) es \<and>
    map packet_view es = List.map_filter (host_view (conn_is_master b)) (fst (drain n (bl_events b))) \<and>
    hc_connection_open h' = foldl link_open (hc_connection_open h) (fst (drain n (bl_events b))) \<and>
    fst (next_event (snd (drain n (bl_events b)))) = None"
  using assms
proof (induction n arbitrary: h b)
  case (0 h b)
  have t: "rg_tail (bl_events b) < length (rg_slots (bl_events b))" using "0.prems"(1) by (simp add: events_ok_def ring_wf_def)
  have "filter (\<lambda>x. x \<noteq> None) (rg_slots (bl_events b)) = []" using "0.prems"(2) unfolding full_slots_def by simp
  then have "slot (bl_events b) 0 = None"
    using t nth_mem [OF t] by (auto simp: filter_empty_conv slot_def)
  then have "next_event (bl_events b) = (None, bl_events b)" using "0.prems"(1) pop_empty by (auto simp: events_ok_def)
  then show ?case using t
    by (subst hci_tick.simps) (auto simp: ble_next_event_def List.map_filter_def intro!: exI [of _ "[]"])
next
  case (Suc n h b)
  have t: "rg_tail (bl_events b) < length (rg_slots (bl_events b))" using Suc.prems(1) by (simp add: events_ok_def ring_wf_def)
  obtain r q where q: "next_event (bl_events b) = (r, q)" by force
  show ?case
  proof (cases r)
    case None
    then have "slot (bl_events b) 0 = None" using q t by (simp add: next_event_def slot_def Let_def)
    then have "q = bl_events b" using q Suc.prems(1) pop_empty [of 8 "bl_events b"] by (auto simp: events_ok_def)
    with None q t show ?thesis
      by (subst hci_tick.simps) (auto simp: ble_next_event_def List.map_filter_def intro!: exI [of _ "[]"])
  next
    case (Some evt)
    let ?b = "b\<lparr>bl_events := q\<rparr>"
    have "Some evt \<in> set (rg_slots (bl_events b))" using q Some t nth_mem [OF t] by (auto simp: next_event_def Let_def)
    then have typed: "event_typed evt" using Suc.prems(1) by (auto simp: events_ok_def)
    have m: "conn_is_master ?b = conn_is_master b" "bl_events ?b = q" by (simp_all add: conn_is_master_def)
    obtain h1 es1 where f: "forward_event evt (h, ?b) = Some h1" "hc_events h1 = foldl push_event (hc_events h) es1"
        "map packet_view es1 = (case host_view (conn_is_master b) evt of None \<Rightarrow> [] | Some v \<Rightarrow> [v])"
        "hc_connection_open h1 = link_open (hc_connection_open h) evt"
      using forward_event_total [OF typed, of h ?b] unfolding m by blast
    have "events_ok q" using events_ok_pop [OF Suc.prems(1)] q by simp
    moreover have "full_slots q \<le> n" using next_event_empties [of "bl_events b" evt q] q Some t Suc.prems(2) by simp
    ultimately obtain h' es where "hci_tick h1 ?b = Some (h', ?b\<lparr>bl_events := snd (drain n q)\<rparr>)"
        "hc_events h' = foldl push_event (hc_events h1) es"
        "map packet_view es = List.map_filter (host_view (conn_is_master b)) (fst (drain n q))"
        "hc_connection_open h' = foldl link_open (hc_connection_open h1) (fst (drain n q))"
        "fst (next_event (snd (drain n q))) = None"
      using Suc.IH [of ?b h1] unfolding m by blast
    then have r: "hci_tick h1 ?b = Some (h', b\<lparr>bl_events := snd (drain (Suc n) (bl_events b))\<rparr>)"
        "hc_events h' = foldl push_event (hc_events h) (es1 @ es)"
        "map packet_view (es1 @ es) = List.map_filter (host_view (conn_is_master b)) (fst (drain (Suc n) (bl_events b)))"
        "hc_connection_open h' = foldl link_open (hc_connection_open h) (fst (drain (Suc n) (bl_events b)))"
        "fst (next_event (snd (drain (Suc n) (bl_events b)))) = None"
      using f q Some by (simp_all add: case_prod_beta List.map_filter_simps split: option.splits)
    have "hci_tick h b = hci_tick h1 ?b"
      using q Some t f(1) by (subst hci_tick.simps) (simp add: ble_next_event_def)
    with r show ?thesis by metis
  qed
qed

section \<open>Properties\<close>

lemma drain_bound: "length (fst (drain k s)) \<le> k"
  by (induction k arbitrary: s) (simp_all add: case_prod_beta split: option.splits prod.splits)

text \<open>C12. The controller answers every command: for any bytes the transport delivers, each command
  packet the framer cuts out of them is handled without a panic and puts exactly one event in the
  ring for the host, the Command Status for LE Create Connection and the Command Complete with the
  opcode of the command and its return parameters for every other opcode, known or not, both with
  status 0. Only the four commands that set the advertising data, advertising, scanning and the
  connection reach the link layer; all others leave the stack and the hardware unchanged. Other
  packets are ignored.\<close>

theorem hci_commands_answered:
  assumes "run_h4 xs h4_new = Some (ps, f)" and "p \<in> set ps" and "w_now w \<noteq> []" and "length (hc_own_addr h) = 6"
  defines "lo \<equiv> hp_payload p ! 0" and "hi \<equiv> hp_payload p ! 1"
  shows "\<exists>h' b' w'. on_packet p (h, b, w) = Some (h', b', w') \<and>
    (if hp_packet_type p = HCI_COMMAND
     then (\<exists>e. hc_events h' = push_event (hc_events h) e \<and> packet_view e =
            (if command_ogf lo hi = OGF_LE \<and> command_ocf lo hi = OCF_LE_CREATE_CONNECTION then status_view lo hi
             else complete_view lo hi (returned lo hi h))) \<and>
          (b' \<noteq> b \<or> w' \<noteq> w \<longrightarrow> command_ogf lo hi = OGF_LE \<and> command_ocf lo hi \<in>
             {OCF_LE_SET_ADV_DATA, OCF_LE_SET_ADV_ENABLE, OCF_LE_SET_SCAN_ENABLE, OCF_LE_CREATE_CONNECTION})
     else h' = h \<and> b' = b \<and> w' = w)"
proof (cases "hp_packet_type p = HCI_COMMAND")
  case True
  have "packet_ok p" using run_h4_ok [OF assms(1) h4_new_ok] assms(2) by blast
  with True obtain h' b' w' where "handle_command p (h, b, w) = Some (h', b', w')" "answered (answer lo hi h) h h'"
      "\<not> reaches_stack lo hi \<longrightarrow> b' = b \<and> w' = w"
    using handle_command_answered assms(3,4) unfolding lo_def hi_def by blast
  with True show ?thesis
    by (auto simp: on_packet_def answered_def answer_def reaches_stack_def stack_commands_def)
next
  case False
  then show ?thesis by (simp add: on_packet_def)
qed

text \<open>The host asks for the address of the device, in the group 3 that the source names: a new controller
  answers with six zero bytes.\<close>

theorem hci_commands_answered_witness:
  "\<exists>p f h' e. run_h4 [1, 9, 0x0C, 0] h4_new = Some ([p], f) \<and>
     on_packet p (hci_new, example_ble, example_world [0] []) = Some (h', example_ble, example_world [0] []) \<and>
     hc_events h' = push_event (hc_events hci_new) e \<and> packet_view e = (4, [0x0E, 10, 1, 9, 0x0C, 0, 0, 0, 0, 0, 0, 0])"
proof -
  have "map_option (\<lambda>(ps, f). map (\<lambda>p. (hp_packet_type p, hp_payload p ! 0, hp_payload p ! 1)) ps) (run_h4 [1, 9, 0x0C, 0] h4_new) =
      Some [(1, 9, 0x0C)]" by code_simp
  then obtain p f where p: "run_h4 [1, 9, 0x0C, 0] h4_new = Some ([p], f)" "hp_packet_type p = 1" "hp_payload p ! 0 = 9"
      "hp_payload p ! 1 = 0x0C" by auto
  have op: "command_ogf 9 0x0C = OGF_HOST" "command_ocf 9 0x0C = OCF_READ_BD_ADDR" "OGF_HOST \<noteq> OGF_LE"
    "OCF_READ_BD_ADDR \<noteq> OCF_READ_LOCAL_VERSION" by code_simp+
  then have ret: "returned 9 0x0C hci_new = replicate 6 0" by (simp add: returned_def hci_new_def)
  let ?w = "example_world [0] []"
  have hw: "w_now ?w \<noteq> []" "length (hc_own_addr hci_new) = 6" "p \<in> set [p]" by (simp_all add: example_world_def hci_new_def)
  have cmd: "hp_packet_type p = HCI_COMMAND" using p(2) by (simp add: hci_types)
  from hci_commands_answered [OF p(1) hw(3,1,2), of example_ble, unfolded p(3,4) ret] obtain h' b' w' e where
      "on_packet p (hci_new, example_ble, ?w) = Some (h', b', w')" "hc_events h' = push_event (hc_events hci_new) e"
      "packet_view e = complete_view 9 0x0C (replicate 6 0)" "b' = example_ble" "w' = ?w"
    using cmd op by (auto simp del: hci_types)
  with p(1) show ?thesis
    by (auto simp: complete_view_def HCI_EVT_COMMAND_COMPLETE_def hci_types numeral_eq_Suc)
qed

text \<open>C13. Forwarding events to the host always ends: \<open>Hci::tick\<close> on a well-formed stack takes the
  events out of the stack's ring in order until it is empty, at most the eight the ring holds, and
  does nothing else to the stack. The host's ring gets one packet for each scan report, connection
  and disconnection, in the same order, and nothing for the other events; the connection flag ends
  as the last of these connections and disconnections left it.\<close>

theorem hci_tick_forwards:
  assumes "ble_ok b"
  defines "evts \<equiv> fst (drain 8 (bl_events b))"
  shows "\<exists>h' es. hci_tick h b = Some (h', b\<lparr>bl_events := snd (drain 8 (bl_events b))\<rparr>) \<and>
    fst (next_event (snd (drain 8 (bl_events b)))) = None \<and> length evts \<le> 8 \<and>
    hc_events h' = foldl push_event (hc_events h) es \<and>
    map packet_view es = List.map_filter (host_view (conn_is_master b)) evts \<and>
    hc_connection_open h' = foldl link_open (hc_connection_open h) evts"
proof -
  have ev: "events_ok (bl_events b)" using assms(1) by (simp add: ble_ok_def)
  then have "full_slots (bl_events b) \<le> 8"
    unfolding full_slots_def events_ok_def ring_wf_def by (metis length_filter_le)
  from hci_tick_drain [OF ev this, of h] show ?thesis unfolding evts_def using drain_bound by blast
qed

theorem hci_tick_forwards_witness:
  "\<exists>h' b' e. hci_tick hci_new (ble_push (Disconnected HostTerminate) example_ble) = Some (h', b') \<and>
     fst (next_event (bl_events b')) = None \<and> hc_events h' = push_event (hc_events hci_new) e \<and>
     packet_view e = (4, [5, 4, 0, 0, 0, 1]) \<and> \<not> hc_connection_open h'"
proof -
  let ?b = "ble_push (Disconnected HostTerminate) example_ble"
  have ok: "ble_ok ?b" using example_ble_ok(1) by simp
  have d: "fst (drain 8 (bl_events ?b)) = [Disconnected HostTerminate]"
    using example_ble_ok(5) by (simp add: ble_push_def) code_simp
  from hci_tick_forwards [OF ok, of hci_new, unfolded d] show ?thesis
    by (auto simp: hci_types HCI_EVT_DISCONNECTION_COMPLETE_def)
qed

end
