(* ===== verification/Ble_Gatt.thy ===== *)
theory Ble_Gatt
  imports Ble_Conn
begin

text \<open>
  The GATT client of \<^verbatim>\<open>src/hw/ble.rs\<close> against the ATT server of \<^verbatim>\<open>src/hw/conn.rs\<close>: the packets of a
  request go from the client's fragmenter to the server's reassembly and \<open>handle_att\<close>, and those
  of its response come back the same way to \<open>gatt_poll\<close>. The radio between the two is left out.
\<close>

section \<open>A message across the link\<close>

text \<open>A connection with nothing to send on the ATT channel, and a payload size its buffer holds.\<close>

definition link_idle :: "conn \<Rightarrow> bool" where
  "link_idle c \<longleftrightarrow> conn_ok c \<and> \<not> cn_tx_pending c \<and> cn_tx_frag_offset c = 0 \<and> cn_tx_cid c = L2CAP_ATT_CID \<and>
     5 \<le> cn_tx_pdu_max c \<and> cn_tx_pdu_max c \<le> 62"

lemma tx_fragment_frame:
  assumes "tx_fragment c = Some (n, c')" and "cn_tx_pending c"
  shows "\<exists>buf k p. c' = c\<lparr>cn_tx_buf := buf, cn_tx_frag_offset := k, cn_tx_pending := p\<rparr> \<and> (p \<or> k = 0)"
proof -
  define fin where "fin c1 = (if cn_tx_frag_offset c1 \<ge> cn_tx_att_len c then c1\<lparr>cn_tx_pending := False, cn_tx_frag_offset := 0\<rparr> else c1)"
    for c1 :: conn
  have "\<exists>buf k. fin (c\<lparr>cn_tx_buf := buf, cn_tx_frag_offset := k\<rparr>) = c'"
    using assms(1) unfolding tx_fragment_def Let_def bind_eq_Some_conv option.inject prod.inject fin_def by blast
  then obtain buf k where c': "c' = fin (c\<lparr>cn_tx_buf := buf, cn_tx_frag_offset := k\<rparr>)" by metis
  show ?thesis
    by (rule exI [of _ buf], rule exI [of _ "if k \<ge> cn_tx_att_len c then 0 else k"], rule exI [of _ "k < cn_tx_att_len c"])
      (use assms(2) in \<open>simp add: c' fin_def\<close>)
qed

lemma send_all_frame:
  assumes "send_all fuel c = Some (fs, c')" and "cn_tx_pending c \<or> cn_tx_frag_offset c = 0"
  shows "\<exists>buf. c' = c\<lparr>cn_tx_buf := buf, cn_tx_frag_offset := 0, cn_tx_pending := False\<rparr>"
  using assms
proof (induction fuel arbitrary: c fs)
  case 0
  then show ?case by (auto split: if_splits intro!: exI [of _ "cn_tx_buf c"])
next
  case (Suc fuel c fs)
  show ?case
  proof (cases "cn_tx_pending c")
    case True
    with Suc.prems obtain n c1 gs where t: "tx_fragment c = Some (n, c1)" "send_all fuel c1 = Some (gs, c')"
      by (auto simp: bind_eq_Some_conv)
    obtain buf k p where c1: "c1 = c\<lparr>cn_tx_buf := buf, cn_tx_frag_offset := k, cn_tx_pending := p\<rparr>" "p \<or> k = 0"
      using tx_fragment_frame [OF t(1) True] by blast
    then obtain buf' where "c' = c1\<lparr>cn_tx_buf := buf', cn_tx_frag_offset := 0, cn_tx_pending := False\<rparr>"
      using Suc.IH [OF t(2)] by auto
    with c1(1) show ?thesis by auto
  next
    case False
    with Suc.prems show ?thesis by (auto intro!: exI [of _ "cn_tx_buf c"])
  qed
qed

lemma send_message:
  assumes "link_idle c" and "conn_ok peer" and "length m \<le> 251"
  shows "\<exists>ps tx rx. send_packets 252 (queue_att m c) =
      Some (ps, c\<lparr>cn_tx_att := set_prefix (cn_tx_att c) m, cn_tx_att_len := length m, cn_tx_buf := tx\<rparr>) \<and>
    length tx = 64 \<and> length rx = 256 \<and> feed_packets cx ps (peer, ev) = deliver rx m peer ev"
proof -
  have len: "length (cn_tx_att c) = 251" using assms(1) by (simp add: link_idle_def conn_ok_def)
  have q: "queue_att m c = c\<lparr>cn_tx_att := set_prefix (cn_tx_att c) m, cn_tx_att_len := length m, cn_tx_pending := True\<rparr>"
    using assms(3) len by (simp add: queue_att_def Let_def)
  let ?c = "queue_att m c"
  have "queued ?c = m" unfolding queued_def by (rule queue_att_message) (use assms(3) len in simp)
  moreover have c: "conn_ok ?c" "cn_tx_pending ?c" "cn_tx_frag_offset ?c = 0" "5 \<le> cn_tx_pdu_max ?c"
      "cn_tx_pdu_max ?c \<le> 62 \<or> cn_tx_att_len ?c \<le> 58" "cn_tx_att_len ?c < 252" "cn_tx_cid ?c = L2CAP_ATT_CID"
    using assms(1,3) by (simp_all add: link_idle_def) (simp_all add: q)
  ultimately obtain c' where s: "send_all 252 ?c = Some (fragments_of (cn_tx_pdu_max ?c) L2CAP_ATT_CID m, c')" "conn_ok c'"
    using send_all_fragments [OF c(1-6)] by auto
  then obtain tx where c': "c' = ?c\<lparr>cn_tx_buf := tx, cn_tx_frag_offset := 0, cn_tx_pending := False\<rparr>"
    using send_all_frame c(2) by blast
  with s(2) have "length tx = 64" by (simp add: conn_ok_def)
  moreover have "c' = c\<lparr>cn_tx_att := set_prefix (cn_tx_att c) m, cn_tx_att_len := length m, cn_tx_buf := tx\<rparr>"
    using c' q assms(1) by (simp add: link_idle_def)
  moreover have "length (cn_tx_buf ?c) = 64" using c(1) by (rule conn_ok_lengths)
  ultimately show ?thesis
    using send_packets_decoded [OF s(1), of cx] feed_fragments [OF assms(2,3) c(4), of cx ev] by metis
qed

section \<open>Transactions\<close>

text \<open>The client's packets are handed to the server, the server handles them and queues its answer,
  and the packets of the answer are handed to the client; 252 rounds are enough for the 251
  bytes of the queue. Each packet is the content of the sender's transmit buffer, read by the
  receiver with \<open>data_pdu_decode\<close>; the connection events and the radio between them are left out.\<close>

definition transact :: "crypto \<Rightarrow> conn \<Rightarrow> conn \<Rightarrow> (conn \<times> conn \<times> conn_event) option" where
  "transact cx c s = do {
     (ps, c) \<leftarrow> send_packets 252 c;
     (s, ev) \<leftarrow> feed_packets cx ps (s, EvIdle);
     (qs, s) \<leftarrow> send_packets 252 s;
     (c, _) \<leftarrow> feed_packets cx qs (c, EvIdle);
     Some (c, s, ev)
   }"

text \<open>What a request leaves at the server: the configuration of the notifications, the bytes
  received for the application and the event.\<close>

definition nus_view :: "conn \<times> conn_event \<Rightarrow> u8 \<times> bytes \<times> conn_event" where
  "nus_view = (\<lambda>(s, ev). (cn_nus_cccd s, take (cn_rx_data_len s) (cn_rx_data s), ev))"

definition after_request :: "bytes \<Rightarrow> conn \<times> conn_event \<Rightarrow> conn \<times> conn_event" where
  "after_request att ce = (if att ! 0 = 0x12 then snd (gatt_write (of_le16 (att ! 1) (att ! 2)) (drop 3 att) ce) else ce)"

lemma after_request_frame:
  "after_request att (s\<lparr>cn_rx_l2cap := rx, cn_rx_l2cap_len := n, cn_rx_l2cap_msg_len := k, cn_rx_l2cap_cid := cid\<rparr>, ev) =
    map_prod (\<lambda>s. s\<lparr>cn_rx_l2cap := rx, cn_rx_l2cap_len := n, cn_rx_l2cap_msg_len := k, cn_rx_l2cap_cid := cid\<rparr>) id (after_request att (s, ev))"
  by (simp add: after_request_def gatt_write_def Let_def)

lemma after_request_idle: "link_idle s \<Longrightarrow> link_idle (fst (after_request att (s, ev)))"
  by (auto simp: after_request_def gatt_write_def Let_def link_idle_def conn_ok_def)

lemma att_answer_cong:
  assumes "gatt_read c = gatt_read c'" and "cn_att_mtu c = cn_att_mtu c'"
  shows "att_answer c att = att_answer c' att"
  by (simp only: att_answer_def assms)

lemma server_answers:
  assumes "link_idle s" and "att_need (att ! 0) \<le> length att" and "att ! 0 \<in> {0x08, 0x0A, 0x10, 0x12}" and "length rx = 256"
    and "length att \<le> 251" and "att_answer s att = Some rsp"
  shows "\<exists>s' ev'. deliver rx att s ev = Some (queue_att rsp s', ev') \<and> link_idle s' \<and>
    nus_view (s', ev') = nus_view (after_request att (s, ev))"
proof -
  let ?rx = "\<lambda>s. s\<lparr>cn_rx_l2cap := rx, cn_rx_l2cap_len := length att, cn_rx_l2cap_msg_len := length att, cn_rx_l2cap_cid := L2CAP_ATT_CID\<rparr>"
  let ?s' = "(?rx (fst (after_request att (s, ev))))\<lparr>cn_rx_l2cap_len := 0\<rparr>"
  have ne: "att \<noteq> []" "\<not> is_response (att ! 0)" "att ! 0 \<noteq> 0x1B" "att ! 0 \<noteq> 0x52"
    using assms(2,3) by (auto simp: att_need_def is_response_def)
  have "gatt_read (?rx s) = gatt_read s" by (simp add: fun_eq_iff gatt_read_def)
  then have "att_answer (?rx s) att = Some rsp" using assms(6) att_answer_cong [of "?rx s" s att] by simp
  then have "handle_att att (?rx s, ev) = Some (map_prod (queue_att rsp) id (after_request att (?rx s, ev)))"
    using handle_att_request [OF ne(1) _ assms(2), of "?rx s" ev] ne(2-4)
    by (auto simp: after_request_def split: prod.splits)
  then have "deliver rx att s ev = Some (queue_att rsp ?s', snd (after_request att (s, ev)))"
    by (simp add: deliver_def after_request_frame map_prod_def case_prod_beta queue_att_def Let_def)
  moreover have "link_idle ?s'"
    using after_request_idle [OF assms(1), of att ev] assms(4) by (simp add: link_idle_def conn_ok_def)
  moreover have "nus_view (?s', snd (after_request att (s, ev))) = nus_view (after_request att (s, ev))"
    by (simp add: nus_view_def case_prod_beta)
  ultimately show ?thesis by blast
qed

lemma client_takes:
  assumes "link_idle c" and "cn_pending_request c" and "is_response (rsp ! 0)" and "rsp \<noteq> []" and "length rsp \<le> 64"
    and "length rx = 256" and "rsp ! 0 \<noteq> 0x03"
  shows "\<exists>c'. deliver rx rsp c ev = Some (c', ev) \<and> link_idle c' \<and> \<not> cn_pending_request c' \<and>
    take (cn_gatt_result_len c') (cn_gatt_result c') = rsp \<and> cn_gatt_result_len c' = length rsp"
proof -
  have len: "length (cn_gatt_result c) = 64" using assms(1) by (simp add: link_idle_def conn_ok_def)
  let ?c = "c\<lparr>cn_rx_l2cap := rx, cn_rx_l2cap_len := 0, cn_rx_l2cap_msg_len := length rsp, cn_rx_l2cap_cid := L2CAP_ATT_CID,
    cn_pending_request := False, cn_gatt_result := set_prefix (cn_gatt_result c) rsp, cn_gatt_result_len := length rsp\<rparr>"
  have "deliver rx rsp c ev = Some (?c, ev)"
    using assms(2-5,7) len by (simp add: deliver_def handle_att_def Let_def)
  moreover have "link_idle ?c" using assms(1,5,6) len by (simp add: link_idle_def conn_ok_def)
  ultimately show ?thesis using len assms(5) by auto
qed

lemma transact_request:
  assumes "link_idle c" and "link_idle s" and "att ! 0 \<in> {0x08, 0x0A, 0x10, 0x12}" and "att_need (att ! 0) \<le> length att"
    and "length att \<le> 251" and "att_answer s att = Some rsp"
  shows "\<exists>c' s' ev. transact cx (gatt_send_request att c) s = Some (c', s', ev) \<and> link_idle c' \<and> link_idle s' \<and>
    nus_view (s', ev) = nus_view (after_request att (s, EvIdle)) \<and>
    take (cn_gatt_result_len c') (cn_gatt_result c') = rsp \<and> 0 < cn_gatt_result_len c'"
proof -
  let ?c = "c\<lparr>cn_pending_request := True\<rparr>"
  have c: "link_idle ?c" "gatt_send_request att c = queue_att att ?c" and ok: "conn_ok s"
    using assms(1,2) by (simp_all add: link_idle_def conn_ok_def gatt_send_request_def queue_att_def Let_def)
  obtain rsp' where r: "att_answer s att = Some rsp'" "0 < length rsp'" "length rsp' \<le> 64"
      "rsp' ! 0 = att ! 0 + 1 \<or> length rsp' = 5 \<and> rsp' ! 0 = 0x01 \<and> rsp' ! 1 = att ! 0"
    using att_answer_total by blast
  with assms(3,6) have rsp: "rsp \<noteq> []" "length rsp \<le> 64" "length rsp \<le> 251" "is_response (rsp ! 0)" "rsp ! 0 \<noteq> 0x03"
    by (auto simp: is_response_def)
  obtain fs tx rx where f: "send_packets 252 (queue_att att ?c) =
      Some (fs, ?c\<lparr>cn_tx_att := set_prefix (cn_tx_att ?c) att, cn_tx_att_len := length att, cn_tx_buf := tx\<rparr>)"
      "length tx = 64" "length rx = 256" "feed_packets cx fs (s, EvIdle) = deliver rx att s EvIdle"
    using send_message [OF c(1) ok assms(5)] by blast
  let ?c1 = "?c\<lparr>cn_tx_att := set_prefix (cn_tx_att ?c) att, cn_tx_att_len := length att, cn_tx_buf := tx\<rparr>"
  have c1: "link_idle ?c1" "conn_ok ?c1" "cn_pending_request ?c1" using c(1) f(2) assms(5) by (simp_all add: link_idle_def conn_ok_def)
  obtain s1 ev where s1: "deliver rx att s EvIdle = Some (queue_att rsp s1, ev)" "link_idle s1"
      "nus_view (s1, ev) = nus_view (after_request att (s, EvIdle))"
    using server_answers [OF assms(2,4,3) f(3) assms(5,6)] by blast
  obtain gs tx' rx' where g: "send_packets 252 (queue_att rsp s1) =
      Some (gs, s1\<lparr>cn_tx_att := set_prefix (cn_tx_att s1) rsp, cn_tx_att_len := length rsp, cn_tx_buf := tx'\<rparr>)"
      "length tx' = 64" "length rx' = 256" "feed_packets cx gs (?c1, EvIdle) = deliver rx' rsp ?c1 EvIdle"
    using send_message [OF s1(2) c1(2) rsp(3)] by blast
  let ?s2 = "s1\<lparr>cn_tx_att := set_prefix (cn_tx_att s1) rsp, cn_tx_att_len := length rsp, cn_tx_buf := tx'\<rparr>"
  have s2: "link_idle ?s2" "nus_view (?s2, ev) = nus_view (s1, ev)"
    using s1(2) g(2) rsp(3) by (simp_all add: link_idle_def conn_ok_def nus_view_def)
  obtain c' where c': "deliver rx' rsp ?c1 EvIdle = Some (c', EvIdle)" "link_idle c'"
      "take (cn_gatt_result_len c') (cn_gatt_result c') = rsp" "cn_gatt_result_len c' = length rsp"
    using client_takes [OF c1(1,3) rsp(4,1,2) g(3) rsp(5), of EvIdle] by blast
  have "transact cx (gatt_send_request att c) s = Some (c', ?s2, ev)"
    by (simp only: transact_def c(2) f(1,4) s1(1) g(1,4) c'(1) bind.bind_lunit prod.case)
  with c' s1(3) s2 rsp(1) show ?thesis by auto
qed

section \<open>Properties\<close>

text \<open>The calls of the GATT client, and the response that the server's table promises for each:
  the transmit characteristic reads as empty, its configuration descriptor as two bytes, the
  receive characteristic and the descriptor can be written, and everything else is refused.
  \<open>written\<close> is what a call leaves at the server.\<close>

datatype gatt_call = CallRead u16 | CallWrite u16 bytes | CallSubscribe u16 | CallServices | CallCharacteristics u16 u16

fun gatt_request :: "gatt_call \<Rightarrow> ble \<Rightarrow> (error + unit) \<times> ble" where
  "gatt_request (CallRead h) = gatt_client_read h"
| "gatt_request (CallWrite h data) = gatt_client_write h data"
| "gatt_request (CallSubscribe h) = gatt_subscribe h"
| "gatt_request CallServices = gatt_discover_primary_services"
| "gatt_request (CallCharacteristics a z) = gatt_discover_characteristics a z"

definition write_response :: "u16 \<Rightarrow> bytes" where
  "write_response h = (if h \<in> {HANDLE_RX_VALUE, HANDLE_TX_CCCD} then [0x13] else [0x01, 0x12, 0, 0, 0x12])"

fun promised :: "conn \<Rightarrow> gatt_call \<Rightarrow> bytes option" where
  "promised s (CallRead h) =
     Some (if h = HANDLE_TX_VALUE then [0x0B] else if h = HANDLE_TX_CCCD then [0x0B, cn_nus_cccd s, 0] else [0x01, 0x0A, 0, 0, 0x0A])"
| "promised s (CallWrite h data) = Some (write_response h)"
| "promised s (CallSubscribe h) = Some (write_response h)"
| "promised s CallServices =
     Some [0x11, 18, 1, 0, 0x9E, 0xCA, 0xDC, 0x24, 0x0E, 0xE5, 0xA9, 0xE0, 0x93, 0xF3, 0xA3, 0xB5, 1, 0, 0x40, 0x6E]"
| "promised s (CallCharacteristics a z) = read_by_type_rsp a z 0x2803"

fun written :: "gatt_call \<Rightarrow> u8 \<times> bytes \<times> conn_event \<Rightarrow> u8 \<times> bytes \<times> conn_event" where
  "written (CallWrite h data) (cccd, rx, ev) =
     (if h = HANDLE_RX_VALUE then (cccd, take 20 data, EvData)
      else if h = HANDLE_TX_CCCD then (if 2 \<le> length data then data ! 0 AND 1 else 0, rx, ev) else (cccd, rx, ev))"
| "written (CallSubscribe h) (cccd, rx, ev) =
     (if h = HANDLE_RX_VALUE then (cccd, [1, 0], EvData) else if h = HANDLE_TX_CCCD then (1, rx, ev) else (cccd, rx, ev))"
| "written call v = v"

fun call_bytes :: "gatt_call \<Rightarrow> bytes" where
  "call_bytes (CallRead h) = [0x0A] @ le16 h"
| "call_bytes (CallWrite h data) = [0x12] @ le16 h @ take 20 data"
| "call_bytes (CallSubscribe h) = [0x12] @ le16 h @ [1, 0]"
| "call_bytes CallServices = [0x10] @ le16 0x2800 @ le16 1 @ le16 0xFFFF"
| "call_bytes (CallCharacteristics a z) = [0x08] @ le16 0x2803 @ le16 a @ le16 z"

lemma gatt_request_queues:
  "bl_conn b = Some c \<Longrightarrow> gatt_request call b = (Inr (), b\<lparr>bl_conn := Some (gatt_send_request (call_bytes call) c)\<rparr>)"
  by (cases call) (simp_all add: gatt_client_read_def gatt_client_write_def gatt_subscribe_def gatt_discover_primary_services_def
      gatt_discover_characteristics_def with_conn_def Let_def min_def le16_def)

lemma call_bytes_wf:
  "call_bytes call ! 0 \<in> {0x08, 0x0A, 0x10, 0x12}" "att_need (call_bytes call ! 0) \<le> length (call_bytes call)"
  "length (call_bytes call) \<le> 251"
  by (cases call; simp add: att_need_def le16_def)+

lemma call_answered: "att_answer s (call_bytes call) = promised s call"
proof -
  have "of_le16 1 0 = 1" "of_le16 65535 255 = 65535" "of_le16 10240 40 = 10240" "of_le16 10243 40 = 10243"
    by (simp_all add: of_le16_def)
  moreover have "read_by_group_rsp 1 65535 10240 =
      Some [0x11, 18, 1, 0, 0x9E, 0xCA, 0xDC, 0x24, 0x0E, 0xE5, 0xA9, 0xE0, 0x93, 0xF3, 0xA3, 0xB5, 1, 0, 0x40, 0x6E]" by code_simp
  ultimately show ?thesis
    by (cases call) (auto simp: att_answer_def Let_def le16_def gatt_read_def write_response_def handles take_2_update)
qed

lemma call_written:
  assumes "conn_ok s"
  shows "nus_view (after_request (call_bytes call) (s, ev)) = written call (nus_view (s, ev))"
proof -
  have len: "length (cn_rx_data s) = 244" using assms by (simp add: conn_ok_def)
  then show ?thesis
    by (cases call) (auto simp: after_request_def gatt_write_def nus_view_def le16_def Let_def handles min_def and_one_eq)
qed


text \<open>A client subscribes to the notifications of the peer.\<close>

lemma example_link_idle: "link_idle (example_conn r)"
  using example_conn_ok [of r] by (simp add: link_idle_def example_conn_def conn_new_def LL_PDU_PAYLOAD_DEFAULT_def)

definition example_client :: ble where
  "example_client = (fst (ble_new (example_world [] [])))\<lparr>bl_conn := Some (example_conn Master)\<rparr>"


end
