(* ===== verification/Ble_Run.thy ===== *)
theory Ble_Run
  imports Ble_Conn
begin

text \<open>
  The blocking loops of \<^verbatim>\<open>src/hw/ble.rs\<close>, in the default build without the \<open>wfi\<close> feature:
  \<open>drain_events\<close>, \<open>adv_forever\<close>, \<open>scan_forever\<close> and \<open>conn_forever\<close> with the application's callback, which
  may change its own state, the stack and the hardware. A loop that does not end is \<open>None\<close>.
\<close>

section \<open>The loops\<close>

type_synonym 'u app = "'u \<times> ble \<times> world"
type_synonym 'u callback = "ble_event \<Rightarrow> 'u app \<Rightarrow> 'u app option"

partial_function (option) drain_events :: "'u callback \<Rightarrow> 'u app \<Rightarrow> 'u app option" where
  "drain_events on_event s =
     (case s of (u, b, w) \<Rightarrow>
      case ble_next_event b of (evt, b) \<Rightarrow>
      case evt of
        None \<Rightarrow> Some (u, b, w)
      | Some evt \<Rightarrow> do { s \<leftarrow> on_event evt (u, b, w); drain_events on_event s })"

partial_function (option) adv_forever :: "'u callback \<Rightarrow> 'u app \<Rightarrow> 'u app option" where
  "adv_forever on_event s =
     (case s of (u, b, w) \<Rightarrow> do {
        w \<leftarrow> wait COMPARE0 w;
        (b, w) \<leftarrow> adv_tick (b, w);
        s \<leftarrow> drain_events on_event (u, b, w);
        if bl_adv_state (fst (snd s)) = AdvIdle then Some s else adv_forever on_event s
      })"

partial_function (option) scan_forever :: "'u callback \<Rightarrow> 'u app \<Rightarrow> 'u app option" where
  "scan_forever on_event s =
     (case s of (u, b, w) \<Rightarrow> do {
        w \<leftarrow> wait COMPARE0 w;
        (b, w) \<leftarrow> scan_tick (b, w);
        s \<leftarrow> drain_events on_event (u, b, w);
        if bl_scan_state (fst (snd s)) = ScanIdle then Some s else scan_forever on_event s
      })"

partial_function (option) conn_forever :: "crypto \<Rightarrow> ccm_engine \<Rightarrow> 'u callback \<Rightarrow> 'u app \<Rightarrow> 'u app option" where
  "conn_forever cx eng on_event s =
     (case s of (u, b, w) \<Rightarrow> do {
        (alive, b, w) \<leftarrow> conn_tick cx eng (b, w);
        s \<leftarrow> drain_events on_event (u, b, w);
        if alive then conn_forever cx eng on_event s else Some s
      })"

section \<open>Applications that observe\<close>

text \<open>A callback that updates its own state by \<open>f\<close> and leaves the stack alone.\<close>

definition observer :: "(ble_event \<Rightarrow> 'u \<Rightarrow> 'u) \<Rightarrow> 'u callback" where
  "observer f = (\<lambda>evt (u, b, w). Some (f evt u, b, w))"

definition emptied :: "ble \<Rightarrow> ble" where
  "emptied b = b\<lparr>bl_events := snd (drain 8 (bl_events b))\<rparr>"

lemma drain_items:
  assumes "ring_ok n s" and "length (ring_items s) < k"
  shows "ring_ok n (snd (drain k s)) \<and> ring_items (snd (drain k s)) = []"
  using assms
proof (induction k arbitrary: s)
  case (Suc k s)
  show ?case
  proof (cases "ring_items s")
    case Nil
    with Suc.prems ring_ok_pop [OF Suc.prems(1)] show ?thesis
      by (cases "next_event s") auto
  next
    case (Cons x xs)
    with ring_ok_pop [OF Suc.prems(1)] Suc.prems(2) Suc.IH [of "snd (next_event s)"] show ?thesis
      by (cases "next_event s") (auto simp: case_prod_beta)
  qed
qed simp

lemma drain_events_observer:
  assumes "ring_ok 8 (bl_events b)" and "length (ring_items (bl_events b)) < k"
  shows "drain_events (observer f) (u, b, w) =
    Some (fold f (ring_items (bl_events b)) u, b\<lparr>bl_events := snd (drain k (bl_events b))\<rparr>, w)"
  using assms
proof (induction k arbitrary: b u)
  case (Suc k b u)
  obtain r q where q: "next_event (bl_events b) = (r, q)" by force
  note pop = ring_ok_pop [OF Suc.prems(1), unfolded q, simplified]
  show ?case
  proof (cases "ring_items (bl_events b)")
    case Nil
    then have "r = None" using pop by simp
    with Nil q show ?thesis by (subst drain_events.simps) (simp add: ble_next_event_def)
  next
    case (Cons x xs)
    then have r: "r = Some x" "ring_items q = xs" using pop by simp_all
    have "drain_events (observer f) (f x u, b\<lparr>bl_events := q\<rparr>, w) =
        Some (fold f xs (f x u), b\<lparr>bl_events := snd (drain k q)\<rparr>, w)"
      using Suc.IH [of "b\<lparr>bl_events := q\<rparr>" "f x u"] pop(1) r(2) Suc.prems(2) Cons by simp
    with r(1) q Cons show ?thesis
      by (subst drain_events.simps) (simp add: ble_next_event_def observer_def case_prod_beta)
  qed
qed simp

section \<open>The life of a connection\<close>

text \<open>\<open>link_run cx eng s es s'\<close>: from \<open>s\<close>, connection events follow one another, the ring being
  emptied after each, until one closes the link; \<open>es\<close> are the events reported on the way.\<close>

inductive link_run :: "crypto \<Rightarrow> ccm_engine \<Rightarrow> ble \<times> world \<Rightarrow> ble_event list \<Rightarrow> ble \<times> world \<Rightarrow> bool"
  for cx :: crypto and eng :: ccm_engine where
  closed: "conn_tick cx eng bw = Some (False, b, w) \<Longrightarrow> link_run cx eng bw (ring_items (bl_events b)) (emptied b, w)"
| alive: "conn_tick cx eng bw = Some (True, b, w) \<Longrightarrow> link_run cx eng (emptied b, w) es bw' \<Longrightarrow>
    link_run cx eng bw (ring_items (bl_events b) @ es) bw'"

text \<open>What one event puts into the ring.\<close>

lemma conn_outcome_events: "conn_outcome cx eng (b, w) = Some (r, b', w') \<Longrightarrow> bl_events b' = bl_events b"
proof (cases "bl_conn b")
  case (Some c)
  assume "conn_outcome cx eng (b, w) = Some (r, b', w')"
  then show ?thesis
    unfolding conn_outcome_def prod.case Some option.case Let_def bind_eq_Some_conv by (elim exE conjE) (force split: if_splits simp: bind_eq_Some_conv)
qed (simp add: conn_outcome_def)

lemma conn_tick_events:
  assumes "conn_tick cx eng (b, w) = Some (open, b', w')"
  shows "\<exists>es. bl_events b' = foldl push_event (bl_events b) es \<and> length es \<le> 2 \<and>
    (if open then \<forall>r. Disconnected r \<notin> set es else bl_conn b' = None \<and> (\<exists>r. es = [Disconnected r]))"
proof -
  obtain out b1 w1 where o: "conn_outcome cx eng (b, w) = Some (out, b1, w1)"
    using assms by (auto simp: conn_tick_def bind_eq_Some_conv)
  note e = conn_outcome_events [OF o]
  show ?thesis
  proof (cases out)
    case (Inl reason)
    with assms o e show ?thesis by (auto simp: conn_tick_def ble_push_def intro!: exI [of _ "[Disconnected reason]"])
  next
    case (Inr ev)
    define es1 where "es1 = (case ev of EvControl op \<Rightarrow> [LlControl op] | EvL2cap cid \<Rightarrow> [L2cap cid] | _ \<Rightarrow> [])"
    define es2 where "es2 = (case bl_conn b1 of Some c \<Rightarrow> if cn_rx_data_len c > 0 then [ConnData] else [] | None \<Rightarrow> [])"
    have "bl_events b' = foldl push_event (bl_events b) (es1 @ es2)" "open"
      using assms o e Inr by (auto simp: conn_tick_def Let_def ble_push_def es1_def es2_def split: conn_event.splits option.splits if_splits)
    moreover have "length (es1 @ es2) \<le> 2" "\<forall>r. Disconnected r \<notin> set (es1 @ es2)"
      by (simp_all add: es1_def es2_def split: conn_event.split option.split)
    ultimately show ?thesis by metis
  qed
qed

lemma push_two:
  assumes "ring_ok 8 s" and "ring_items s = []" and "length es \<le> 2"
  shows "ring_ok 8 (foldl push_event s es) \<and> ring_items (foldl push_event s es) = es"
proof -
  consider "es = []" | x where "es = [x]" | x y where "es = [x, y]"
    using assms(3) by (cases es rule: list.exhaust; cases "tl es") (auto simp: numeral_2_eq_2 Suc_le_eq)
  then show ?thesis
    by cases (use assms(1,2) ring_ok_push [of 8 s] ring_ok_push [of 8 "push_event s _"] in auto)
qed

lemma emptied_ok:
  assumes "ring_ok 8 (bl_events b)" and "length (ring_items (bl_events b)) \<le> 2"
  shows "ring_ok 8 (bl_events (emptied b)) \<and> ring_items (bl_events (emptied b)) = []"
  using drain_items [OF assms(1), of 8] assms(2) by (simp add: emptied_def)

lemma conn_tick_ring:
  assumes "conn_tick cx eng (b, w) = Some (open, b', w')" and "ring_ok 8 (bl_events b)" and "ring_items (bl_events b) = []"
  shows "ring_ok 8 (bl_events b') \<and> length (ring_items (bl_events b')) \<le> 2 \<and>
    (if open then \<forall>r. Disconnected r \<notin> set (ring_items (bl_events b'))
     else bl_conn b' = None \<and> (\<exists>r. ring_items (bl_events b') = [Disconnected r]))"
proof -
  obtain es where es: "bl_events b' = foldl push_event (bl_events b) es" "length es \<le> 2"
      "if open then \<forall>r. Disconnected r \<notin> set es else bl_conn b' = None \<and> (\<exists>r. es = [Disconnected r])"
    using conn_tick_events [OF assms(1)] by blast
  with push_two [OF assms(2,3) es(2)] show ?thesis by simp
qed

lemma drain_events_emptied:
  assumes "ring_ok 8 (bl_events b)" and "length (ring_items (bl_events b)) \<le> 2"
  shows "drain_events (observer f) (u, b, w) = Some (fold f (ring_items (bl_events b)) u, emptied b, w)"
  using drain_events_observer [OF assms(1), of 8] assms(2) by (simp add: emptied_def)

lemma conn_forever_run:
  assumes "link_run cx eng bw es bw'" and "ring_ok 8 (bl_events (fst bw))" and "ring_items (bl_events (fst bw)) = []"
  shows "conn_forever cx eng (observer f) (u, bw) = Some (fold f es u, bw') \<and> bl_conn (fst bw') = None \<and>
    (\<exists>fs r. es = fs @ [Disconnected r] \<and> (\<forall>r. Disconnected r \<notin> set fs)) \<and>
    ring_ok 8 (bl_events (fst bw')) \<and> ring_items (bl_events (fst bw')) = []"
  using assms
proof (induction arbitrary: u rule: link_run.induct)
  case (closed bw b w)
  obtain b0 w0 where bw: "bw = (b0, w0)" by force
  note t = conn_tick_ring [OF closed.hyps [unfolded bw] closed.prems [unfolded bw, simplified]]
  with closed.hyps emptied_ok [of b] drain_events_emptied [of b f u w] show ?case
    by (subst conn_forever.simps) (auto simp: bw emptied_def)
next
  case (alive bw b w es bw')
  obtain b0 w0 where bw: "bw = (b0, w0)" by force
  note t = conn_tick_ring [OF alive.hyps(1) [unfolded bw] alive.prems [unfolded bw, simplified], simplified]
  then have e: "ring_ok 8 (bl_events (emptied b))" "ring_items (bl_events (emptied b)) = []" using emptied_ok [of b] by simp_all
  note IH = alive.IH [of "fold f (ring_items (bl_events b)) u", simplified, OF e]
  have "conn_forever cx eng (observer f) (u, bw) = Some (fold f (ring_items (bl_events b) @ es) u, bw')"
    using t IH alive.hyps(1) drain_events_emptied [of b f u w] by (subst conn_forever.simps) (simp add: bw)
  moreover obtain fs r where "es = fs @ [Disconnected r]" "\<forall>r. Disconnected r \<notin> set fs" using IH by blast
  then have "ring_items (bl_events b) @ es = (ring_items (bl_events b) @ fs) @ [Disconnected r] \<and>
      (\<forall>r. Disconnected r \<notin> set (ring_items (bl_events b) @ fs))" using t by auto
  ultimately show ?case using IH by blast
qed

text \<open>The data that a tick reports can no longer be read: \<open>conn_tick\<close> clears the receive length.\<close>

lemma conn_data_lost:
  assumes "conn_tick cx eng (b, w) = Some (True, b', w')"
  shows "conn_rx_data b' = Some []"
proof -
  obtain out b1 w1 where out: "conn_outcome cx eng (b, w) = Some (out, b1, w1)"
    using assms by (auto simp: conn_tick_def bind_eq_Some_conv)
  then obtain ev where o: "conn_outcome cx eng (b, w) = Some (Inr ev, b1, w1)"
    using assms by (cases out) (auto simp: conn_tick_def)
  let ?b = "case ev of EvControl op \<Rightarrow> ble_push (LlControl op) b1 | EvL2cap cid \<Rightarrow> ble_push (L2cap cid) b1 | _ \<Rightarrow> b1"
  have c: "bl_conn ?b = bl_conn b1" by (simp add: ble_push_def split: conn_event.split)
  show ?thesis
  proof (cases "bl_conn b1")
    case None
    with assms o c show ?thesis by (auto simp: conn_tick_def conn_rx_data_def Let_def)
  next
    case (Some k)
    with assms o c show ?thesis by (auto simp: conn_tick_def conn_rx_data_def Let_def ble_push_def)
  qed
qed

section \<open>Properties\<close>

text \<open>C11. The connection loop ends with the link and reports everything: whenever a sequence of
  connection events leads to one that closes the link, \<open>conn_forever\<close> with an observing callback
  returns; the callback has then seen every event of the sequence exactly once and in order, the
  only disconnection is the last of them, the connection is gone and no event is left.\<close>

theorem conn_forever_reports:
  assumes "link_run cx eng (b, w) es (b', w')" and "ring_ok 8 (bl_events b)" and "ring_items (bl_events b) = []"
  shows "conn_forever cx eng (\<lambda>evt (u, b, w). Some (f evt u, b, w)) (u, b, w) = Some (fold f es u, b', w') \<and>
    bl_conn b' = None \<and> fst (ble_next_event b') = None \<and>
    (\<exists>fs r. es = fs @ [Disconnected r] \<and> (\<forall>r. Disconnected r \<notin> set fs))"
proof -
  have r: "conn_forever cx eng (observer f) (u, b, w) = Some (fold f es u, b', w')" "bl_conn b' = None"
      "\<exists>fs r. es = fs @ [Disconnected r] \<and> (\<forall>r. Disconnected r \<notin> set fs)"
      "ring_ok 8 (bl_events b')" "ring_items (bl_events b') = []"
    using conn_forever_run [OF assms(1), of f u] assms(2,3) by simp_all
  then have "fst (ble_next_event b') = None"
    using ring_ok_pop(3) [OF r(4)] by (simp add: ble_next_event_def case_prod_beta)
  with r show ?thesis unfolding observer_def by blast
qed

text \<open>A link whose supervision timeout has passed: one event, and the application hears of it.\<close>

definition example_lost_link :: ble where
  "example_lost_link = (fst (ble_new (example_world [] [])))\<lparr>bl_conn := Some (example_conn Slave)\<rparr>"

theorem conn_forever_reports_witness:
  "\<exists>b' w'. conn_forever example_crypto example_engine (\<lambda>evt (u, b, w). Some (u @ [evt], b, w))
      ([], example_lost_link, example_world [0xFFFFFF] []) = Some ([Disconnected SupervisionTimeout], b', w') \<and> bl_conn b' = None"
proof -
  have "map_option (\<lambda>(alive, b, w). (alive, ring_items (bl_events b)))
      (conn_tick example_crypto example_engine (example_lost_link, example_world [0xFFFFFF] [])) =
    Some (False, [Disconnected SupervisionTimeout])" by code_simp
  then obtain b w where t: "conn_tick example_crypto example_engine (example_lost_link, example_world [0xFFFFFF] []) = Some (False, b, w)"
      "ring_items (bl_events b) = [Disconnected SupervisionTimeout]" by auto
  have r: "bl_events example_lost_link = ring_new 8" by (simp add: example_lost_link_def ble_new_def EVENT_QUEUE_LEN_def)
  show ?thesis
    using conn_forever_reports [OF link_run.closed [OF t(1)], of "\<lambda>evt u. u @ [evt]" "[]"] ring_new_ok [of 8] ring_new_items [of 8]
    by (auto simp: r t(2))
qed

end
