(* ===== verification/Spec2Isabelle.thy ===== *)
theory Spec2Isabelle
  imports Sim_Radio Conn_Coc Conn_Control Conn_Reception Conn_Schedule Hci_Controller Ble_Gatt Ble_Run
begin

text \<open>
  A verification of \<^verbatim>\<open>nrf-ble\<close>, a Bluetooth Low Energy stack for the nRF52 in Rust (\<^verbatim>\<open>src/\<close>). This theory
  imports all others.

  \<^bold>\<open>The program.\<close> Frames are built and checked in \<^verbatim>\<open>src/ll\<close> (CRC, whitening, channels, PDU codecs,
  addresses, privacy, accept list) and \<^verbatim>\<open>src/gap/ad.rs\<close> (advertising data). \<^verbatim>\<open>src/hw/radio.rs\<close>,
  \<^verbatim>\<open>timers.rs\<close>, \<^verbatim>\<open>ccm.rs\<close> and \<^verbatim>\<open>bond_flash.rs\<close> drive the peripherals. \<^verbatim>\<open>src/hw/conn.rs\<close> is one
  connection: its events on the air, the link-layer control procedures, L2CAP, the credit-based
  channel, the ATT server and the dispatch to the Security Manager of \<^verbatim>\<open>src/hw/smp.rs\<close>.
  \<^verbatim>\<open>src/hw/ble.rs\<close> owns the peripherals and the connection, advertises, scans, initiates, drives the
  connection and queues events; \<^verbatim>\<open>src/hci.rs\<close> puts an HCI host on top of it, and \<^verbatim>\<open>src/sim.rs\<close> is a
  virtual radio for tests.

  \<^bold>\<open>Conventions.\<close> Fixed arrays and slices are byte lists, integers are words of their width and wrap
  as in the release profile, structs are records with the fields of the source. \<open>Result\<close> is a sum,
  \<open>Inl\<close> being the error. \<open>None\<close> stands for no result: a panic (an index, a slice, an \<open>unwrap\<close>), a
  busy-wait that is never released, or a write beyond a buffer. A mutated buffer is returned.
  Hardware is the record \<open>world\<close> of \<^verbatim>\<open>Peripherals\<close>: the configuration registers, the tasks issued, the
  packets sent, and scripts of what the event registers, the timer, the RSSI register and the DMA
  will answer; a script that runs out is \<open>None\<close>. Clearing an event register therefore changes
  nothing. AES, CMAC, P-256 (\<open>crypto\<close>) and the CCM engine (\<open>ccm_engine\<close>) are arguments of the
  definitions; what is assumed of them (\<open>crypto_ok\<close>, \<open>engine_ok\<close>: sizes of results) are hypotheses
  with concrete instances.

  \<^bold>\<open>Theories and what they show.\<close>

  \<^item> \<^verbatim>\<open>Ble_Prelude\<close>: types, errors (\<^verbatim>\<open>error.rs\<close>), bounds-checked access (\<open>get\<close>, \<open>put\<close>, \<open>slice\<close>, \<open>copy_slice\<close>),
    little-endian words and the lemmas on lists and words that all share.
  \<^item> \<^verbatim>\<open>Crc24\<close> (\<^verbatim>\<open>ll/crc.rs\<close>): the reflected CRC equals the shift register of the polynomial and detects
    every change within 24 consecutive bits on the air. \<^verbatim>\<open>Whiten\<close> (\<^verbatim>\<open>ll/whiten.rs\<close>): whitening is an involution and separates
    channels. \<^verbatim>\<open>Sim_Radio\<close> (\<^verbatim>\<open>sim.rs\<close>): loopback, and rejection of corrupted packets.
  \<^item> \<^verbatim>\<open>Channels\<close> (\<^verbatim>\<open>ll/channels.rs\<close> and \<open>next_channel\<close> of \<^verbatim>\<open>conn.rs\<close>): frequencies, the next used channel,
    full coverage of the hop. \<^verbatim>\<open>Timers\<close> (\<^verbatim>\<open>hw/timers.rs\<close>): fractional intervals do not drift.
  \<^item> \<^verbatim>\<open>Pdu\<close> (\<^verbatim>\<open>ll/pdu.rs\<close>): every codec on every branch, what is read back of every advertising PDU that
    is written (\<open>wire_view\<close>; not always the PDU itself), round trip of data PDUs.
    \<^verbatim>\<open>Addr\<close> (\<^verbatim>\<open>ll/addr.rs\<close>, \<^verbatim>\<open>accept_list.rs\<close>, \<^verbatim>\<open>priv_.rs\<close>): the accept list as a bounded set (a locale,
    interpreted), exactness of address resolution. \<^verbatim>\<open>Ad\<close> (\<^verbatim>\<open>gap/ad.rs\<close>): building and parsing, with what
    every further call of the iterator yields on a malformed buffer.
  \<^item> \<^verbatim>\<open>Bond\<close> (\<^verbatim>\<open>conn.rs\<close>, \<^verbatim>\<open>bond_flash.rs\<close>): both bond stores against one locale of a bounded map, and the
    layout of the flash page: what a save stores is what opening the page reads. No law is assumed
    of the flash controller, so that the page holds what was stored is not claimed. \<^verbatim>\<open>Event_Queue\<close>: the event rings of \<open>Hci\<close> and \<open>Ble\<close> as
    interpretations of a queue locale, and exactly what an overflow does to them.
  \<^item> \<^verbatim>\<open>Smp\<close> (\<^verbatim>\<open>hw/smp.rs\<close>): legacy pairing completes with equal keys, a key needs a matching confirm
    value within its operations (\<^verbatim>\<open>Ble_Conn\<close> has all sources of a connection's key), agreement in
    secure connections.
  \<^item> \<^verbatim>\<open>Peripherals\<close> (\<^verbatim>\<open>radio.rs\<close>, \<^verbatim>\<open>timers.rs\<close>, \<^verbatim>\<open>ccm.rs\<close>): the drivers, and that a packet is sent as configured.
  \<^item> \<^verbatim>\<open>Conn_State\<close>, \<^verbatim>\<open>Conn_Att\<close>, \<^verbatim>\<open>Conn_L2cap\<close>, \<^verbatim>\<open>Conn_Coc\<close>: the connection record and its invariant \<open>conn_ok\<close>, the
    transmit queue and fragmenter, the ATT server, reassembly and signaling; fragmentation round
    trip and how it fails outside its bounds, answers of the server, transfer over the credit-based
    channel. These are claims about the layers above the radio's receive path.
  \<^item> \<^verbatim>\<open>Conn_Link\<close>, \<^verbatim>\<open>Conn_Control\<close>, \<^verbatim>\<open>Conn_Reception\<close>, \<^verbatim>\<open>Conn_Schedule\<close>: the connection event of both roles,
    step by step. An event that completes keeps the invariant and leaves the radio disabled (a
    packet above the 64-octet receive buffer is an overrun, and no result); control requests are
    answered; what goes out encrypted and what does not; what an unencrypted link can receive;
    channel, counter and anchor after any number of events.
  \<^item> \<^verbatim>\<open>Ble_State\<close>, \<^verbatim>\<open>Ble_Adv\<close>, \<^verbatim>\<open>Ble_Scan\<close>, \<^verbatim>\<open>Ble_Conn\<close>, \<^verbatim>\<open>Ble_Run\<close>: the stack object of \<^verbatim>\<open>ble.rs\<close> in the order of the
    source: configuration and start calls, \<open>adv_tick\<close>, \<open>scan_tick\<close>, \<open>conn_tick\<close> with the calls on an open
    connection, and the blocking loops with the application's callback (\<open>partial_function\<close>);
    \<open>conn_forever\<close> returns when the link closes, with every event reported once and in order.
  \<^item> \<^verbatim>\<open>Ble_Invariant\<close>: the invariant \<open>ble_ok\<close> of the stack over the step relation \<open>ble_step\<close>, whose steps are
    the public calls and ticks. \<^verbatim>\<open>Ble_Air\<close>: two stacks on the air: which advertisements are
    reported, a connection request puts both sides on one link, the accept list filters.
    \<^verbatim>\<open>Ble_Gatt\<close>: the packets of a GATT client call go to the server of the peer and back, the radio
    between them left out (on an unencrypted link it would not pass them, \<^verbatim>\<open>Conn_Reception\<close>).
  \<^item> \<^verbatim>\<open>Hci\<close>, \<^verbatim>\<open>Hci_Framing\<close>, \<^verbatim>\<open>Hci_Controller\<close>: packets, the H4 framer, command dispatch and event forwarding;
    recovery of packet streams within the sizes whose length octet does not wrap, the framer's invariant and its only panic, one answer for every
    command, termination and completeness of forwarding.

  \<^bold>\<open>Bounds and fuel.\<close> Loops over scripts are structural in the script. \<open>send_all\<close> and \<open>send_packets\<close> have fuel and
  end with one round per queued byte and one more, when the negotiated size leaves room for data; \<open>transact\<close> uses 252, the size of the queue plus
  one. \<open>drain\<close> takes a bound on the events to pop, eight for the ring of the stack. \<open>hci_tick\<close> is
  total: every round empties a slot. The hop loop runs at most 37 rounds as in the source.

  \<^bold>\<open>Not modelled.\<close> The peripherals themselves and the timing between register accesses; the \<open>wfi\<close>
  feature, which only sleeps; the external AES, CMAC and P-256 crates; module declarations and
  re-exports; unit tests and the functions compiled only for them; the example firmware, which sets
  up a board and calls the library.
\<close>

end
